(* ===== verification/Prelude.thy ===== *)
theory Prelude
  imports Main "HOL-Library.Word" "HOL-Library.Monad_Syntax"
begin

section \<open>Shared vocabulary of the model\<close>

text \<open>
  What every other theory builds on: machine integers, the values of the standard library that
  the crate passes around (\<open>Poll\<close>, \<open>io::Error\<close>, 32-byte arrays, \<open>Duration\<close>), and the effects of the
  code written as values.
  \<^item> A call that may panic or never return has type \<open>'a run\<close>: \<open>ret x\<close> is a normal return,
    \<open>panic\<close> a panic, \<open>None\<close> a call that does not return.
  \<^item> A call that also acts on the outside world (binding a socket) has type \<open>('w, 'a) action\<close>:
    it threads a world \<open>'w\<close> of which the model knows nothing.
  \<^item> The operator \<open>?\<close> on an \<open>io::Result\<close> is \<open>try_bind\<close> (and \<open>res_bind\<close> for pure code): an
    error is the result of the whole function and the rest of its body does not run.
\<close>

named_theorems run_simps \<open>equations and inversions of the effect combinators\<close>

subsection \<open>Machine integers and standard-library values\<close>

type_synonym u8 = "8 word"
type_synonym u16 = "16 word"
type_synonym u32 = "32 word"
type_synonym u64 = "64 word"
type_synonym bytes = "u8 list"

text \<open>\<open>std::time::Duration\<close>: whole seconds and a nanosecond part.\<close>

record duration =
  dur_secs :: u64
  dur_nanos :: u32

definition duration_from_secs :: "u64 \<Rightarrow> duration" where
  "duration_from_secs s = \<lparr>dur_secs = s, dur_nanos = 0\<rparr>"

definition duration_default :: duration where
  "duration_default = \<lparr>dur_secs = 0, dur_nanos = 0\<rparr>"

text \<open>\<open>std::io::Error\<close>: a kind and a message. The kinds the crate builds itself come first.\<close>

datatype error_kind =
    InvalidInput | OtherKind
  | ConnectionRefused | ConnectionReset | ConnectionAborted | NotConnected
  | AddrInUse | AddrNotAvailable | BrokenPipe | TimedOut | Interrupted
  | UnexpectedEof | InvalidData | WriteZero | PermissionDenied | NotFound
  | OsError nat

datatype io_error = IoError error_kind string

type_synonym 'a io_result = "io_error + 'a"

text \<open>\<open>std::task::Poll\<close>.\<close>

datatype 'a poll = Pending | Ready 'a

fun is_ready :: "'a poll \<Rightarrow> bool" where
  "is_ready Pending = False"
| "is_ready (Ready x) = True"

lemma io_result_poll_cases [case_names pending error item]:
  fixes p :: "'b io_result poll"
  obtains "p = Pending" | e where "p = Ready (Inl e)" | x where "p = Ready (Inr x)"
  by (metis poll.exhaust sum.exhaust)

subsection \<open>Byte arrays of length 32\<close>

text \<open>\<open>[T; 32]\<close>; \<open>[u8; 32]\<close> is the type of topics and of DHT identifiers.\<close>

typedef 'a array32 = "{xs :: 'a list. length xs = 32}"
  morphisms array32_list Array32
proof
  show "replicate 32 undefined \<in> {xs. length xs = 32}" by simp
qed

setup_lifting type_definition_array32

lift_definition array32_fill :: "'a \<Rightarrow> 'a array32" is "replicate 32"
  by simp

text \<open>\<open>TryFrom<Vec<u8>> for [u8; 32]\<close> and \<open>TryFrom<&[u8]> for [u8; 32]\<close>; the rejected value that
  the error carries is not used by the crate.\<close>

lift_definition (code_dt) array32_try_from :: "'a list \<Rightarrow> 'a array32 option"
  is "\<lambda>xs. if length xs = 32 then Some xs else None"
  by auto

instantiation array32 :: (equal) equal
begin

lift_definition equal_array32 :: "'a array32 \<Rightarrow> 'a array32 \<Rightarrow> bool" is "HOL.equal" .

instance
  by standard (transfer, simp add: equal_eq)

end

lemma array32_list_length [simp]: "length (array32_list a) = 32"
  by transfer simp

lemma array32_try_from_bytes [simp]: "array32_try_from (array32_list a) = Some a"
  by transfer simp

lemma array32_try_from_None [simp]: "array32_try_from bs = None \<longleftrightarrow> length bs \<noteq> 32"
  by transfer simp

lemma array32_try_from_wrong [simp]: "length bs \<noteq> 32 \<Longrightarrow> array32_try_from bs = None"
  by simp

lemma array32_try_from_Some [simp]: "array32_try_from bs = Some a \<longleftrightarrow> bs = array32_list a"
  by transfer auto

lemma array32_try_from_total: "length bs = 32 \<Longrightarrow> \<exists>a. array32_try_from bs = Some a"
  by transfer simp

lemma array32_fill_list: "array32_list (array32_fill b) = replicate 32 b"
  by transfer simp

lemma array32_fill_inj [simp]: "array32_fill a = array32_fill b \<longleftrightarrow> a = b"
  by transfer simp

subsection \<open>Calls that may panic or not return\<close>

datatype 'a exec = Ret 'a | Panic

type_synonym 'a run = "'a exec option"

abbreviation ret :: "'a \<Rightarrow> 'a run" where
  "ret x \<equiv> Some (Ret x)"

abbreviation panic :: "'a run" where
  "panic \<equiv> Some Panic"

definition run_bind :: "'a run \<Rightarrow> ('a \<Rightarrow> 'b run) \<Rightarrow> 'b run" where
  "run_bind m f = (case m of None \<Rightarrow> None | Some Panic \<Rightarrow> panic | Some (Ret x) \<Rightarrow> f x)"

lemma run_bind_simps [simp, run_simps]:
  "run_bind (ret x) f = f x"
  "run_bind panic f = panic"
  "run_bind None f = None"
  by (simp_all add: run_bind_def)

lemma run_bind_assoc: "run_bind (run_bind m f) g = run_bind m (\<lambda>x. run_bind (f x) g)"
  by (simp add: run_bind_def split: option.splits exec.splits)

lemma run_bind_eq_ret [run_simps]:
  "run_bind m f = ret y \<longleftrightarrow> (\<exists>x. m = ret x \<and> f x = ret y)"
  by (auto simp: run_bind_def split: option.splits exec.splits)

lemma run_bind_eq_panic:
  "run_bind m f = panic \<longleftrightarrow> m = panic \<or> (\<exists>x. m = ret x \<and> f x = panic)"
  by (auto simp: run_bind_def split: option.splits exec.splits)

lemma run_bind_eq_None:
  "run_bind m f = None \<longleftrightarrow> m = None \<or> (\<exists>x. m = ret x \<and> f x = None)"
  by (auto simp: run_bind_def split: option.splits exec.splits)

lemma run_bind_cong [fundef_cong]:
  "m = m' \<Longrightarrow> (\<And>x. m' = ret x \<Longrightarrow> f x = g x) \<Longrightarrow> run_bind m f = run_bind m' g"
  by (auto simp: run_bind_def split: option.splits exec.splits)

lemma run_bind_mono [partial_function_mono]:
  assumes "mono_option B" and "\<And>y. mono_option (C y)"
  shows "mono_option (\<lambda>f. run_bind (B f) (\<lambda>y. C y f))"
proof (rule monotoneI)
  fix f g :: "'a \<Rightarrow> 'b option"
  assume fg: "fun_ord option_ord f g"
  with assms(1) have "option_ord (B f) (B g)" by (rule monotoneD [of _ _ _ f g])
  then have "B f = None \<or> B f = B g" by (simp add: flat_ord_def)
  moreover have "option_ord (C y f) (C y g)" for y
    using assms(2) fg by (rule monotoneD [of _ _ _ f g])
  ultimately show "option_ord (run_bind (B f) (\<lambda>y. C y f)) (run_bind (B g) (\<lambda>y. C y g))"
    by (elim disjE) (simp_all add: flat_ord_def run_bind_def split: option.split exec.split)
qed

text \<open>\<open>Option::unwrap\<close> and \<open>Result::unwrap\<close>.\<close>

fun unwrap_opt :: "'a option \<Rightarrow> 'a run" where
  "unwrap_opt None = panic"
| "unwrap_opt (Some x) = ret x"

fun unwrap_res :: "'e + 'a \<Rightarrow> 'a run" where
  "unwrap_res (Inl e) = panic"
| "unwrap_res (Inr x) = ret x"

lemma unwrap_opt_eq_ret [run_simps]: "unwrap_opt x = ret y \<longleftrightarrow> x = Some y"
  by (cases x) auto

lemma unwrap_res_eq_ret [run_simps]: "unwrap_res x = ret y \<longleftrightarrow> x = Inr y"
  by (cases x) auto

lemma unwrap_eq_panic [simp]:
  "unwrap_opt x = panic \<longleftrightarrow> x = None"
  "unwrap_res y = panic \<longleftrightarrow> (\<exists>e. y = Inl e)"
  by (cases x, auto) (cases y, auto)

lemma unwrap_returns [simp]: "unwrap_opt x \<noteq> None" "unwrap_res y \<noteq> None"
  by (cases x, auto) (cases y, auto)

subsection \<open>Fallible calls and calls on the outside world\<close>

fun res_bind :: "'e + 'a \<Rightarrow> ('a \<Rightarrow> 'e + 'b) \<Rightarrow> 'e + 'b" where
  "res_bind (Inl e) f = Inl e"
| "res_bind (Inr x) f = f x"

lemma res_bind_eq_Inr [run_simps]: "res_bind m f = Inr y \<longleftrightarrow> (\<exists>x. m = Inr x \<and> f x = Inr y)"
  by (cases m) auto

fun map_ok :: "('a \<Rightarrow> 'b) \<Rightarrow> 'e + 'a \<Rightarrow> 'e + 'b" where
  "map_ok f (Inl e) = Inl e"
| "map_ok f (Inr x) = Inr (f x)"

lemma map_ok_simps [simp]:
  "map_ok f r = Inr y \<longleftrightarrow> (\<exists>x. r = Inr x \<and> y = f x)"
  "map_ok f r = Inl e \<longleftrightarrow> r = Inl e"
  by (cases r; auto)+

type_synonym ('w, 'a) action = "'w \<Rightarrow> ('a \<times> 'w) run"

definition act_return :: "'a \<Rightarrow> ('w, 'a) action" where
  "act_return x w = ret (x, w)"

definition act_run :: "'a run \<Rightarrow> ('w, 'a) action" where
  "act_run m w = run_bind m (\<lambda>x. ret (x, w))"

definition act_bind :: "('w, 'a) action \<Rightarrow> ('a \<Rightarrow> ('w, 'b) action) \<Rightarrow> ('w, 'b) action" where
  "act_bind m f w = run_bind (m w) (\<lambda>(x, w'). f x w')"

definition try_bind ::
  "('w, 'a io_result) action \<Rightarrow> ('a \<Rightarrow> ('w, 'b io_result) action) \<Rightarrow> ('w, 'b io_result) action" where
  "try_bind m f = act_bind m (\<lambda>r. case r of Inl e \<Rightarrow> act_return (Inl e) | Inr x \<Rightarrow> f x)"

lemma act_simps [simp, run_simps]:
  "act_return x w = ret (x, w)"
  "act_run (ret x) w = ret (x, w)"
  "act_run panic w = panic"
  by (simp_all add: act_return_def act_run_def)

lemma try_bind_returned [simp, run_simps]:
  "m w = ret (Inl e, w') \<Longrightarrow> try_bind m f w = ret (Inl e, w')"
  "m w = ret (Inr x, w') \<Longrightarrow> try_bind m f w = f x w'"
  "m w = panic \<Longrightarrow> try_bind m f w = panic"
  by (simp_all add: try_bind_def act_bind_def)

lemma try_bind_eq_ret_Inr [run_simps]:
  "try_bind m f w = ret (Inr y, w'') \<longleftrightarrow>
     (\<exists>x w'. m w = ret (Inr x, w') \<and> f x w' = ret (Inr y, w''))"
  by (auto simp: try_bind_def act_bind_def run_bind_def
      split: option.splits exec.splits sum.splits)

lemma try_bind_eq_ret_Inl:
  "try_bind m f w = ret (Inl e, w'') \<longleftrightarrow>
     m w = ret (Inl e, w'') \<or> (\<exists>x w'. m w = ret (Inr x, w') \<and> f x w' = ret (Inl e, w''))"
  by (auto simp: try_bind_def act_bind_def run_bind_def
      split: option.splits exec.splits sum.splits)

lemma act_run_eq_ret [run_simps]: "act_run m w = ret (x, w') \<longleftrightarrow> m = ret x \<and> w' = w"
  by (auto simp: act_run_def run_simps)

end
