(* ===== verification/Channel.thy ===== *)
theory Channel
  imports Prelude
begin

section \<open>Unbounded channels\<close>

text \<open>
  The unbounded channels of \<open>async_std\<close>, which the swarm and the mDNS discovery use for commands.
  The crate is third-party, so its operations are the fields of a record; both ends of a channel
  share one state \<open>'c\<close>, and \<open>ch_close\<close> is the drop of the last sender or of the last receiver.
  \<open>channel_laws\<close> states what the crate documents: an open channel takes every message, messages
  come out in the order they went in, a poll of an empty open channel is pending, a closed channel
  refuses messages and ends once it is empty, and closing keeps the messages.
\<close>

record ('c, 'm) channel_ops =
  ch_unbounded :: 'c
  ch_try_send :: "'m \<Rightarrow> 'c \<Rightarrow> 'c \<times> ('m + unit)"
  ch_poll_next :: "'c \<Rightarrow> 'c \<times> 'm option poll"
  ch_close :: "'c \<Rightarrow> 'c"

definition channel_laws ::
  "('c, 'm) channel_ops \<Rightarrow> ('c \<Rightarrow> 'm list) \<Rightarrow> ('c \<Rightarrow> bool) \<Rightarrow> bool" where
  "channel_laws ops contents closed \<longleftrightarrow>
     contents (ch_unbounded ops) = [] \<and> \<not> closed (ch_unbounded ops) \<and>
     (\<forall>m c. \<not> closed c \<longrightarrow>
        (\<exists>c'. ch_try_send ops m c = (c', Inr ()) \<and> contents c' = contents c @ [m] \<and> \<not> closed c')) \<and>
     (\<forall>m c. closed c \<longrightarrow> ch_try_send ops m c = (c, Inl m)) \<and>
     (\<forall>m ms c. contents c = m # ms \<longrightarrow>
        (\<exists>c'. ch_poll_next ops c = (c', Ready (Some m)) \<and> contents c' = ms \<and> closed c' = closed c)) \<and>
     (\<forall>c. contents c = [] \<longrightarrow>
        (\<exists>c'. ch_poll_next ops c = (c', if closed c then Ready None else Pending) \<and>
           contents c' = [] \<and> closed c' = closed c)) \<and>
     (\<forall>c. closed (ch_close ops c) \<and> contents (ch_close ops c) = contents c)"

lemma channel_lawsD:
  assumes "channel_laws ops contents closed"
  shows "contents (ch_unbounded ops) = []" "\<not> closed (ch_unbounded ops)"
    and "\<not> closed c \<Longrightarrow>
      \<exists>c'. ch_try_send ops m c = (c', Inr ()) \<and> contents c' = contents c @ [m] \<and> \<not> closed c'"
    and "closed c \<Longrightarrow> ch_try_send ops m c = (c, Inl m)"
    and "contents c = m # ms \<Longrightarrow>
      \<exists>c'. ch_poll_next ops c = (c', Ready (Some m)) \<and> contents c' = ms \<and> closed c' = closed c"
    and "contents c = [] \<Longrightarrow>
      \<exists>c'. ch_poll_next ops c = (c', if closed c then Ready None else Pending) \<and>
        contents c' = [] \<and> closed c' = closed c"
    and "closed (ch_close ops c)" and "contents (ch_close ops c) = contents c"
  using assms unfolding channel_laws_def by blast+

text \<open>A poll takes at most one message and never closes or reopens the channel.\<close>

lemma channel_poll_queue:
  assumes "channel_laws ops contents closed"
  shows "contents (fst (ch_poll_next ops c)) = tl (contents c)"
    and "closed (fst (ch_poll_next ops c)) = closed c"
  using channel_lawsD(5) [OF assms, of c] channel_lawsD(6) [OF assms, of c]
  by (cases "contents c"; force)+

text \<open>A concrete channel for examples: the queue and whether it is closed.\<close>

definition list_channel :: "('m list \<times> bool, 'm) channel_ops" where
  "list_channel =
     \<lparr>ch_unbounded = ([], False),
      ch_try_send = (\<lambda>m (ms, closed). if closed then ((ms, closed), Inl m) else ((ms @ [m], closed), Inr ())),
      ch_poll_next = (\<lambda>(ms, closed).
        case ms of
          [] \<Rightarrow> (([], closed), if closed then Ready None else Pending)
        | m # ms' \<Rightarrow> ((ms', closed), Ready (Some m))),
      ch_close = (\<lambda>(ms, closed). (ms, True))\<rparr>"

lemma list_channel_simps [simp]:
  "ch_unbounded list_channel = ([], False)"
  "ch_try_send list_channel m (ms, False) = ((ms @ [m], False), Inr ())"
  "ch_try_send list_channel m (ms, True) = ((ms, True), Inl m)"
  "ch_poll_next list_channel ([], False) = (([], False), Pending)"
  "ch_poll_next list_channel ([], True) = (([], True), Ready None)"
  "ch_poll_next list_channel (m # ms, c) = ((ms, c), Ready (Some m))"
  "ch_close list_channel (ms, c) = (ms, True)"
  by (simp_all add: list_channel_def)

lemma list_channel_laws: "channel_laws list_channel fst snd"
  by (auto simp: channel_laws_def list_channel_def)

end
