(* ===== verification/Chat_Connection.thy ===== *)
theory Chat_Connection
  imports Channel
begin

section \<open>A connection of the chat (\<open>connection_loop\<close> of \<open>examples/hyperchat.rs\<close>)\<close>

text \<open>
  Messages framed by their length in both directions of one connection. The byte stream and the
  futures of \<open>async_std\<close> (\<open>read_exact\<close>, \<open>write_all\<close>) are the fields of \<open>chat_env\<close>.
\<close>

subsection \<open>Frames\<close>

definition u32_to_be_bytes :: "u32 \<Rightarrow> bytes" where
  "u32_to_be_bytes w = [ucast (drop_bit 24 w), ucast (drop_bit 16 w), ucast (drop_bit 8 w), ucast w]"

text \<open>\<open>u32::from_be_bytes\<close> on an array of four bytes.\<close>

definition u32_from_be_bytes :: "bytes \<Rightarrow> u32" where
  "u32_from_be_bytes bs =
     or (push_bit 24 (ucast (bs ! 0))) (or (push_bit 16 (ucast (bs ! 1)))
       (or (push_bit 8 (ucast (bs ! 2))) (ucast (bs ! 3))))"

text \<open>What the loop writes for a message; \<open>as u32\<close> takes the length modulo \<open>2 ^ 32\<close>.\<close>

definition frame :: "bytes \<Rightarrow> bytes" where
  "frame message = u32_to_be_bytes (of_nat (length message)) @ message"

lemma u32_to_be_bytes_length [simp]: "length (u32_to_be_bytes w) = 4"
  by (simp add: u32_to_be_bytes_def)

lemma u32_from_to_be_bytes [simp]: "u32_from_be_bytes (u32_to_be_bytes w) = w"
proof (rule bit_word_eqI)
  fix n
  assume "n < LENGTH(32)"
  then consider "n < 8" | k where "n = 8 + k" "k < 8" | k where "n = 16 + k" "k < 8"
    | k where "n = 24 + k" "k < 8"
    using le_Suc_ex [of 8 n] le_Suc_ex [of 16 n] le_Suc_ex [of 24 n] by fastforce
  then show "bit (u32_from_be_bytes (u32_to_be_bytes w)) n \<longleftrightarrow> bit w n"
    by cases (auto simp: u32_from_be_bytes_def u32_to_be_bytes_def bit_simps)
qed

lemma u32_to_from_be_bytes:
  assumes "length bs = 4"
  shows "u32_to_be_bytes (u32_from_be_bytes bs) = bs"
proof -
  from assms obtain a b c d where bs: "bs = [a, b, c, d]"
    by (auto simp: length_Suc_conv numeral_eq_Suc)
  show ?thesis
    by (simp add: bs u32_to_be_bytes_def u32_from_be_bytes_def)
       (intro conjI; rule bit_word_eqI; auto simp: bit_simps dest: bit_imp_le_length)
qed

subsection \<open>One connection\<close>

text \<open>
  The futures: \<open>ce_read_exact n\<close> is a future that fills a buffer of \<open>n\<close> bytes from the stream \<open>'s\<close>,
  and a poll of it gives the filled buffer; \<open>ce_write_all bytes\<close> one that writes them all. The two
  channels are unbounded ones.
\<close>

record ('s, 'r, 'x, 'q) chat_env =
  ce_read_exact :: "nat \<Rightarrow> 'r"
  ce_read_poll :: "'r \<Rightarrow> 's \<Rightarrow> 'r \<times> 's \<times> bytes io_result poll"
  ce_write_all :: "bytes \<Rightarrow> 'x"
  ce_write_poll :: "'x \<Rightarrow> 's \<Rightarrow> 'x \<times> 's \<times> unit io_result poll"
  ce_channel :: "('q, bytes) channel_ops"

text \<open>Where the \<open>async fn\<close> waits: in the \<open>select\<close>, for the body of a message, or for a write.\<close>

datatype ('r, 'x) chat_wait = Selecting 'r | ReadingBody 'r | Writing 'x

record ('s, 'r, 'x, 'q) chat_loop =
  cl_stream :: 's
  cl_outbound :: 'q
  cl_inbound :: 'q
  cl_wait :: "('r, 'x) chat_wait"

datatype chat_error = ChatIo io_error | ChatSend | ChatClosed

definition chat_start ::
  "('s, 'r, 'x, 'q) chat_env \<Rightarrow> 's \<Rightarrow> 'q \<Rightarrow> 'q \<Rightarrow> ('s, 'r, 'x, 'q) chat_loop" where
  "chat_start env stream inbound outbound =
     \<lparr>cl_stream = stream, cl_outbound = outbound, cl_inbound = inbound,
      cl_wait = Selecting (ce_read_exact env 4)\<rparr>"

text \<open>
  One step of the loop from where it waits: either the loop goes on (\<open>Inl\<close>), or this poll of it is
  over. The \<open>select\<close> polls the read of the length first and the outbound channel second; when the
  channel wins, the read future is dropped, and the next turn of the loop makes a new one.
\<close>

definition chat_turn ::
  "('s, 'r, 'x, 'q) chat_env \<Rightarrow> ('s, 'r, 'x, 'q) chat_loop \<Rightarrow>
     ('s, 'r, 'x, 'q) chat_loop + ('s, 'r, 'x, 'q) chat_loop \<times> (chat_error + unit) poll" where
  "chat_turn env s =
     (case cl_wait s of
        Selecting left \<Rightarrow>
          (case ce_read_poll env left (cl_stream s) of
             (left, stream, Ready (Inr len_buf)) \<Rightarrow>
               let len = u32_from_be_bytes len_buf in
               Inl (s\<lparr>cl_stream := stream, cl_wait := ReadingBody (ce_read_exact env (unat len))\<rparr>)
           | (left, stream, Ready (Inl err)) \<Rightarrow>
               Inr (s\<lparr>cl_stream := stream\<rparr>, Ready (Inl (ChatIo err)))
           | (left, stream, Pending) \<Rightarrow>
               (case ch_poll_next (ce_channel env) (cl_outbound s) of
                  (outbound, Ready (Some message)) \<Rightarrow>
                    Inl (s\<lparr>cl_stream := stream, cl_outbound := outbound,
                           cl_wait := Writing (ce_write_all env (frame message))\<rparr>)
                | (outbound, Ready None) \<Rightarrow>
                    Inr (s\<lparr>cl_stream := stream, cl_outbound := outbound\<rparr>, Ready (Inl ChatClosed))
                | (outbound, Pending) \<Rightarrow>
                    Inr (s\<lparr>cl_stream := stream, cl_outbound := outbound, cl_wait := Selecting left\<rparr>,
                         Pending)))
      | ReadingBody fut \<Rightarrow>
          (case ce_read_poll env fut (cl_stream s) of
             (fut, stream, Pending) \<Rightarrow>
               Inr (s\<lparr>cl_stream := stream, cl_wait := ReadingBody fut\<rparr>, Pending)
           | (fut, stream, Ready (Inl err)) \<Rightarrow>
               Inr (s\<lparr>cl_stream := stream\<rparr>, Ready (Inl (ChatIo err)))
           | (fut, stream, Ready (Inr buf)) \<Rightarrow>
               (case ch_try_send (ce_channel env) buf (cl_inbound s) of
                  (inbound, Inl _) \<Rightarrow>
                    Inr (s\<lparr>cl_stream := stream, cl_inbound := inbound\<rparr>, Ready (Inl ChatSend))
                | (inbound, Inr _) \<Rightarrow>
                    Inl (s\<lparr>cl_stream := stream, cl_inbound := inbound,
                           cl_wait := Selecting (ce_read_exact env 4)\<rparr>)))
      | Writing fut \<Rightarrow>
          (case ce_write_poll env fut (cl_stream s) of
             (fut, stream, Pending) \<Rightarrow>
               Inr (s\<lparr>cl_stream := stream, cl_wait := Writing fut\<rparr>, Pending)
           | (fut, stream, Ready (Inl err)) \<Rightarrow>
               Inr (s\<lparr>cl_stream := stream\<rparr>, Ready (Inl (ChatIo err)))
           | (fut, stream, Ready (Inr _)) \<Rightarrow>
               Inl (s\<lparr>cl_stream := stream, cl_wait := Selecting (ce_read_exact env 4)\<rparr>)))"

text \<open>One poll of \<open>connection_loop\<close>. The loop only ends with an error.\<close>

partial_function (option) connection_loop ::
  "('s, 'r, 'x, 'q) chat_env \<Rightarrow> ('s, 'r, 'x, 'q) chat_loop \<Rightarrow>
     (('s, 'r, 'x, 'q) chat_loop \<times> (chat_error + unit) poll) run" where
  "connection_loop env s =
     (case chat_turn env s of
        Inl s1 \<Rightarrow> connection_loop env s1
      | Inr result \<Rightarrow> ret result)"

lemma connection_loop_turn:
  "chat_turn env s = Inl s1 \<Longrightarrow> connection_loop env s = connection_loop env s1"
  "chat_turn env s = Inr result \<Longrightarrow> connection_loop env s = ret result"
  by (subst connection_loop.simps, simp)+

lemma connection_loop_induct [consumes 1, case_names stop turn]:
  assumes "connection_loop env s = Some y"
    and stop: "\<And>s result. chat_turn env s = Inr result \<Longrightarrow> P s (Ret result)"
    and turn: "\<And>s s1 y. chat_turn env s = Inl s1 \<Longrightarrow> P s1 y \<Longrightarrow> P s y"
  shows "P s y"
proof (rule connection_loop.raw_induct [where P = "\<lambda>env' s y. env' = env \<longrightarrow> P s y",
      OF _ assms(1), THEN mp, OF _ refl])
  fix loop env' s y
  assume "\<And>env' s y. loop env' s = Some y \<Longrightarrow> env' = env \<longrightarrow> P s y"
    and "(case chat_turn env' s of Inl s1 \<Rightarrow> loop env' s1 | Inr result \<Rightarrow> ret result) = Some y"
  then show "env' = env \<longrightarrow> P s y"
    by (cases "chat_turn env' s") (auto intro: stop turn)
qed

text \<open>
  What \<open>read_exact\<close> and \<open>write_all\<close> document, over a stream whose unread input is \<open>input\<close>: a read
  future holds the bytes it has taken so far, in order, and is done exactly when it holds as many
  as it was made for; a write does not touch the input.
\<close>

definition chat_laws ::
  "('s, 'r, 'x, 'q) chat_env \<Rightarrow> ('s \<Rightarrow> bytes) \<Rightarrow> ('r \<Rightarrow> bytes) \<Rightarrow> ('r \<Rightarrow> nat) \<Rightarrow> bool" where
  "chat_laws env input held need \<longleftrightarrow>
     (\<forall>n. held (ce_read_exact env n) = [] \<and> need (ce_read_exact env n) = n) \<and>
     (\<forall>r s r' s'. ce_read_poll env r s = (r', s', Pending) \<longrightarrow>
        held r' @ input s' = held r @ input s \<and> need r' = need r) \<and>
     (\<forall>r s r' s' bs. ce_read_poll env r s = (r', s', Ready (Inr bs)) \<longrightarrow>
        bs @ input s' = held r @ input s \<and> length bs = need r) \<and>
     (\<forall>x s x' s' p. ce_write_poll env x s = (x', s', p) \<longrightarrow> input s' = input s)"

lemma chat_lawsD:
  assumes "chat_laws env input held need"
  shows "held (ce_read_exact env n) = []" "need (ce_read_exact env n) = n"
    and "ce_read_poll env r s = (r', s', Pending) \<Longrightarrow>
      held r' @ input s' = held r @ input s \<and> need r' = need r"
    and "ce_read_poll env r s = (r', s', Ready (Inr bs)) \<Longrightarrow>
      bs @ input s' = held r @ input s \<and> length bs = need r"
    and "ce_write_poll env x s = (x', s', p) \<Longrightarrow> input s' = input s"
  using assms unfolding chat_laws_def by blast+

text \<open>The input that the loop has not delivered yet, as it is on the wire.\<close>

definition undelivered ::
  "('s \<Rightarrow> bytes) \<Rightarrow> ('r \<Rightarrow> bytes) \<Rightarrow> ('r \<Rightarrow> nat) \<Rightarrow> ('s, 'r, 'x, 'q) chat_loop \<Rightarrow> bytes" where
  "undelivered input held need s =
     (case cl_wait s of
        Selecting r \<Rightarrow> held r @ input (cl_stream s)
      | ReadingBody r \<Rightarrow> u32_to_be_bytes (of_nat (need r)) @ held r @ input (cl_stream s)
      | Writing x \<Rightarrow> input (cl_stream s))"

text \<open>The sizes that the futures were made for, and the channel for delivered messages is open.\<close>

definition chat_inv ::
  "('q \<Rightarrow> bool) \<Rightarrow> ('r \<Rightarrow> nat) \<Rightarrow> ('s, 'r, 'x, 'q) chat_loop \<Rightarrow> bool" where
  "chat_inv closed need s \<longleftrightarrow>
     (case cl_wait s of Selecting r \<Rightarrow> need r = 4 | ReadingBody r \<Rightarrow> need r < 2 ^ 32 | Writing x \<Rightarrow> True) \<and>
     \<not> closed (cl_inbound s)"

lemma frame_inj:
  assumes "frame m @ xs = frame n @ ys" and "length m < 2 ^ 32" and "length n < 2 ^ 32"
  shows "m = n \<and> xs = ys"
proof -
  have len: "unat (of_nat (length l) :: u32) = length l" if "length l < 2 ^ 32" for l :: bytes
    using that by (simp add: unat_of_nat)
  from assms(1) have "u32_to_be_bytes (of_nat (length m)) = u32_to_be_bytes (of_nat (length n))"
    and rest: "m @ xs = n @ ys"
    by (simp_all add: frame_def append_eq_append_conv)
  then have "(of_nat (length m) :: u32) = of_nat (length n)"
    by (metis u32_from_to_be_bytes)
  with assms(2,3) len have "length m = length n" by metis
  with rest show ?thesis by simp
qed

lemma frames_prefix:
  assumes "concat (map frame new) @ rest = concat (map frame msgs)"
    and "\<forall>m \<in> set new. length m < 2 ^ 32" and "\<forall>m \<in> set msgs. length m < 2 ^ 32"
  shows "new = take (length new) msgs \<and> rest = concat (map frame (drop (length new) msgs))"
  using assms
proof (induction new arbitrary: msgs)
  case (Cons m new)
  show ?case
  proof (cases msgs)
    case Nil
    with Cons.prems(1) show ?thesis by (simp add: frame_def u32_to_be_bytes_def)
  next
    case (Cons n msgs')
    with Cons.prems frame_inj [of m "concat (map frame new) @ rest" n "concat (map frame msgs')"]
    have "m = n" and "concat (map frame new) @ rest = concat (map frame msgs')" by auto
    with Cons.IH [of msgs'] Cons.prems(2,3) Cons show ?thesis by simp
  qed
qed simp

text \<open>One turn with nothing to send: what it delivers is what it takes off the wire.\<close>

definition chat_ok ::
  "('s, 'r, 'x, 'q) chat_env \<Rightarrow> ('s \<Rightarrow> bytes) \<Rightarrow> ('r \<Rightarrow> bytes) \<Rightarrow> ('r \<Rightarrow> nat) \<Rightarrow>
     ('q \<Rightarrow> bytes list) \<Rightarrow> ('q \<Rightarrow> bool) \<Rightarrow> ('s, 'r, 'x, 'q) chat_loop \<Rightarrow> bool" where
  "chat_ok env input held need contents closed s \<longleftrightarrow>
     chat_laws env input held need \<and> channel_laws (ce_channel env) contents closed \<and>
     chat_inv closed need s \<and> contents (cl_outbound s) = []"

lemma chat_turn_delivers:
  assumes "chat_ok env input held need contents closed s"
    and "(case chat_turn env s of Inl s1 \<Rightarrow> s' = s1 \<and> p = Pending | Inr r \<Rightarrow> r = (s', p))"
  shows "\<exists>new. contents (cl_inbound s') = contents (cl_inbound s) @ new \<and>
    (\<forall>m \<in> set new. length m < 2 ^ 32) \<and>
    (p = Pending \<longrightarrow> chat_ok env input held need contents closed s' \<and>
       concat (map frame new) @ undelivered input held need s' = undelivered input held need s) \<and>
    (p \<noteq> Pending \<longrightarrow> new = [])"
proof -
  from assms(1) have laws: "chat_laws env input held need" and chan: "channel_laws (ce_channel env) contents closed"
    and inv: "chat_inv closed need s" and empty: "contents (cl_outbound s) = []"
    by (simp_all add: chat_ok_def)
  from channel_lawsD(6) [OF chan empty] obtain q where
    q: "ch_poll_next (ce_channel env) (cl_outbound s) = (q, if closed (cl_outbound s) then Ready None else Pending)"
    "contents q = []" by blast
  show ?thesis
  proof (cases "cl_wait s")
    case (Selecting r)
    obtain r' st res where poll: "ce_read_poll env r (cl_stream s) = (r', st, res)" by (metis prod_cases3)
    show ?thesis
    proof (cases res rule: io_result_poll_cases)
      case pending
      with poll chat_lawsD(3) [OF laws] have "held r' @ input st = held r @ input (cl_stream s)"
        "need r' = need r" by blast+
      with assms(2) inv laws chan q poll pending Selecting show ?thesis
        by (auto simp: chat_turn_def chat_ok_def chat_inv_def undelivered_def split: if_splits)
    next
      case (error e)
      with assms(2) poll Selecting show ?thesis by (auto simp: chat_turn_def)
    next
      case (item bs)
      with poll chat_lawsD(4) [OF laws] have "bs @ input st = held r @ input (cl_stream s)"
        and "length bs = need r" by blast+
      moreover from inv Selecting have "need r = 4" by (simp add: chat_inv_def)
      moreover have "unat (u32_from_be_bytes bs) < 2 ^ 32"
        using unsigned_less [where ?'a = nat, of "u32_from_be_bytes bs"] by simp
      ultimately show ?thesis
        using assms(2) inv laws chan empty poll item Selecting
        by (auto simp: chat_turn_def chat_ok_def chat_inv_def undelivered_def Let_def
            chat_lawsD(1,2) [OF laws] u32_to_from_be_bytes)
    qed
  next
    case (ReadingBody r)
    obtain r' st res where poll: "ce_read_poll env r (cl_stream s) = (r', st, res)" by (metis prod_cases3)
    show ?thesis
    proof (cases res rule: io_result_poll_cases)
      case pending
      with poll chat_lawsD(3) [OF laws] have "held r' @ input st = held r @ input (cl_stream s)"
        "need r' = need r" by blast+
      with assms(2) inv laws chan empty poll pending ReadingBody show ?thesis
        by (auto simp: chat_turn_def chat_ok_def chat_inv_def undelivered_def)
    next
      case (error e)
      with assms(2) poll ReadingBody show ?thesis by (auto simp: chat_turn_def)
    next
      case (item bs)
      with poll chat_lawsD(4) [OF laws] have "bs @ input st = held r @ input (cl_stream s)"
        and "length bs = need r" by blast+
      moreover from inv have "\<not> closed (cl_inbound s)" by (simp add: chat_inv_def)
      from channel_lawsD(3) [OF chan this, of bs] obtain q' where
        "ch_try_send (ce_channel env) bs (cl_inbound s) = (q', Inr ())"
        and "contents q' = contents (cl_inbound s) @ [bs]" and "\<not> closed q'" by blast
      moreover from inv ReadingBody have "need r < 2 ^ 32" by (simp add: chat_inv_def)
      ultimately show ?thesis
        using assms(2) laws chan empty poll item ReadingBody
        by (auto simp: chat_turn_def chat_ok_def chat_inv_def undelivered_def frame_def
            chat_lawsD(1,2) [OF laws] intro!: exI [of _ "[bs]"])
    qed
  next
    case (Writing x)
    obtain x' st res where poll: "ce_write_poll env x (cl_stream s) = (x', st, res)" by (metis prod_cases3)
    with chat_lawsD(5) [OF laws] have "input st = input (cl_stream s)" by blast
    with assms(2) inv laws chan empty poll Writing show ?thesis
      by (cases res rule: io_result_poll_cases)
         (auto simp: chat_turn_def chat_ok_def chat_inv_def undelivered_def chat_lawsD(1,2) [OF laws])
  qed
qed

text \<open>
  The writing side. \<open>output\<close> is what has been written to a stream and \<open>left\<close> what a write future has
  still to write: a read does not touch the output, and a write is done when nothing is left.
\<close>

definition chat_write_laws ::
  "('s, 'r, 'x, 'q) chat_env \<Rightarrow> ('s \<Rightarrow> bytes) \<Rightarrow> ('x \<Rightarrow> bytes) \<Rightarrow> bool" where
  "chat_write_laws env output left \<longleftrightarrow>
     (\<forall>bs. left (ce_write_all env bs) = bs) \<and>
     (\<forall>x s x' s'. ce_write_poll env x s = (x', s', Pending) \<longrightarrow> output s' @ left x' = output s @ left x) \<and>
     (\<forall>x s x' s'. ce_write_poll env x s = (x', s', Ready (Inr ())) \<longrightarrow> output s' = output s @ left x) \<and>
     (\<forall>r s r' s' p. ce_read_poll env r s = (r', s', p) \<longrightarrow> output s' = output s)"

lemma chat_write_lawsD:
  assumes "chat_write_laws env output left"
  shows "left (ce_write_all env bs) = bs"
    and "ce_write_poll env x s = (x', s', Pending) \<Longrightarrow> output s' @ left x' = output s @ left x"
    and "ce_write_poll env x s = (x', s', Ready (Inr ())) \<Longrightarrow> output s' = output s @ left x"
    and "ce_read_poll env r s = (r', s', q) \<Longrightarrow> output s' = output s"
  using assms unfolding chat_write_laws_def by blast+

text \<open>What a connection has been given to send: written, being written, or still queued.\<close>

definition to_send ::
  "('s \<Rightarrow> bytes) \<Rightarrow> ('x \<Rightarrow> bytes) \<Rightarrow> ('q \<Rightarrow> bytes list) \<Rightarrow> ('s, 'r, 'x, 'q) chat_loop \<Rightarrow> bytes" where
  "to_send output left contents s =
     output (cl_stream s) @ (case cl_wait s of Writing x \<Rightarrow> left x | _ \<Rightarrow> []) @
     concat (map frame (contents (cl_outbound s)))"

lemma chat_turn_to_send:
  assumes wlaws: "chat_write_laws env output left" and chan: "channel_laws (ce_channel env) contents closed"
    and "(case chat_turn env s of Inl s1 \<Rightarrow> s' = s1 | Inr r \<Rightarrow> r = (s', Pending))"
  shows "to_send output left contents s' = to_send output left contents s"
    and "closed (cl_outbound s') = closed (cl_outbound s)"
proof -
  obtain q p where q: "ch_poll_next (ce_channel env) (cl_outbound s) = (q, p)" by fastforce
  have "contents q = tl (contents (cl_outbound s))" and closed: "closed q = closed (cl_outbound s)"
    and ready: "\<And>m. p = Ready (Some m) \<Longrightarrow> contents (cl_outbound s) = m # contents q"
    and pending: "p = Pending \<Longrightarrow> contents (cl_outbound s) = [] \<and> contents q = []"
    using q channel_poll_queue [OF chan, of "cl_outbound s"] channel_lawsD(5,6) [OF chan, of "cl_outbound s"]
    by (cases "contents (cl_outbound s)"; force split: if_splits)+
  note read = chat_write_lawsD(4) [OF wlaws] and wr = chat_write_lawsD(2,3) [OF wlaws]
    and all = chat_write_lawsD(1) [OF wlaws]
  have "to_send output left contents s' = to_send output left contents s \<and>
    closed (cl_outbound s') = closed (cl_outbound s)"
  proof (cases "cl_wait s")
    case (Selecting r)
    obtain r' st res where poll: "ce_read_poll env r (cl_stream s) = (r', st, res)" by (metis prod_cases3)
    from read [OF poll] assms(3) Selecting poll q closed ready pending all show ?thesis
      by (cases res rule: io_result_poll_cases; cases p)
         (auto simp: chat_turn_def to_send_def Let_def split: option.splits)
  next
    case (ReadingBody r)
    obtain r' st res where poll: "ce_read_poll env r (cl_stream s) = (r', st, res)" by (metis prod_cases3)
    from read [OF poll] assms(3) ReadingBody poll show ?thesis
      by (cases res rule: io_result_poll_cases)
         (auto simp: chat_turn_def to_send_def split: prod.splits sum.splits)
  next
    case (Writing x)
    obtain x' st res where poll: "ce_write_poll env x (cl_stream s) = (x', st, res)" by (metis prod_cases3)
    from wr [of x "cl_stream s" x' st] assms(3) Writing poll show ?thesis
      by (cases res rule: io_result_poll_cases) (auto simp: chat_turn_def to_send_def)
  qed
  then show "to_send output left contents s' = to_send output left contents s"
    and "closed (cl_outbound s') = closed (cl_outbound s)" by simp_all
qed

lemma connection_loop_to_send:
  assumes "connection_loop env s = ret (s', Pending)"
    and "chat_write_laws env output left" and "channel_laws (ce_channel env) contents closed"
  shows "to_send output left contents s' = to_send output left contents s"
    and "closed (cl_outbound s') = closed (cl_outbound s)"
proof -
  have "to_send output left contents s' = to_send output left contents s \<and>
      closed (cl_outbound s') = closed (cl_outbound s)"
    if "connection_loop env s = Some y" "y = Ret (s', Pending)" for y s
    using that
  proof (induction rule: connection_loop_induct)
    case (stop s result)
    with chat_turn_to_send [OF assms(2,3), where s = s and s' = s'] show ?case by simp
  next
    case (turn s s1 y)
    with chat_turn_to_send [OF assms(2,3), where s = s and s' = s1] show ?case by simp
  qed
  from this [OF assms(1) refl] show "to_send output left contents s' = to_send output left contents s"
    and "closed (cl_outbound s') = closed (cl_outbound s)" by blast+
qed

text \<open>A poll of the loop does not close the channel of what it received, nor take anything from it.\<close>

lemma chat_turn_inbound:
  assumes chan: "channel_laws (ce_channel env) contents closed"
    and "(case chat_turn env s of Inl s1 \<Rightarrow> s' = s1 | Inr r \<Rightarrow> fst r = s')"
  shows "closed (cl_inbound s') = closed (cl_inbound s)"
    and "\<exists>new. contents (cl_inbound s') = contents (cl_inbound s) @ new"
proof -
  have sent: "closed q = closed (cl_inbound s) \<and> (\<exists>new. contents q = contents (cl_inbound s) @ new)"
    if "ch_try_send (ce_channel env) m (cl_inbound s) = (q, res)" for m q res
    using that channel_lawsD(3,4) [OF chan, of "cl_inbound s" m] by (cases "closed (cl_inbound s)") force+
  have "cl_inbound s' = cl_inbound s \<or>
      (\<exists>m res. ch_try_send (ce_channel env) m (cl_inbound s) = (cl_inbound s', res))"
    using assms(2)
    by (auto simp: chat_turn_def Let_def split: chat_wait.splits prod.splits poll.splits sum.splits option.splits)
  with sent show "closed (cl_inbound s') = closed (cl_inbound s)"
    and "\<exists>new. contents (cl_inbound s') = contents (cl_inbound s) @ new" by (metis append_Nil2)+
qed

lemma connection_loop_inbound:
  assumes "connection_loop env s = ret (s', p)" and "channel_laws (ce_channel env) contents closed"
  shows "closed (cl_inbound s') = closed (cl_inbound s)"
    and "\<exists>new. contents (cl_inbound s') = contents (cl_inbound s) @ new"
proof -
  have "closed (cl_inbound s') = closed (cl_inbound s) \<and>
      (\<exists>new. contents (cl_inbound s') = contents (cl_inbound s) @ new)"
    if "connection_loop env s = Some y" "y = Ret (s', p)" for y s
    using that
  proof (induction rule: connection_loop_induct)
    case (stop s result)
    with chat_turn_inbound [OF assms(2), where s = s and s' = s'] show ?case by simp
  next
    case (turn s s1 y)
    with chat_turn_inbound [OF assms(2), where s = s and s' = s1] show ?case by force
  qed
  from this [OF assms(1) refl] show "closed (cl_inbound s') = closed (cl_inbound s)"
    and "\<exists>new. contents (cl_inbound s') = contents (cl_inbound s) @ new" by blast+
qed

text \<open>
  A scripted stream for examples: the pieces in which the input arrives. A read takes what it can
  from the first piece and then waits for the next; a write is done at once.
\<close>

definition chat_script :: "(bytes list, nat \<times> bytes, bytes, bytes list \<times> bool) chat_env" where
  "chat_script =
     \<lparr>ce_read_exact = (\<lambda>n. (n, [])),
      ce_read_poll = (\<lambda>(n, h) s. case s of
          [] \<Rightarrow> if length h = n then ((n, h), [], Ready (Inr h)) else ((n, h), [], Pending)
        | c # cs \<Rightarrow>
            let k = n - length h; h' = h @ take k c; s' = (if drop k c = [] then cs else drop k c # cs) in
            if length h' = n then ((n, h'), s', Ready (Inr h')) else ((n, h'), s', Pending)),
      ce_write_all = (\<lambda>bs. bs),
      ce_write_poll = (\<lambda>x s. (x, s, Ready (Inr ()))),
      ce_channel = list_channel\<rparr>"

lemma chat_script_simps [simp]:
  "ce_read_exact chat_script n = (n, [])"
  "ce_read_poll chat_script (n, h) [] =
     (if length h = n then ((n, h), [], Ready (Inr h)) else ((n, h), [], Pending))"
  "ce_read_poll chat_script (n, h) (c # cs) =
     (let k = n - length h; h' = h @ take k c; s' = (if drop k c = [] then cs else drop k c # cs) in
      if length h' = n then ((n, h'), s', Ready (Inr h')) else ((n, h'), s', Pending))"
  "ce_write_all chat_script bs = bs"
  "ce_write_poll chat_script x s = (x, s, Ready (Inr ()))"
  "ce_channel chat_script = list_channel"
  by (simp_all add: chat_script_def)

lemma chat_script_laws: "chat_laws chat_script concat snd fst"
proof -
  have taken: "take k c @ concat (if drop k c = [] then cs else drop k c # cs) = concat (c # cs)"
    for k and c :: bytes and cs
    by (cases "drop k c = []") (simp, simp add: append_assoc [symmetric] del: append_assoc)
  have read: "snd r' @ concat s' = snd r @ concat s \<and> fst r' = fst r \<and>
      (\<forall>bs. p = Ready (Inr bs) \<longrightarrow> bs = snd r' \<and> length bs = fst r)"
    if "ce_read_poll chat_script r s = (r', s', p)" for r s r' s' p
  proof (cases s)
    case Nil
    with that show ?thesis by (cases r) (auto split: if_splits)
  next
    case (Cons c cs)
    with that taken [of "fst r - length (snd r)" c cs] show ?thesis
      by (cases r) (auto simp: Let_def simp del: concat.simps split: if_splits)
  qed
  then show ?thesis
    unfolding chat_laws_def by (auto, (metis fst_conv snd_conv)+)
qed

text \<open>
  Messages may be sent in between when the stream never hands over a part of a length: then the read
  that the \<open>select\<close> drops holds nothing, whatever is sent and whenever.
\<close>

definition lengths_whole ::
  "('s, 'r, 'x, 'q) chat_env \<Rightarrow> ('r \<Rightarrow> bytes) \<Rightarrow> ('r \<Rightarrow> nat) \<Rightarrow> bool" where
  "lengths_whole env held need \<longleftrightarrow>
     (\<forall>r s r' s'. ce_read_poll env r s = (r', s', Pending) \<longrightarrow> need r = 4 \<longrightarrow> held r = [] \<longrightarrow> held r' = [])"

definition unsplit ::
  "('r \<Rightarrow> bytes) \<Rightarrow> ('r \<Rightarrow> nat) \<Rightarrow> ('q \<Rightarrow> bool) \<Rightarrow> ('s, 'r, 'x, 'q) chat_loop \<Rightarrow> bool" where
  "unsplit held need closed s \<longleftrightarrow>
     chat_inv closed need s \<and> (case cl_wait s of Selecting r \<Rightarrow> held r = [] | _ \<Rightarrow> True)"

lemma chat_turn_unsplit:
  assumes laws: "chat_laws env input held need" and chan: "channel_laws (ce_channel env) contents closed"
    and lengths: "lengths_whole env held need" and un: "unsplit held need closed s"
    and "(case chat_turn env s of Inl s1 \<Rightarrow> s' = s1 \<and> p = Pending | Inr r \<Rightarrow> r = (s', p))"
  shows "\<exists>new. contents (cl_inbound s') = contents (cl_inbound s) @ new \<and> (\<forall>m \<in> set new. length m < 2 ^ 32) \<and>
    (p = Pending \<longrightarrow> unsplit held need closed s' \<and>
       concat (map frame new) @ undelivered input held need s' = undelivered input held need s) \<and>
    (p \<noteq> Pending \<longrightarrow> new = [])"
proof (cases "cl_wait s")
  case (Selecting r)
  obtain r' st res where poll: "ce_read_poll env r (cl_stream s) = (r', st, res)" by (metis prod_cases3)
  from un Selecting have four: "need r = 4" and empty: "held r = []" by (simp_all add: unsplit_def chat_inv_def)
  show ?thesis
  proof (cases res rule: io_result_poll_cases)
    case pending
    with poll chat_lawsD(3) [OF laws] empty have "held r' @ input st = input (cl_stream s)" "need r' = 4"
      using four by fastforce+
    moreover from this lengths poll pending four empty have "held r' = []" unfolding lengths_whole_def by blast
    ultimately show ?thesis
      using assms(5) un poll pending Selecting empty chat_lawsD(1) [OF laws]
      by (auto simp: chat_turn_def unsplit_def chat_inv_def undelivered_def split: prod.splits poll.splits option.splits)
  next
    case (item bs)
    with poll chat_lawsD(4) [OF laws] four empty have "bs @ input st = input (cl_stream s)" "length bs = 4"
      by fastforce+
    moreover have "unat (u32_from_be_bytes bs) < 2 ^ 32"
      using unsigned_less [where ?'a = nat, of "u32_from_be_bytes bs"] by simp
    ultimately show ?thesis
      using assms(5) un poll item Selecting empty
      by (auto simp: chat_turn_def unsplit_def chat_inv_def undelivered_def Let_def
          chat_lawsD(1,2) [OF laws] u32_to_from_be_bytes)
  qed (use assms(5) poll Selecting in \<open>auto simp: chat_turn_def\<close>)
next
  case (ReadingBody r)
  obtain r' st res where poll: "ce_read_poll env r (cl_stream s) = (r', st, res)" by (metis prod_cases3)
  from un ReadingBody have few: "need r < 2 ^ 32" "\<not> closed (cl_inbound s)" by (simp_all add: unsplit_def chat_inv_def)
  show ?thesis
  proof (cases res rule: io_result_poll_cases)
    case pending
    with poll chat_lawsD(3) [OF laws] have "held r' @ input st = held r @ input (cl_stream s)" "need r' = need r"
      by blast+
    with assms(5) un poll pending ReadingBody show ?thesis
      by (auto simp: chat_turn_def unsplit_def chat_inv_def undelivered_def)
  next
    case (item bs)
    with poll chat_lawsD(4) [OF laws] have "bs @ input st = held r @ input (cl_stream s)" "length bs = need r" by blast+
    moreover from channel_lawsD(3) [OF chan few(2), of bs] obtain q' where
      "ch_try_send (ce_channel env) bs (cl_inbound s) = (q', Inr ())"
      "contents q' = contents (cl_inbound s) @ [bs]" "\<not> closed q'" by blast
    ultimately show ?thesis
      using assms(5) few poll item ReadingBody
      by (auto simp: chat_turn_def unsplit_def chat_inv_def undelivered_def frame_def
          chat_lawsD(1,2) [OF laws] intro!: exI [of _ "[bs]"])
  qed (use assms(5) poll ReadingBody in \<open>auto simp: chat_turn_def\<close>)
next
  case (Writing x)
  obtain x' st res where poll: "ce_write_poll env x (cl_stream s) = (x', st, res)" by (metis prod_cases3)
  with chat_lawsD(5) [OF laws] have "input st = input (cl_stream s)" by blast
  with assms(5) un poll Writing show ?thesis
    by (cases res rule: io_result_poll_cases)
       (auto simp: chat_turn_def unsplit_def chat_inv_def undelivered_def chat_lawsD(1,2) [OF laws])
qed

text \<open>
  A poll always ends: a read that is done takes the four bytes of a length off the input, a message
  that is sent leaves the queue, and every second turn goes back to the \<open>select\<close>.
\<close>

definition chat_sizes :: "('r \<Rightarrow> nat) \<Rightarrow> ('s, 'r, 'x, 'q) chat_loop \<Rightarrow> bool" where
  "chat_sizes need s \<longleftrightarrow> (case cl_wait s of Selecting r \<Rightarrow> need r = 4 | _ \<Rightarrow> True)"

definition chat_work ::
  "('s \<Rightarrow> bytes) \<Rightarrow> ('r \<Rightarrow> bytes) \<Rightarrow> ('q \<Rightarrow> bytes list) \<Rightarrow> ('s, 'r, 'x, 'q) chat_loop \<Rightarrow> nat" where
  "chat_work input held contents s =
     2 * (length (input (cl_stream s)) + length (contents (cl_outbound s))) +
     (case cl_wait s of
        Selecting r \<Rightarrow> 2 * length (held r)
      | ReadingBody r \<Rightarrow> 2 * length (held r) + 1
      | Writing x \<Rightarrow> 1)"

lemma chat_turn_work:
  assumes laws: "chat_laws env input held need" and chan: "channel_laws (ce_channel env) contents closed"
    and "chat_sizes need s" and "chat_turn env s = Inl s1"
  shows "chat_sizes need s1 \<and> chat_work input held contents s1 < chat_work input held contents s"
proof (cases "cl_wait s")
  case (Selecting r)
  obtain r' st res where poll: "ce_read_poll env r (cl_stream s) = (r', st, res)" by (metis prod_cases3)
  show ?thesis
  proof (cases res rule: io_result_poll_cases)
    case pending
    with poll chat_lawsD(3) [OF laws] have "held r' @ input st = held r @ input (cl_stream s)" by blast
    then have "length (held r') + length (input st) = length (held r) + length (input (cl_stream s))"
      by (metis length_append)
    moreover obtain q p where q: "ch_poll_next (ce_channel env) (cl_outbound s) = (q, p)" by fastforce
    moreover have "contents (cl_outbound s) = m # contents q" if "p = Ready (Some m)" for m
      using q that channel_lawsD(5,6) [OF chan, of "cl_outbound s"]
      by (cases "contents (cl_outbound s)"; force split: if_splits)
    ultimately show ?thesis
      using assms(4) poll pending Selecting
      by (cases p) (auto simp: chat_turn_def chat_sizes_def chat_work_def split: option.splits)
  next
    case (item bs)
    with poll chat_lawsD(4) [OF laws] have "bs @ input st = held r @ input (cl_stream s)" "length bs = need r"
      by blast+
    moreover from assms(3) Selecting have "need r = 4" by (simp add: chat_sizes_def)
    ultimately have "4 + length (input st) = length (held r) + length (input (cl_stream s))"
      by (metis length_append)
    with assms(4) poll item Selecting show ?thesis
      by (auto simp: chat_turn_def chat_sizes_def chat_work_def Let_def chat_lawsD(1) [OF laws])
  qed (use assms(4) poll Selecting in \<open>auto simp: chat_turn_def\<close>)
next
  case (ReadingBody r)
  obtain r' st res where poll: "ce_read_poll env r (cl_stream s) = (r', st, res)" by (metis prod_cases3)
  show ?thesis
  proof (cases res rule: io_result_poll_cases)
    case (item bs)
    with poll chat_lawsD(4) [OF laws] have "bs @ input st = held r @ input (cl_stream s)" by blast
    then have "length (input st) \<le> length (held r) + length (input (cl_stream s))"
      by (metis length_append le_add2)
    with assms(4) poll item ReadingBody show ?thesis
      by (auto simp: chat_turn_def chat_sizes_def chat_work_def chat_lawsD(1,2) [OF laws] split: prod.splits sum.splits)
  qed (use assms(4) poll ReadingBody in \<open>auto simp: chat_turn_def\<close>)
next
  case (Writing x)
  obtain x' st res where poll: "ce_write_poll env x (cl_stream s) = (x', st, res)" by (metis prod_cases3)
  with assms(4) Writing chat_lawsD(5) [OF laws poll] show ?thesis
    by (auto simp: chat_turn_def chat_sizes_def chat_work_def chat_lawsD(1,2) [OF laws]
        split: poll.splits sum.splits)
qed

lemma connection_loop_returns:
  assumes "chat_laws env input held need" and "channel_laws (ce_channel env) contents closed"
    and "chat_sizes need s"
  shows "\<exists>s' p. connection_loop env s = ret (s', p)"
  using assms(3)
proof (induction s rule: measure_induct_rule [of "chat_work input held contents"])
  case (less s)
  show ?case
  proof (cases "chat_turn env s")
    case (Inl s1)
    with chat_turn_work [OF assms(1,2) less.prems] less.IH show ?thesis by (simp add: connection_loop_turn)
  next
    case (Inr result)
    then show ?thesis by (cases result) (simp add: connection_loop_turn)
  qed
qed

lemma chat_ok_sizes: "chat_ok env input held need contents closed s \<Longrightarrow> chat_sizes need s"
  by (simp add: chat_ok_def chat_inv_def chat_sizes_def split: chat_wait.splits)

text \<open>
  When the stream gives a read everything that has arrived, the loop stops only where no whole frame is
  left: \<open>input\<close> is what has arrived, and a read that does not get its bytes found too few of them.
\<close>

definition reads_arrived ::
  "('s, 'r, 'x, 'q) chat_env \<Rightarrow> ('s \<Rightarrow> bytes) \<Rightarrow> ('r \<Rightarrow> bytes) \<Rightarrow> ('r \<Rightarrow> nat) \<Rightarrow> bool" where
  "reads_arrived env input held need \<longleftrightarrow>
     (\<forall>r s r' s' p. ce_read_poll env r s = (r', s', p) \<longrightarrow>
        (\<exists>bs. p = Ready (Inr bs)) \<or> length (held r @ input s) < need r)"

definition reading :: "('s, 'r, 'x, 'q) chat_loop \<Rightarrow> bool" where
  "reading s \<longleftrightarrow> (\<forall>x. cl_wait s \<noteq> Writing x)"

text \<open>With nothing to send the loop never starts a write.\<close>

lemma chat_turn_quiet:
  assumes "channel_laws (ce_channel env) contents closed" and "contents (cl_outbound s) = []"
    and "(case chat_turn env s of Inl s1 \<Rightarrow> s' = s1 | Inr r \<Rightarrow> fst r = s')"
  shows "contents (cl_outbound s') = [] \<and> (reading s \<longrightarrow> reading s')"
proof -
  from channel_lawsD(6) [OF assms(1,2)] obtain q where
    "ch_poll_next (ce_channel env) (cl_outbound s) = (q, if closed (cl_outbound s) then Ready None else Pending)"
    and "contents q = []" by blast
  with assms(2,3) show ?thesis
    by (auto simp: chat_turn_def reading_def Let_def
        split: chat_wait.splits prod.splits poll.splits sum.splits if_splits)
qed

lemma connection_loop_quiet:
  assumes "connection_loop env s = Some y" and "y = Ret (s', p)"
    and "channel_laws (ce_channel env) contents closed" and "contents (cl_outbound s) = []"
  shows "contents (cl_outbound s') = [] \<and> (reading s \<longrightarrow> reading s')"
  using assms
proof (induction rule: connection_loop_induct)
  case (stop s result)
  with chat_turn_quiet [OF stop(3,4), of s'] show ?case by auto
next
  case (turn s s1 y)
  with chat_turn_quiet [OF turn(4,5), of s1] show ?case by auto
qed

lemma chat_turn_stops:
  assumes "channel_laws (ce_channel env) contents closed" and "chat_inv closed need s"
    and "reads_arrived env input held need"
    and "chat_turn env s = Inr (s', p)" and "reading s'"
    and "undelivered input held need s @ wire = frame m @ rest" and "length m < 2 ^ 32"
  shows "length (undelivered input held need s) < length (frame m)"
proof (cases "cl_wait s")
  case (Selecting r)
  obtain r' st res where poll: "ce_read_poll env r (cl_stream s) = (r', st, res)" by (metis prod_cases3)
  with assms(4) Selecting have "\<nexists>bs. res = Ready (Inr bs)" by (auto simp: chat_turn_def Let_def)
  with poll assms(3) have "length (held r @ input (cl_stream s)) < need r" unfolding reads_arrived_def by blast
  with assms(2) Selecting show ?thesis by (simp add: chat_inv_def undelivered_def frame_def)
next
  case (ReadingBody r)
  obtain r' st res where poll: "ce_read_poll env r (cl_stream s) = (r', st, res)" by (metis prod_cases3)
  from assms(2) have "\<not> closed (cl_inbound s)" by (simp add: chat_inv_def)
  note open_inbound = channel_lawsD(3) [OF assms(1) this]
  have "\<nexists>bs. res = Ready (Inr bs)"
  proof
    assume "\<exists>bs. res = Ready (Inr bs)"
    then obtain bs where bs: "res = Ready (Inr bs)" by blast
    from open_inbound [of bs] obtain q where "ch_try_send (ce_channel env) bs (cl_inbound s) = (q, Inr ())" by blast
    with assms(4) ReadingBody poll bs show False by (simp add: chat_turn_def)
  qed
  with poll assms(3) have few: "length (held r @ input (cl_stream s)) < need r" unfolding reads_arrived_def by blast
  from assms(2) ReadingBody have "need r < 2 ^ 32" by (simp add: chat_inv_def)
  from assms(6) ReadingBody have "u32_to_be_bytes (of_nat (need r)) = u32_to_be_bytes (of_nat (length m))"
    by (auto simp: undelivered_def frame_def append_eq_append_conv)
  then have "(of_nat (need r) :: u32) = of_nat (length m)" by (metis u32_from_to_be_bytes)
  then have "unat (of_nat (need r) :: u32) = unat (of_nat (length m) :: u32)" by simp
  with \<open>need r < 2 ^ 32\<close> assms(7) have "need r = length m" by (simp add: unat_of_nat)
  with few ReadingBody show ?thesis by (simp add: undelivered_def frame_def)
next
  case (Writing x)
  with assms(4,5) show ?thesis
    by (auto simp: chat_turn_def reading_def split: prod.splits poll.splits sum.splits)
qed

lemma frames_mono: "k \<le> n \<Longrightarrow> length (concat (map frame (take k msgs))) \<le> length (concat (map frame (take n msgs)))"
proof -
  assume "k \<le> n"
  then have "take n msgs = take k msgs @ take (n - k) (drop k msgs)" by (metis le_add_diff_inverse take_add)
  then show ?thesis by simp
qed

lemma frames_after:
  assumes "got = take (length got) msgs" and "k \<le> length msgs" and "\<not> k \<le> length got"
    and "length (concat (map frame (take k msgs))) \<le> length (concat (map frame got) @ u)"
  shows "k - length got \<le> length (drop (length got) msgs)"
    and "length (concat (map frame (take (k - length got) (drop (length got) msgs)))) \<le> length u"
proof -
  have "take k msgs = got @ take (k - length got) (drop (length got) msgs)"
    using assms(1,3) by (metis le_add_diff_inverse nat_le_linear take_add)
  with assms(4) show "length (concat (map frame (take (k - length got) (drop (length got) msgs)))) \<le> length u"
    by simp
qed (use assms(2) in simp)

text \<open>
  The states from which no byte is lost: nothing to send, or a stream that keeps lengths whole. In one
  of these, a poll of the loop delivers messages that are next on the wire and have arrived whole;
  and when the stream gives all that has arrived, every one of them unless it stops in a write.
\<close>

definition chat_safe ::
  "('s, 'r, 'x, 'q) chat_env \<Rightarrow> ('s \<Rightarrow> bytes) \<Rightarrow> ('r \<Rightarrow> bytes) \<Rightarrow> ('r \<Rightarrow> nat) \<Rightarrow>
     ('q \<Rightarrow> bytes list) \<Rightarrow> ('q \<Rightarrow> bool) \<Rightarrow> ('s, 'r, 'x, 'q) chat_loop \<Rightarrow> bool" where
  "chat_safe env input held need contents closed s \<longleftrightarrow>
     chat_laws env input held need \<and> channel_laws (ce_channel env) contents closed \<and>
     chat_inv closed need s \<and>
     (contents (cl_outbound s) = [] \<or> lengths_whole env held need \<and> unsplit held need closed s)"

lemma chat_safeD:
  assumes "chat_safe env input held need contents closed s"
  shows "chat_laws env input held need" "channel_laws (ce_channel env) contents closed" "chat_inv closed need s"
  using assms by (simp_all add: chat_safe_def)

lemma chat_ok_safe:
  "chat_ok env input held need contents closed s \<longleftrightarrow>
     chat_safe env input held need contents closed s \<and> contents (cl_outbound s) = []"
  by (auto simp: chat_ok_def chat_safe_def)

lemma chat_safe_sizes: "chat_safe env input held need contents closed s \<Longrightarrow> chat_sizes need s"
  by (simp add: chat_safe_def chat_inv_def chat_sizes_def split: chat_wait.splits)

lemma chat_turn_safe:
  assumes "chat_safe env input held need contents closed s"
    and "(case chat_turn env s of Inl s1 \<Rightarrow> s' = s1 \<and> p = Pending | Inr r \<Rightarrow> r = (s', p))"
  shows "\<exists>new. contents (cl_inbound s') = contents (cl_inbound s) @ new \<and> (\<forall>m \<in> set new. length m < 2 ^ 32) \<and>
    (p = Pending \<longrightarrow> chat_safe env input held need contents closed s' \<and>
       concat (map frame new) @ undelivered input held need s' = undelivered input held need s) \<and>
    (p \<noteq> Pending \<longrightarrow> new = [])"
proof (cases "contents (cl_outbound s) = []")
  case True
  with assms(1) have "chat_ok env input held need contents closed s" by (simp add: chat_ok_safe)
  from chat_turn_delivers [OF this assms(2)] show ?thesis by (auto simp: chat_ok_safe)
next
  case False
  with assms(1) have un: "lengths_whole env held need" "unsplit held need closed s" by (simp_all add: chat_safe_def)
  from chat_turn_unsplit [OF chat_safeD(1,2) [OF assms(1)] un assms(2)] un(1) chat_safeD(1,2) [OF assms(1)]
  show ?thesis by (auto simp: chat_safe_def unsplit_def)
qed

lemma connection_loop_delivers:
  assumes "connection_loop env s = Some y" "y = Ret (s', p)" "chat_safe env input held need contents closed s"
    and "undelivered input held need s @ wire = concat (map frame msgs)" "\<forall>m \<in> set msgs. length m < 2 ^ 32"
  shows "\<exists>n \<le> length msgs. contents (cl_inbound s') = contents (cl_inbound s) @ take n msgs \<and>
    length (concat (map frame (take n msgs))) \<le> length (undelivered input held need s) \<and>
    (reads_arrived env input held need \<and> reading s' \<longrightarrow> (\<forall>k \<le> length msgs.
       length (concat (map frame (take k msgs))) \<le> length (undelivered input held need s) \<longrightarrow> k \<le> n)) \<and>
    (p = Pending \<longrightarrow> chat_safe env input held need contents closed s' \<and>
       undelivered input held need s' @ wire = concat (map frame (drop n msgs)))"
  using assms
proof (induction arbitrary: msgs rule: connection_loop_induct)
  case (stop s result)
  then have result: "chat_turn env s = Inr (s', p)" by simp
  have none: "k = 0" if "reads_arrived env input held need" "reading s'" "k \<le> length msgs"
    "length (concat (map frame (take k msgs))) \<le> length (undelivered input held need s)" for k
  proof (cases "take k msgs")
    case (Cons m ms)
    then obtain ms' where "msgs = m # ms'" by (cases msgs; cases k) auto
    with chat_turn_stops [OF chat_safeD(2,3) [OF stop(3)] that(1) result that(2),
        of wire m "concat (map frame ms')"] stop(4,5)
    have "length (undelivered input held need s) < length (frame m)" by simp
    with that(4) Cons show ?thesis by simp
  qed (use that(3) in auto)
  from chat_turn_safe [OF stop(3), of s' p] result obtain new where new:
    "contents (cl_inbound s') = contents (cl_inbound s) @ new" "\<forall>m \<in> set new. length m < 2 ^ 32"
    "p = Pending \<longrightarrow> chat_safe env input held need contents closed s' \<and>
      concat (map frame new) @ undelivered input held need s' = undelivered input held need s"
    "p \<noteq> Pending \<longrightarrow> new = []" by auto
  show ?case
  proof (cases "p = Pending")
    case True
    with new(3) have all: "concat (map frame new) @ undelivered input held need s' = undelivered input held need s" by simp
    with stop(4) have "concat (map frame new) @ undelivered input held need s' @ wire = concat (map frame msgs)"
      by (metis append_assoc)
    from frames_prefix [OF this new(2) stop(5)] have prefix: "take (length new) msgs = new"
      and rest: "undelivered input held need s' @ wire = concat (map frame (drop (length new) msgs))" by auto
    from prefix have "length new \<le> length msgs" by (metis length_take min.cobounded1)
    moreover have "length (concat (map frame new)) \<le> length (undelivered input held need s)"
      by (simp flip: all)
    ultimately show ?thesis using new(1,3) True none rest prefix by (intro exI [of _ "length new"]) auto
  next
    case False
    with new(1,4) none show ?thesis by (intro exI [of _ 0]) auto
  qed
next
  case (turn s s1 y)
  from chat_turn_safe [OF turn(4), of s1 Pending] turn(1) obtain new where new:
    "contents (cl_inbound s1) = contents (cl_inbound s) @ new" "\<forall>m \<in> set new. length m < 2 ^ 32"
    "chat_safe env input held need contents closed s1"
    "concat (map frame new) @ undelivered input held need s1 = undelivered input held need s" by auto
  from new(4) turn(5) have "concat (map frame new) @ undelivered input held need s1 @ wire = concat (map frame msgs)"
    by (metis append_assoc)
  from frames_prefix [OF this new(2) turn(6)]
  have prefix: "new = take (length new) msgs"
    and rest: "undelivered input held need s1 @ wire = concat (map frame (drop (length new) msgs))" by auto
  have "\<forall>m \<in> set (drop (length new) msgs). length m < 2 ^ 32"
    using turn(6) by (meson in_set_dropD)
  from turn(2) [OF turn(3) new(3) rest this] obtain n where
    n: "n \<le> length (drop (length new) msgs)"
      "contents (cl_inbound s') = contents (cl_inbound s1) @ take n (drop (length new) msgs)"
      "length (concat (map frame (take n (drop (length new) msgs)))) \<le> length (undelivered input held need s1)"
    and arrived: "\<And>k. reads_arrived env input held need \<Longrightarrow> reading s' \<Longrightarrow> k \<le> length (drop (length new) msgs) \<Longrightarrow>
      length (concat (map frame (take k (drop (length new) msgs)))) \<le> length (undelivered input held need s1) \<Longrightarrow> k \<le> n"
    and pending: "p = Pending \<longrightarrow> chat_safe env input held need contents closed s' \<and>
       undelivered input held need s' @ wire = concat (map frame (drop n (drop (length new) msgs)))"
    by blast
  have le: "length new \<le> length msgs" using prefix by (metis length_take min.cobounded1)
  have taken: "take (length new + n) msgs = new @ take n (drop (length new) msgs)"
    using prefix by (simp add: take_add)
  have few: "length (concat (map frame (take (length new + n) msgs))) \<le> length (undelivered input held need s)"
    using n(3) by (simp add: taken flip: new(4))
  have "k \<le> length new + n" if k: "reads_arrived env input held need" "reading s'" "k \<le> length msgs"
    "length (concat (map frame (take k msgs))) \<le> length (undelivered input held need s)" for k
  proof (cases "k \<le> length new")
    case False
    from k(4) have "length (concat (map frame (take k msgs))) \<le>
        length (concat (map frame new) @ undelivered input held need s1)" by (simp only: new(4))
    from arrived [OF k(1,2) frames_after [OF prefix k(3) False this]] have "k - length new \<le> n" .
    then show ?thesis by simp
  qed simp
  moreover have "contents (cl_inbound s') = contents (cl_inbound s) @ take (length new + n) msgs"
    by (simp add: n(2) new(1) taken)
  ultimately show ?case using few n(1) le pending
    by (intro exI [of _ "length new + n"]) (auto simp: add.commute)
qed

text \<open>A stream for examples whose reads take all that has arrived.\<close>

definition arrived_script :: "(bytes, nat \<times> bytes, bytes, bytes list \<times> bool) chat_env" where
  "arrived_script =
     \<lparr>ce_read_exact = (\<lambda>n. (n, [])),
      ce_read_poll = (\<lambda>(n, h) s.
        let h = take n h; k = n - length h in
        if k \<le> length s then ((n, h), drop k s, Ready (Inr (h @ take k s))) else ((n, h @ s), [], Pending)),
      ce_write_all = (\<lambda>bs. bs), ce_write_poll = (\<lambda>x s. (x, s, Ready (Inr ()))), ce_channel = list_channel\<rparr>"

abbreviation arrived_held :: "nat \<times> bytes \<Rightarrow> bytes" where
  "arrived_held r \<equiv> take (fst r) (snd r)"

lemma arrived_script_laws:
  "chat_laws arrived_script (\<lambda>s. s) arrived_held fst" "reads_arrived arrived_script (\<lambda>s. s) arrived_held fst"
  by (auto simp: chat_laws_def reads_arrived_def arrived_script_def Let_def split: if_splits)

text \<open>
  C10: While nothing is sent, framing is transparent: if what is still undelivered of the input,
  followed by what has not arrived yet, is a sequence of framed messages, each shorter than \<open>2 ^ 32\<close>
  bytes, then a poll of the connection returns and delivers the first \<open>n\<close> of the messages, unchanged and
  in order, however the bytes are cut up on their way; their frames have arrived whole. When the
  stream gives a read all that has arrived, and the loop was not in a write, they are exactly the
  messages whose frames have arrived whole. When the poll is pending, what is undelivered and what
  has not arrived are exactly the frames of the others.
\<close>

theorem chat_delivers:
  assumes "chat_ok env input held need contents closed s"
    and "undelivered input held need s @ wire = concat (map frame msgs)" and "\<forall>m \<in> set msgs. length m < 2 ^ 32"
  shows "\<exists>s' p n. connection_loop env s = ret (s', p) \<and> n \<le> length msgs \<and>
    contents (cl_inbound s') = contents (cl_inbound s) @ take n msgs \<and>
    length (concat (map frame (take n msgs))) \<le> length (undelivered input held need s) \<and>
    (reads_arrived env input held need \<and> reading s \<longrightarrow> (\<forall>k \<le> length msgs.
       k \<le> n \<longleftrightarrow> length (concat (map frame (take k msgs))) \<le> length (undelivered input held need s))) \<and>
    (p = Pending \<longrightarrow> chat_ok env input held need contents closed s' \<and>
       undelivered input held need s' @ wire = concat (map frame (drop n msgs)))"
proof -
  have safe: "chat_safe env input held need contents closed s" and empty: "contents (cl_outbound s) = []"
    using assms(1) by (simp_all add: chat_ok_safe)
  note laws = chat_safeD(1,2) [OF safe]
  from connection_loop_returns [OF laws chat_safe_sizes [OF safe]]
  obtain s' p where loop: "connection_loop env s = ret (s', p)" by blast
  from connection_loop_quiet [OF loop refl laws(2) empty]
  have quiet: "contents (cl_outbound s') = []" "reading s \<Longrightarrow> reading s'" by simp_all
  from connection_loop_delivers [OF loop refl safe assms(2,3)] obtain n where
    n: "n \<le> length msgs" "contents (cl_inbound s') = contents (cl_inbound s) @ take n msgs"
      "length (concat (map frame (take n msgs))) \<le> length (undelivered input held need s)"
    and arrived: "reads_arrived env input held need \<Longrightarrow> reading s' \<Longrightarrow> (\<forall>k \<le> length msgs.
       length (concat (map frame (take k msgs))) \<le> length (undelivered input held need s) \<longrightarrow> k \<le> n)"
    and pending: "p = Pending \<longrightarrow> chat_safe env input held need contents closed s' \<and>
       undelivered input held need s' @ wire = concat (map frame (drop n msgs))" by blast
  have exact: "k \<le> n \<longleftrightarrow> length (concat (map frame (take k msgs))) \<le> length (undelivered input held need s)"
    if "reads_arrived env input held need \<and> reading s" "k \<le> length msgs" for k
    using that quiet(2) arrived frames_mono [of k n msgs] n(3) by (meson le_trans)
  show ?thesis
    by (rule exI [of _ s'], rule exI [of _ p], rule exI [of _ n], intro conjI impI allI loop n)
       (use exact quiet(1) pending in \<open>simp_all add: chat_ok_safe\<close>)
qed

theorem chat_delivers_witness:
  "\<exists>s' n. connection_loop arrived_script
      (chat_start arrived_script [0, 0, 0, 2, 104, 105, 0, 0, 0] ([], False) ([], False)) = ret (s', Pending) \<and>
    n = 1 \<and> fst (cl_inbound s') = take n [[104, 105], [106 :: u8]]"
proof -
  let ?s = "chat_start arrived_script [0, 0, 0, 2, 104, 105, 0, 0, 0] ([], False) ([], False)"
  let ?msgs = "[[104, 105], [106 :: u8]]"
  have ok: "chat_ok arrived_script (\<lambda>s. s) arrived_held fst fst snd ?s"
    by (simp add: chat_ok_def arrived_script_laws list_channel_laws chat_inv_def chat_start_def)
       (simp add: arrived_script_def list_channel_laws)
  have wire: "undelivered (\<lambda>s. s) arrived_held fst ?s @ [1, 106] = concat (map frame ?msgs)"
    by (simp add: undelivered_def chat_start_def frame_def u32_to_be_bytes_def arrived_script_def)
  have small: "\<forall>m \<in> set ?msgs. length m < 2 ^ 32" by simp
  have reading: "reading ?s" by (simp add: reading_def chat_start_def)
  obtain s' where loop: "connection_loop arrived_script ?s = ret (s', Pending)"
    by (simp add: connection_loop_turn chat_turn_def chat_start_def u32_from_be_bytes_def Let_def arrived_script_def)
  have sizes: "length (concat (map frame (take 1 ?msgs))) \<le> length (undelivered (\<lambda>s. s) arrived_held fst ?s)"
    "\<not> length (concat (map frame (take 2 ?msgs))) \<le> length (undelivered (\<lambda>s. s) arrived_held fst ?s)"
    by (simp_all add: undelivered_def chat_start_def frame_def u32_to_be_bytes_def arrived_script_def)
  from chat_delivers [OF ok wire small] obtain s2 p n where
    loop2: "connection_loop arrived_script ?s = ret (s2, p)"
    and inbound: "fst (cl_inbound s2) = fst (cl_inbound ?s) @ take n ?msgs"
    and arrived: "reads_arrived arrived_script (\<lambda>s. s) arrived_held fst \<and> reading ?s \<longrightarrow>
      (\<forall>k \<le> length ?msgs. k \<le> n \<longleftrightarrow> length (concat (map frame (take k ?msgs))) \<le>
        length (undelivered (\<lambda>s. s) arrived_held fst ?s))"
    by (elim exE conjE) (rule that)
  from loop loop2 have "s2 = s'" by simp
  note exactly = mp [OF arrived conjI [OF arrived_script_laws(2) reading], rule_format]
  from exactly [of 1] exactly [of 2] sizes have "1 \<le> n" and "\<not> 2 \<le> n" by simp_all
  then have "n = 1" by simp
  with loop inbound \<open>s2 = s'\<close> show ?thesis by (simp add: chat_start_def)
qed

text \<open>
  C22: A message that is sent while the length of the next one is half read breaks the framing: the
  \<open>select\<close> drops the read future with the bytes it holds, and after the write the loop reads a new
  length from the bytes that follow. What is lost is exactly what the future held.
\<close>

theorem interrupted_read_loses_bytes:
  assumes "chat_laws env input held need" and "channel_laws (ce_channel env) contents closed"
    and "cl_wait s = Selecting r" and "ce_read_poll env r (cl_stream s) = (r', stream, Pending)"
    and "contents (cl_outbound s) = m # ms"
    and "ce_write_poll env (ce_write_all env (frame m)) stream = (x, stream', Ready (Inr ()))"
  shows "\<exists>s1 s2. chat_turn env s = Inl s1 \<and> chat_turn env s1 = Inl s2 \<and>
    cl_wait s2 = Selecting (ce_read_exact env 4) \<and> cl_inbound s2 = cl_inbound s \<and>
    undelivered input held need s = held r' @ undelivered input held need s2"
proof -
  from channel_lawsD(5) [OF assms(2,5)] obtain q
    where q: "ch_poll_next (ce_channel env) (cl_outbound s) = (q, Ready (Some m))" by blast
  let ?s1 = "s\<lparr>cl_stream := stream, cl_outbound := q, cl_wait := Writing (ce_write_all env (frame m))\<rparr>"
  let ?s2 = "?s1\<lparr>cl_stream := stream', cl_wait := Selecting (ce_read_exact env 4)\<rparr>"
  have "chat_turn env s = Inl ?s1" and "chat_turn env ?s1 = Inl ?s2"
    by (simp_all add: chat_turn_def assms(3,4,6) q)
  moreover have "undelivered input held need s = held r' @ undelivered input held need ?s2"
    using chat_lawsD(3) [OF assms(1,4)] chat_lawsD(5) [OF assms(1,6)]
    by (simp add: undelivered_def assms(3) chat_lawsD(1) [OF assms(1)])
  ultimately show ?thesis by (intro exI [of _ ?s1] exI [of _ ?s2]) simp
qed

theorem interrupted_read_loses_bytes_witness:
  "\<exists>s1 s2. chat_turn chat_script
      (chat_start chat_script [[0, 0], [0, 2, 104, 105]] ([], False) ([[120]], False)) = Inl s1 \<and>
    chat_turn chat_script s1 = Inl s2 \<and> undelivered concat snd fst s2 = [0, 2, 104, 105]"
proof -
  let ?s = "chat_start chat_script [[0, 0], [0, 2, 104, 105]] ([], False) ([[120]], False)"
  have wait: "cl_wait ?s = Selecting (4, [])"
    and read: "ce_read_poll chat_script (4, []) (cl_stream ?s) = ((4, [0, 0]), [[0, 2, 104, 105]], Pending)"
    and out: "fst (cl_outbound ?s) = [120] # []"
    and wr: "ce_write_poll chat_script (ce_write_all chat_script (frame [120])) [[0, 2, 104, 105]] =
      (frame [120], [[0, 2, 104, 105]], Ready (Inr ()))"
    by (simp_all add: chat_start_def)
  have chan: "channel_laws (ce_channel chat_script) fst snd" by (simp add: list_channel_laws)
  from interrupted_read_loses_bytes [OF chat_script_laws chan wait read out wr]
  obtain s1 s2 where turns: "chat_turn chat_script ?s = Inl s1" "chat_turn chat_script s1 = Inl s2"
    and lost: "undelivered concat snd fst ?s = [0, 0] @ undelivered concat snd fst s2" by auto
  have "undelivered concat snd fst ?s = [0, 0, 0, 2, 104, 105]"
    by (simp add: undelivered_def chat_start_def)
  with lost turns show ?thesis by auto
qed

subsection \<open>Whole frames\<close>

text \<open>
  The positive side: a stream that hands over whole frames only. Then no length is ever half read
  where the \<open>select\<close> could drop it, so messages can be sent at any time.
\<close>

definition whole_frames ::
  "('s, 'r, 'x, 'q) chat_env \<Rightarrow> ('s \<Rightarrow> bytes) \<Rightarrow> ('r \<Rightarrow> bytes) \<Rightarrow> ('r \<Rightarrow> nat) \<Rightarrow> ('q \<Rightarrow> bytes list) \<Rightarrow> ('q \<Rightarrow> bool) \<Rightarrow>
     bytes list \<Rightarrow> ('s, 'r, 'x, 'q) chat_loop \<Rightarrow> bool" where
  "whole_frames env input held need contents closed msgs s \<longleftrightarrow>
     chat_laws env input held need \<and> reads_arrived env input held need \<and>
     channel_laws (ce_channel env) contents closed \<and> chat_inv closed need s \<and>
     undelivered input held need s = concat (map frame msgs) \<and> (\<forall>m \<in> set msgs. length m < 2 ^ 32)"

lemma whole_framesD:
  assumes "whole_frames env input held need contents closed msgs s"
  shows "chat_laws env input held need" "reads_arrived env input held need"
    "channel_laws (ce_channel env) contents closed" "chat_inv closed need s"
    "undelivered input held need s = concat (map frame msgs)" "\<forall>m \<in> set msgs. length m < 2 ^ 32"
  using assms by (simp_all add: whole_frames_def)

lemma whole_frames_sizes: "whole_frames env input held need contents closed msgs s \<Longrightarrow> chat_sizes need s"
  by (auto simp: whole_frames_def chat_inv_def chat_sizes_def split: chat_wait.splits)

lemma frame_take: "length bs = 4 \<Longrightarrow> bs @ rest = frame m @ rest' \<Longrightarrow>
    bs = u32_to_be_bytes (of_nat (length m)) \<and> rest = m @ rest'"
  by (simp add: frame_def append_eq_append_conv)

text \<open>One turn: it delivers the next message, or keeps all of them; it stops to wait for input at their end only.\<close>

lemma chat_turn_whole:
  assumes whole: "whole_frames env input held need contents closed msgs s"
    and "(case chat_turn env s of Inl s1 \<Rightarrow> s' = s1 \<and> p = Pending | Inr r \<Rightarrow> r = (s', p))"
  shows "\<exists>n \<le> length msgs. contents (cl_inbound s') = contents (cl_inbound s) @ take n msgs \<and>
    (p = Pending \<longrightarrow> whole_frames env input held need contents closed (drop n msgs) s') \<and>
    (chat_turn env s = Inr (s', p) \<and> reading s' \<longrightarrow> n = length msgs)"
proof -
  note laws = whole_framesD(1) [OF whole] and arrived = whole_framesD(2) [OF whole]
    and chan = whole_framesD(3) [OF whole] and inv = whole_framesD(4) [OF whole]
    and wire = whole_framesD(5) [OF whole] and small = whole_framesD(6) [OF whole]
  show ?thesis
  proof (cases "cl_wait s")
    case (Selecting r)
    obtain r' st res where poll: "ce_read_poll env r (cl_stream s) = (r', st, res)" by (metis prod_cases3)
    from inv Selecting have four: "need r = 4" by (simp add: chat_inv_def)
    from wire Selecting have held: "held r @ input (cl_stream s) = concat (map frame msgs)"
      by (simp add: undelivered_def)
    show ?thesis
    proof (cases msgs)
      case Nil
      with held have none: "held r @ input (cl_stream s) = []" by simp
      have "res \<noteq> Ready (Inr bs)" for bs
      proof
        assume "res = Ready (Inr bs)"
        with poll chat_lawsD(4) [OF laws, of r "cl_stream s" r' st bs] none four
        have "bs @ input st = []" "length bs = 4" by metis+
        then show False by simp
      qed
      moreover have "held r' = []" "input st = []" "need r' = 4" if "res = Pending"
        using chat_lawsD(3) [OF laws, of r "cl_stream s" r' st] poll that none four by simp_all
      ultimately show ?thesis
        using assms(2) poll Selecting Nil inv channel_poll_queue [OF chan, of "cl_outbound s"]
          chat_lawsD(5) [OF laws] whole
        by (cases res rule: io_result_poll_cases)
           (auto simp: chat_turn_def whole_frames_def chat_inv_def undelivered_def
             split: prod.splits poll.splits option.splits)
    next
      case (Cons m ms)
      with held have "\<not> length (held r @ input (cl_stream s)) < need r" by (simp add: frame_def four)
      with arrived poll obtain bs where res: "res = Ready (Inr bs)" unfolding reads_arrived_def by blast
      with poll chat_lawsD(4) [OF laws] four held have "bs @ input st = concat (map frame msgs)" "length bs = 4"
        by metis+
      with frame_take [of bs "input st" m "concat (map frame ms)"] Cons
      have bs: "bs = u32_to_be_bytes (of_nat (length m))" "input st = m @ concat (map frame ms)" by simp_all
      from small Cons have "unat (of_nat (length m) :: u32) = length m" by (simp add: unat_of_nat)
      with assms(2) poll res Selecting bs Cons inv whole show ?thesis
        by (intro exI [of _ 0]) (auto simp: chat_turn_def whole_frames_def chat_inv_def undelivered_def Let_def
            frame_def chat_lawsD(1,2) [OF laws])
    qed
  next
    case (ReadingBody r)
    obtain r' st res where poll: "ce_read_poll env r (cl_stream s) = (r', st, res)" by (metis prod_cases3)
    from inv ReadingBody have few: "need r < 2 ^ 32" and "\<not> closed (cl_inbound s)" by (simp_all add: chat_inv_def)
    from wire ReadingBody have "u32_to_be_bytes (of_nat (need r)) @ held r @ input (cl_stream s) = concat (map frame msgs)"
      by (simp add: undelivered_def)
    moreover from this obtain m ms where msgs: "msgs = m # ms"
      using u32_to_be_bytes_length by (cases msgs) (auto simp del: u32_to_be_bytes_length, metis append_is_Nil_conv list.size(3) u32_to_be_bytes_length zero_neq_numeral)
    ultimately have len: "(of_nat (need r) :: u32) = of_nat (length m)"
      and held: "held r @ input (cl_stream s) = m @ concat (map frame ms)"
      using frame_take [of "u32_to_be_bytes (of_nat (need r))" _ m "concat (map frame ms)"]
      by (simp_all, metis u32_from_to_be_bytes)
    from arg_cong [OF len, of unat] few small msgs have need: "need r = length m" by (simp add: unat_of_nat)
    with held have "\<not> length (held r @ input (cl_stream s)) < need r" by simp
    with arrived poll obtain bs where res: "res = Ready (Inr bs)" unfolding reads_arrived_def by blast
    with poll chat_lawsD(4) [OF laws] need held have "bs @ input st = m @ concat (map frame ms)" "length bs = length m"
      by metis+
    then have bs: "bs = m" "input st = concat (map frame ms)" by (simp_all add: append_eq_append_conv)
    from channel_lawsD(3) [OF chan \<open>\<not> closed (cl_inbound s)\<close>, of m] obtain q where
      "ch_try_send (ce_channel env) m (cl_inbound s) = (q, Inr ())"
      "contents q = contents (cl_inbound s) @ [m]" "\<not> closed q" by blast
    with assms(2) poll res ReadingBody bs msgs whole show ?thesis
      by (intro exI [of _ 1]) (auto simp: chat_turn_def whole_frames_def chat_inv_def undelivered_def
          chat_lawsD(1,2) [OF laws])
  next
    case (Writing x)
    obtain x' st res where poll: "ce_write_poll env x (cl_stream s) = (x', st, res)" by (metis prod_cases3)
    with chat_lawsD(5) [OF laws] have "input st = input (cl_stream s)" by blast
    with assms(2) whole poll Writing show ?thesis
      by (intro exI [of _ 0], cases res rule: io_result_poll_cases)
         (auto simp: chat_turn_def whole_frames_def chat_inv_def undelivered_def reading_def chat_lawsD(1,2) [OF laws])
  qed
qed

text \<open>A poll that leaves the loop in its \<open>select\<close> has found the queue of messages to send empty.\<close>

lemma chat_turn_idle:
  assumes "channel_laws (ce_channel env) contents closed"
    and "chat_turn env s = Inr (s', Pending)" and "cl_wait s' = Selecting r"
  shows "contents (cl_outbound s') = []"
proof -
  obtain q p where q: "ch_poll_next (ce_channel env) (cl_outbound s) = (q, p)" by fastforce
  with channel_lawsD(5,6) [OF assms(1), of "cl_outbound s"] have "p = Pending \<Longrightarrow> contents q = []"
    by (cases "contents (cl_outbound s)"; force split: if_splits)
  with assms(2,3) q show ?thesis
    by (auto simp: chat_turn_def Let_def split: chat_wait.splits prod.splits poll.splits sum.splits option.splits)
qed

lemma connection_loop_idle:
  assumes "connection_loop env s = Some y" "y = Ret (s', Pending)"
    and "channel_laws (ce_channel env) contents closed" and "cl_wait s' = Selecting r"
  shows "contents (cl_outbound s') = []"
  using assms
proof (induction rule: connection_loop_induct)
  case (stop s result)
  then show ?case using chat_turn_idle [OF stop(3), of s s' r] by simp
qed

lemma connection_loop_whole:
  assumes "connection_loop env s = Some y" "y = Ret (s', p)"
    and "whole_frames env input held need contents closed msgs s"
  shows "\<exists>n \<le> length msgs. contents (cl_inbound s') = contents (cl_inbound s) @ take n msgs \<and>
    (p = Pending \<longrightarrow> whole_frames env input held need contents closed (drop n msgs) s') \<and>
    (reading s' \<longrightarrow> n = length msgs)"
  using assms
proof (induction arbitrary: msgs rule: connection_loop_induct)
  case (stop s result)
  with chat_turn_whole [OF stop(3), of s' p] show ?case by simp
next
  case (turn s s1 y)
  from chat_turn_whole [OF turn(4), of s1 Pending] turn(1) obtain k where
    k: "k \<le> length msgs" "contents (cl_inbound s1) = contents (cl_inbound s) @ take k msgs"
      "whole_frames env input held need contents closed (drop k msgs) s1" by auto
  from turn(2) [OF turn(3) k(3)] obtain n where
    n: "n \<le> length msgs - k" "contents (cl_inbound s') = contents (cl_inbound s1) @ take n (drop k msgs)"
      "p = Pending \<longrightarrow> whole_frames env input held need contents closed (drop n (drop k msgs)) s'"
      "reading s' \<longrightarrow> n = length msgs - k" by auto
  from n k show ?case
    by (intro exI [of _ "k + n"]) (auto simp: take_add add.commute)
qed

lemma whole_frames_selecting:
  assumes "whole_frames env input held need contents closed [] s" and "reading s"
  obtains r where "cl_wait s = Selecting r"
  using whole_framesD(5) [OF assms(1)] assms(2) u32_to_be_bytes_length
  by (cases "cl_wait s") (auto simp: undelivered_def reading_def u32_to_be_bytes_def)

text \<open>
  C15: Talking both ways. As long as the bytes that arrive are whole frames and a read takes what has
  arrived, sending costs nothing that is received: whatever is queued to be sent, a poll of the loop
  returns and delivers the messages that arrived in order, and all of them unless it stops in a
  write. When it is pending, what has not been delivered is whole frames again, what there is to be
  sent is unchanged, and if it does not stop in a write, all of it has been written.
\<close>

theorem whole_frames_survive_sending:
  assumes "whole_frames env input held need contents closed msgs s" and "chat_write_laws env output left"
  shows "\<exists>s' p n. connection_loop env s = ret (s', p) \<and>
    contents (cl_inbound s') = contents (cl_inbound s) @ take n msgs \<and>
    (reading s' \<longrightarrow> n = length msgs) \<and>
    (p = Pending \<longrightarrow> whole_frames env input held need contents closed (drop n msgs) s' \<and>
       to_send output left contents s' = to_send output left contents s \<and>
       (reading s' \<longrightarrow> output (cl_stream s') = to_send output left contents s))"
proof -
  note chan = whole_framesD(3) [OF assms(1)]
  from connection_loop_returns [OF whole_framesD(1) [OF assms(1)] chan whole_frames_sizes [OF assms(1)]]
  obtain s' p where loop: "connection_loop env s = ret (s', p)" by blast
  from connection_loop_whole [OF loop refl assms(1)] obtain n where n: "n \<le> length msgs"
    "contents (cl_inbound s') = contents (cl_inbound s) @ take n msgs" "reading s' \<longrightarrow> n = length msgs"
    "p = Pending \<longrightarrow> whole_frames env input held need contents closed (drop n msgs) s'" by blast
  have "to_send output left contents s' = to_send output left contents s \<and>
      (reading s' \<longrightarrow> output (cl_stream s') = to_send output left contents s)" if pending: "p = Pending"
  proof -
    note sent = connection_loop_to_send(1) [OF loop [unfolded pending] assms(2) chan]
    have "output (cl_stream s') = to_send output left contents s'" if "reading s'"
    proof -
      from n that pending have "whole_frames env input held need contents closed [] s'" by simp
      from whole_frames_selecting [OF this that] obtain r where r: "cl_wait s' = Selecting r" .
      with connection_loop_idle [OF loop _ chan r] pending show ?thesis by (simp add: to_send_def)
    qed
    with sent show ?thesis by simp
  qed
  with loop n show ?thesis by blast
qed

text \<open>Two messages arrive while one is queued: both are delivered and the one is written.\<close>

definition duplex_script :: "(bytes \<times> bytes, nat \<times> bytes, bytes, bytes list \<times> bool) chat_env" where
  "duplex_script =
     \<lparr>ce_read_exact = ce_read_exact arrived_script,
      ce_read_poll = (\<lambda>r (i, out). case ce_read_poll arrived_script r i of (r', i', p) \<Rightarrow> (r', (i', out), p)),
      ce_write_all = (\<lambda>bs. bs), ce_write_poll = (\<lambda>x (i, out). (x, (i, out @ x), Ready (Inr ()))),
      ce_channel = list_channel\<rparr>"

lemma duplex_script_laws:
  "chat_laws duplex_script fst arrived_held fst" "reads_arrived duplex_script fst arrived_held fst"
  "chat_write_laws duplex_script snd (\<lambda>x. x)"
  by (auto simp: chat_laws_def reads_arrived_def chat_write_laws_def duplex_script_def arrived_script_def Let_def
      split: if_splits)

theorem whole_frames_survive_sending_witness:
  "\<exists>s'. connection_loop duplex_script
      (chat_start duplex_script ([0, 0, 0, 1, 104, 0, 0, 0, 1, 105], []) ([], False) ([[120]], False)) =
      ret (s', Pending) \<and>
    fst (cl_inbound s') = [[104], [105]] \<and> snd (cl_stream s') = [0, 0, 0, 1, 120]"
proof -
  let ?s = "chat_start duplex_script ([0, 0, 0, 1, 104, 0, 0, 0, 1, 105], []) ([], False) ([[120]], False)"
  have whole: "whole_frames duplex_script fst arrived_held fst fst snd [[104], [105]] ?s"
    unfolding whole_frames_def using duplex_script_laws(1,2)
    by (simp add: chat_inv_def chat_start_def undelivered_def frame_def u32_to_be_bytes_def list_channel_laws)
       (simp add: duplex_script_def arrived_script_def list_channel_laws)
  have "\<exists>s'. connection_loop duplex_script ?s = ret (s', Pending) \<and> reading s'"
    by (simp add: connection_loop_turn chat_turn_def chat_start_def u32_from_be_bytes_def Let_def reading_def
        duplex_script_def arrived_script_def frame_def u32_to_be_bytes_def)
  then obtain s' where loop: "connection_loop duplex_script ?s = ret (s', Pending)" "reading s'" by blast
  with whole_frames_survive_sending [OF whole duplex_script_laws(3)]
  have "fst (cl_inbound s') = fst (cl_inbound ?s) @ [[104], [105]]"
    and "snd (cl_stream s') = to_send snd (\<lambda>x. x) fst ?s" by auto
  moreover have "to_send snd (\<lambda>x. x) fst ?s = [0, 0, 0, 1, 120]"
    by (simp add: to_send_def chat_start_def frame_def u32_to_be_bytes_def)
  ultimately show ?thesis using loop by (simp add: chat_start_def)
qed

text \<open>The same for a poll of the loop over a stream that never hands over a part of a length.\<close>

lemma connection_loop_unsplit:
  assumes "connection_loop env s = Some y" "y = Ret (s', p)" "unsplit held need closed s"
    and "chat_laws env input held need" "channel_laws (ce_channel env) contents closed" "lengths_whole env held need"
  shows "\<exists>new rest. contents (cl_inbound s') = contents (cl_inbound s) @ new \<and> (\<forall>m \<in> set new. length m < 2 ^ 32) \<and>
    concat (map frame new) @ rest = undelivered input held need s \<and>
    (p = Pending \<longrightarrow> unsplit held need closed s' \<and> rest = undelivered input held need s')"
  using assms(1-3)
proof (induction rule: connection_loop_induct)
  case (stop s result)
  from chat_turn_unsplit [OF assms(4-6) stop(3), of s' p] stop(1,2) obtain new where new:
    "contents (cl_inbound s') = contents (cl_inbound s) @ new" "\<forall>m \<in> set new. length m < 2 ^ 32"
    "p = Pending \<longrightarrow> unsplit held need closed s' \<and>
      concat (map frame new) @ undelivered input held need s' = undelivered input held need s"
    "p \<noteq> Pending \<longrightarrow> new = []" by auto
  then show ?case
    by (cases "p = Pending") (auto intro!: exI [of _ new])
next
  case (turn s s1 y)
  from chat_turn_unsplit [OF assms(4-6) turn(4), of s1 Pending] turn(1) obtain new where new:
    "contents (cl_inbound s1) = contents (cl_inbound s) @ new" "\<forall>m \<in> set new. length m < 2 ^ 32"
    "unsplit held need closed s1"
    "concat (map frame new) @ undelivered input held need s1 = undelivered input held need s" by auto
  from turn(2) [OF turn(3) new(3)] obtain more rest where
    "contents (cl_inbound s') = contents (cl_inbound s1) @ more" "\<forall>m \<in> set more. length m < 2 ^ 32"
    "concat (map frame more) @ rest = undelivered input held need s1"
    "p = Pending \<longrightarrow> unsplit held need closed s' \<and> rest = undelivered input held need s'" by blast
  with new show ?case
    by (intro exI [of _ "new @ more"] exI [of _ rest]) auto
qed

text \<open>
  C23: The length field has 32 bits: a message of any length is written whole, but its header is the
  length modulo \<open>2 ^ 32\<close>, so a receiver that has read the header waits for that many bytes as the
  body, never for \<open>2 ^ 32\<close> or more, and it waits for the whole message exactly when the message is
  shorter than \<open>2 ^ 32\<close> bytes; of a longer one the rest is left in the stream.
\<close>

theorem frame_length_wraps:
  assumes "cl_wait s = Selecting r"
    and "ce_read_poll env r (cl_stream s) = (r', stream, Ready (Inr (take 4 (frame m))))"
  shows "chat_turn env s =
      Inl (s\<lparr>cl_stream := stream, cl_wait := ReadingBody (ce_read_exact env (length m mod 2 ^ 32))\<rparr>) \<and>
    length (frame m) = 4 + length m \<and> (length m mod 2 ^ 32 = length m \<longleftrightarrow> length m < 2 ^ 32)"
proof -
  have "take 4 (frame m) = u32_to_be_bytes (of_nat (length m))" by (simp add: frame_def)
  moreover have "unat (of_nat (length m) :: u32) = length m mod 2 ^ 32" by (simp add: unat_of_nat)
  ultimately have "chat_turn env s =
      Inl (s\<lparr>cl_stream := stream, cl_wait := ReadingBody (ce_read_exact env (length m mod 2 ^ 32))\<rparr>)"
    by (simp add: chat_turn_def assms Let_def)
  moreover have "length m mod 2 ^ 32 = length m \<longleftrightarrow> length m < 2 ^ 32"
    by (metis mod_less mod_less_divisor zero_less_numeral zero_less_power)
  ultimately show ?thesis by (simp add: frame_def)
qed

theorem frame_length_wraps_witness:
  "\<exists>m s. length m = 2 ^ 32 + 3 \<and>
     chat_turn chat_script (chat_start chat_script [frame m] ([], False) ([], False)) = Inl s \<and>
     cl_wait s = ReadingBody (3, []) \<and> length (frame m) = 2 ^ 32 + 7"
proof -
  obtain m :: bytes where m: "length m = 2 ^ 32 + 3" using Ex_list_of_length by blast
  let ?s = "chat_start chat_script [frame m] ([], False) ([], False)"
  have wait: "cl_wait ?s = Selecting (4, [])" by (simp add: chat_start_def)
  have rest: "drop 4 (frame m) = m" and head: "length (take 4 (frame m)) = 4" by (simp_all add: frame_def)
  have "length (frame m) > 4" and "m \<noteq> []" using m by (auto simp: frame_def)
  with rest head have read: "ce_read_poll chat_script (4, []) (cl_stream ?s) =
      ((4, take 4 (frame m)), [m], Ready (Inr (take 4 (frame m))))"
    by (simp add: chat_start_def Let_def)
  have "length m mod 2 ^ 32 = 3" by (simp add: m)
  with frame_length_wraps [OF wait read] m show ?thesis by (intro exI [of _ m]) simp
qed

end
