(* ===== verification/Utf8.thy ===== *)
theory Utf8
  imports Prelude
begin

section \<open>Strings and their bytes\<close>

text \<open>
  A \<open>String\<close> of the source is a \<open>string\<close> here, a character per byte of its UTF-8 encoding.
  \<open>string_from_utf8\<close> is \<open>String::from_utf8\<close>, with the standard library's table of well-formed
  sequences: how many continuation bytes a first byte asks for, and the range of the second byte.
\<close>

definition utf8_tail :: "nat \<Rightarrow> nat option" where
  "utf8_tail b =
     (if b < 128 then Some 0
      else if 194 \<le> b \<and> b \<le> 223 then Some 1
      else if 224 \<le> b \<and> b \<le> 239 then Some 2
      else if 240 \<le> b \<and> b \<le> 244 then Some 3
      else None)"

definition utf8_second :: "nat \<Rightarrow> nat \<Rightarrow> bool" where
  "utf8_second b c =
     (if b = 224 then 160 \<le> c \<and> c \<le> 191
      else if b = 237 then 128 \<le> c \<and> c \<le> 159
      else if b = 240 then 144 \<le> c \<and> c \<le> 191
      else if b = 244 then 128 \<le> c \<and> c \<le> 143
      else 128 \<le> c \<and> c \<le> 191)"

definition utf8_continuation :: "nat \<Rightarrow> bool" where
  "utf8_continuation c \<longleftrightarrow> 128 \<le> c \<and> c \<le> 191"

fun utf8_valid :: "nat list \<Rightarrow> bool" where
  "utf8_valid [] = True"
| "utf8_valid (b # bs) =
     (case utf8_tail b of
        None \<Rightarrow> False
      | Some n \<Rightarrow>
          n \<le> length bs \<and> (0 < n \<longrightarrow> utf8_second b (hd bs)) \<and>
          list_all utf8_continuation (take n bs) \<and> utf8_valid (drop n bs))"

lemma utf8_valid_append: "utf8_valid bs \<Longrightarrow> utf8_valid (bs @ cs) \<longleftrightarrow> utf8_valid cs"
proof (induction bs rule: utf8_valid.induct)
  case (2 b bs)
  from 2(2) obtain n where n: "utf8_tail b = Some n" "n \<le> length bs"
    "0 < n \<longrightarrow> utf8_second b (hd bs)" "list_all utf8_continuation (take n bs)" "utf8_valid (drop n bs)"
    by (auto split: option.splits)
  then have "0 < n \<longrightarrow> hd (bs @ cs) = hd bs" by (cases bs) simp_all
  with n 2(1) [OF n(1,5)] show ?case by simp
qed simp

lemma utf8_valid_concat: "list_all utf8_valid bss \<Longrightarrow> utf8_valid (concat bss)"
  by (induction bss) (simp_all add: utf8_valid_append)

lemma utf8_valid_ascii: "list_all (\<lambda>b. b < 128) bs \<Longrightarrow> utf8_valid bs"
  by (induction bs) (simp_all add: utf8_tail_def)

definition string_bytes :: "string \<Rightarrow> bytes" where
  "string_bytes s = map (\<lambda>c. of_nat (of_char c)) s"

definition string_from_utf8 :: "bytes \<Rightarrow> string option" where
  "string_from_utf8 bs =
     (if utf8_valid (map unat bs) then Some (map (\<lambda>b. char_of (unat b)) bs) else None)"

lemma string_bytes_simps [simp]:
  "string_bytes [] = []" "string_bytes (c # s) = of_nat (of_char c) # string_bytes s"
  "string_bytes (s @ t) = string_bytes s @ string_bytes t"
  "length (string_bytes s) = length s"
  by (simp_all add: string_bytes_def)

lemma unat_of_char [simp]: "unat (of_nat (of_char c) :: u8) = of_char c"
  using nat_of_char_less_256 [of c] by (simp add: unat_of_nat)

lemma word_of_unat_mod [simp]: "of_nat (unat w mod 256) = (w :: u8)"
proof -
  have "unat w < 256" using unsigned_less [of w, where ?'a = nat] by simp
  then show ?thesis by simp
qed

lemma string_bytes_from_utf8:
  "string_from_utf8 (string_bytes s) = (if utf8_valid (map of_char s) then Some s else None)"
  by (simp add: string_from_utf8_def string_bytes_def comp_def)

lemma string_from_utf8_bytes: "string_from_utf8 bs = Some s \<Longrightarrow> string_bytes s = bs"
  by (auto simp: string_from_utf8_def string_bytes_def comp_def of_char_of split: if_splits)

end
