(* ===== verification/Net.thy ===== *)
theory Net
  imports Prelude
begin

section \<open>Socket addresses and the crate's helpers (\<open>src/util.rs\<close>)\<close>

text \<open>
  The address types of \<open>std::net\<close> with the text their \<open>Display\<close> produces, the trait
  \<open>ToSocketAddrs\<close> as a resolver passed as an argument (name resolution is the operating
  system's), and the two helpers of \<open>src/util.rs\<close>. The hash function of \<open>hash_topic\<close> is the
  third-party crate \<open>blake2_rfc\<close>: its three calls are the fields of a record the helper takes.
\<close>

subsection \<open>Addresses\<close>

datatype ipv4_addr = Ipv4Addr u8 u8 u8 u8

datatype ipv6_addr = Ipv6Addr u16 u16 u16 u16 u16 u16 u16 u16

text \<open>An IPv6 socket address also carries its flow information and its scope.\<close>

datatype socket_addr =
    SocketV4 ipv4_addr (sock_port: u16)
  | SocketV6 ipv6_addr (sock_port: u16) (flowinfo: u32) (scope_id: u32)

fun is_ipv4 :: "socket_addr \<Rightarrow> bool" where
  "is_ipv4 (SocketV4 ip port) = True"
| "is_ipv4 (SocketV6 ip port flow scope) = False"

text \<open>A resolver: what \<open>to_socket_addrs\<close> yields for a value, all items of its iterator in order.\<close>

type_synonym 'a resolver = "'a \<Rightarrow> socket_addr list io_result"

text \<open>\<open>impl ToSocketAddrs for SocketAddr\<close>: the address itself.\<close>

definition socket_addr_resolver :: "socket_addr resolver" where
  "socket_addr_resolver a = Inr [a]"

subsection \<open>Decimal and hexadecimal numerals\<close>

text \<open>The digits of \<open>n\<close> in base \<open>b\<close>, as \<open>{}\<close> and \<open>{:x}\<close> print them.\<close>

definition digit_char :: "nat \<Rightarrow> char" where
  "digit_char d = char_of (if d < 10 then 48 + d else 87 + d)"

fun show_base :: "nat \<Rightarrow> nat \<Rightarrow> string" where
  "show_base b n =
     (if b < 2 \<or> n < b then [digit_char n] else show_base b (n div b) @ [digit_char (n mod b)])"

declare show_base.simps [simp del]

abbreviation show_dec :: "nat \<Rightarrow> string" where
  "show_dec \<equiv> show_base 10"

abbreviation show_hex :: "nat \<Rightarrow> string" where
  "show_hex \<equiv> show_base 16"

text \<open>Reading the digits back: the value of a numeral in base \<open>b\<close>.\<close>

definition digit_value :: "char \<Rightarrow> nat" where
  "digit_value c = (if of_char c < (58 :: nat) then of_char c - 48 else of_char c - 87)"

definition read_base :: "nat \<Rightarrow> string \<Rightarrow> nat" where
  "read_base b cs = foldl (\<lambda>n c. b * n + digit_value c) 0 cs"

lemma digit_value_char: "d < 16 \<Longrightarrow> digit_value (digit_char d) = d"
  by (auto simp: digit_value_def digit_char_def of_char_of)

lemma read_show_base: "2 \<le> b \<Longrightarrow> b \<le> 16 \<Longrightarrow> read_base b (show_base b n) = n"
proof (induction b n rule: show_base.induct)
  case (1 b n)
  show ?case
  proof (cases "n < b")
    case True
    with 1 show ?thesis
      by (simp add: show_base.simps [of b n] read_base_def digit_value_char)
  next
    case False
    with 1 have "read_base b (show_base b (n div b)) = n div b" and "n mod b < 16"
      by (auto intro: less_le_trans [OF mod_less_divisor])
    with 1 False show ?thesis
      by (simp add: show_base.simps [of b n] read_base_def digit_value_char)
  qed
qed

lemma show_base_inj [simp]:
  "2 \<le> b \<Longrightarrow> b \<le> 16 \<Longrightarrow> show_base b m = show_base b n \<longleftrightarrow> m = n"
  by (metis read_show_base)

lemma show_base_digits: "2 \<le> b \<Longrightarrow> b \<le> 16 \<Longrightarrow> set (show_base b n) \<subseteq> digit_char ` {..<b}"
proof (induction b n rule: show_base.induct)
  case (1 b n)
  show ?case
  proof (cases "n < b")
    case True
    then show ?thesis by (simp add: show_base.simps [of b n])
  next
    case False
    with 1 show ?thesis by (auto simp: show_base.simps [of b n])
  qed
qed

lemma show_dec_no_sep:
  "CHR ''.'' \<notin> set (show_dec n)" "CHR '':'' \<notin> set (show_dec n)"
proof -
  have "c \<noteq> CHR ''.'' \<and> c \<noteq> CHR '':''" if "c \<in> set (show_dec n)" for c
  proof -
    from that show_base_digits [of 10 n] obtain d where "d < 10" and c: "c = digit_char d"
      by auto
    then have "of_char c \<in> {48..57 :: nat}"
      by (simp add: digit_char_def of_char_of)
    then show ?thesis by auto
  qed
  then show "CHR ''.'' \<notin> set (show_dec n)" "CHR '':'' \<notin> set (show_dec n)"
    by blast+
qed

subsection \<open>\<open>Display\<close> of addresses\<close>

fun show_ipv4 :: "ipv4_addr \<Rightarrow> string" where
  "show_ipv4 (Ipv4Addr a b c d) =
     show_dec (unat a) @ ''.'' @ show_dec (unat b) @ ''.'' @ show_dec (unat c) @ ''.''
       @ show_dec (unat d)"

text \<open>
  An IPv6 address prints its segments in hexadecimal, with the first of the longest runs of
  two or more zero segments written as \<open>::\<close>; an IPv4-mapped address ends in dotted decimals.
  \<open>longest_zeroes\<close> is the standard library's scan: the current run and the longest one so far,
  each a start index and a length.
\<close>

fun longest_zeroes :: "nat \<Rightarrow> nat \<times> nat \<Rightarrow> nat \<times> nat \<Rightarrow> u16 list \<Rightarrow> nat \<times> nat" where
  "longest_zeroes i current longest [] = longest"
| "longest_zeroes i (start, len) longest (seg # segs) =
     (if seg = 0
      then let cur = (if len = 0 then i else start, Suc len);
               best = (if snd longest < snd cur then cur else longest)
           in longest_zeroes (Suc i) cur best segs
      else longest_zeroes (Suc i) (0, 0) longest segs)"

fun show_segments :: "u16 list \<Rightarrow> string" where
  "show_segments [] = []"
| "show_segments [seg] = show_hex (unat seg)"
| "show_segments (seg # segs) = show_hex (unat seg) @ '':'' @ show_segments segs"

fun ipv6_segments :: "ipv6_addr \<Rightarrow> u16 list" where
  "ipv6_segments (Ipv6Addr a b c d e f g h) = [a, b, c, d, e, f, g, h]"

definition show_ipv6 :: "ipv6_addr \<Rightarrow> string" where
  "show_ipv6 ip =
     (let segs = ipv6_segments ip in
      if take 6 segs = [0, 0, 0, 0, 0, 65535]
      then ''::ffff:'' @ show_ipv4 (Ipv4Addr (ucast (drop_bit 8 (segs ! 6))) (ucast (segs ! 6))
                                             (ucast (drop_bit 8 (segs ! 7))) (ucast (segs ! 7)))
      else let (start, len) = longest_zeroes 0 (0, 0) (0, 0) segs in
        if 1 < len
        then show_segments (take start segs) @ ''::'' @ show_segments (drop (start + len) segs)
        else show_segments segs)"

fun show_socket_addr :: "socket_addr \<Rightarrow> string" where
  "show_socket_addr (SocketV4 ip port) = show_ipv4 ip @ '':'' @ show_dec (unat port)"
| "show_socket_addr (SocketV6 ip port flow scope) =
     (if scope = 0 then ''['' @ show_ipv6 ip @ '']:'' @ show_dec (unat port)
      else ''['' @ show_ipv6 ip @ ''%'' @ show_dec (unat scope) @ '']:'' @ show_dec (unat port))"

subsection \<open>Parsing IPv4 addresses\<close>

text \<open>
  \<open>FromStr\<close> for \<open>Ipv4Addr\<close> and \<open>SocketAddrV4\<close>: four octets of one to three digits without a
  leading zero, and a port that may have leading zeros. Where the crate parses a literal, this
  is the parser it runs; anything else (IPv6 literals, host names) is the resolver's.
\<close>

fun split_char :: "char \<Rightarrow> string \<Rightarrow> string list" where
  "split_char c [] = [[]]"
| "split_char c (x # xs) =
     (if x = c then [] # split_char c xs
      else case split_char c xs of [] \<Rightarrow> [[x]] | w # ws \<Rightarrow> (x # w) # ws)"

definition is_dec_digit :: "char \<Rightarrow> bool" where
  "is_dec_digit c \<longleftrightarrow> (48 :: nat) \<le> of_char c \<and> of_char c < (58 :: nat)"

definition parse_dec :: "string \<Rightarrow> nat option" where
  "parse_dec cs = (if cs \<noteq> [] \<and> list_all is_dec_digit cs then Some (read_base 10 cs) else None)"

definition parse_octet :: "string \<Rightarrow> u8 option" where
  "parse_octet cs =
     (if 3 < length cs \<or> (1 < length cs \<and> hd cs = CHR ''0'') then None
      else case parse_dec cs of None \<Rightarrow> None | Some n \<Rightarrow> if n < 256 then Some (of_nat n) else None)"

definition parse_ipv4 :: "string \<Rightarrow> ipv4_addr option" where
  "parse_ipv4 cs =
     (case split_char (CHR ''.'') cs of
        [a, b, c, d] \<Rightarrow>
          (case (parse_octet a, parse_octet b, parse_octet c, parse_octet d) of
             (Some w, Some x, Some y, Some z) \<Rightarrow> Some (Ipv4Addr w x y z)
           | _ \<Rightarrow> None)
      | _ \<Rightarrow> None)"

definition parse_socket_v4 :: "string \<Rightarrow> socket_addr option" where
  "parse_socket_v4 cs =
     (case split_char (CHR '':'') cs of
        [ip, port] \<Rightarrow>
          (case (parse_ipv4 ip, parse_dec port) of
             (Some a, Some n) \<Rightarrow> if n < 65536 then Some (SocketV4 a (of_nat n)) else None
           | _ \<Rightarrow> None)
      | _ \<Rightarrow> None)"

text \<open>\<open>impl ToSocketAddrs for str\<close>: an address literal stands for itself, any other string goes
  to the resolver.\<close>

definition str_resolver :: "string resolver \<Rightarrow> string resolver" where
  "str_resolver other cs =
     (case parse_socket_v4 cs of Some a \<Rightarrow> Inr [a] | None \<Rightarrow> other cs)"

lemma split_char_none: "c \<notin> set xs \<Longrightarrow> split_char c xs = [xs]"
  by (induction xs) auto

lemma split_char_append:
  "c \<notin> set xs \<Longrightarrow> split_char c (xs @ c # ys) = xs # split_char c ys"
  by (induction xs) auto

lemma digit_char_dec: "d < 10 \<Longrightarrow> is_dec_digit (digit_char d)"
  by (simp add: is_dec_digit_def digit_char_def of_char_of)

lemma show_base_nonempty [simp]: "show_base b n \<noteq> []"
  by (simp add: show_base.simps [of b n])

lemma parse_show_dec [simp]: "parse_dec (show_dec n) = Some n"
  using show_base_digits [of 10 n]
  by (auto simp: parse_dec_def read_show_base list_all_iff digit_char_dec)

lemma show_base_hd: "2 \<le> b \<Longrightarrow> b \<le> 16 \<Longrightarrow> 0 < n \<Longrightarrow> hd (show_base b n) \<noteq> CHR ''0''"
proof (induction b n rule: show_base.induct)
  case (1 b n)
  show ?case
  proof (cases "n < b")
    case True
    with 1 have "digit_value (hd (show_base b n)) = n"
      by (simp add: show_base.simps [of b n] digit_value_char)
    with 1 show ?thesis by (auto simp: digit_value_def)
  next
    case False
    with 1 have "0 < n div b" by (simp add: div_greater_zero_iff)
    with 1 False show ?thesis
      by (simp add: show_base.simps [of b n])
  qed
qed

lemma length_show_octet: "n < 256 \<Longrightarrow> length (show_dec n) \<le> 3"
  by (simp add: show_base.simps [of 10 n] show_base.simps [of 10 "n div 10"]
      show_base.simps [of 10 "n div 100"] div_mult2_eq [symmetric])

lemma parse_show_octet [simp]: "parse_octet (show_dec (unat (b :: u8))) = Some b"
proof -
  have lt: "unat b < 256" using unsigned_less [where ?'a = nat, of b] by simp
  have "show_dec (unat b) = ''0'' \<or> hd (show_dec (unat b)) \<noteq> CHR ''0''"
    using show_base_hd [of 10 "unat b"]
    by (cases "unat b = 0") (auto simp: show_base.simps [of 10 0] digit_char_def)
  then show ?thesis
    using lt length_show_octet [OF lt] by (auto simp: parse_octet_def)
qed

lemma parse_show_ipv4 [simp]: "parse_ipv4 (show_ipv4 ip) = Some ip"
  by (cases ip) (simp add: parse_ipv4_def split_char_append split_char_none show_dec_no_sep)

lemma show_ipv4_no_colon: "CHR '':'' \<notin> set (show_ipv4 ip)"
  by (cases ip) (simp add: show_dec_no_sep)

lemma parse_show_socket_v4 [simp]:
  "parse_socket_v4 (show_socket_addr (SocketV4 ip port)) = Some (SocketV4 ip port)"
  using unsigned_less [where ?'a = nat, of port]
  by (simp add: parse_socket_v4_def split_char_append split_char_none show_dec_no_sep
      show_ipv4_no_colon)

lemma show_socket_v4_inj:
  "is_ipv4 a \<Longrightarrow> is_ipv4 b \<Longrightarrow> show_socket_addr a = show_socket_addr b \<longleftrightarrow> a = b"
  by (metis is_ipv4.elims(2) option.inject parse_show_socket_v4)

subsection \<open>Debug output\<close>

text \<open>
  The \<open>{:?}\<close> form of the standard library: booleans, strings with their escapes (for ASCII; longer
  characters are left as they are), options, and what \<open>debug_struct\<close> prints of its fields.
\<close>

fun show_bool :: "bool \<Rightarrow> string" where
  "show_bool True = ''true''"
| "show_bool False = ''false''"

definition debug_char :: "char \<Rightarrow> string" where
  "debug_char c =
     (let n = of_char c :: nat in
      if n = 0 then [CHR 0x5C, CHR ''0'']
      else if n = 9 then [CHR 0x5C, CHR ''t'']
      else if n = 10 then [CHR 0x5C, CHR ''n'']
      else if n = 13 then [CHR 0x5C, CHR ''r'']
      else if n = 34 \<or> n = 92 then [CHR 0x5C, c]
      else if n < 32 \<or> n = 127 then CHR 0x5C # ''u{'' @ show_hex n @ ''}''
      else [c])"

definition debug_string :: "string \<Rightarrow> string" where
  "debug_string s = CHR 0x22 # concat (map debug_char s) @ [CHR 0x22]"

fun debug_option :: "('a \<Rightarrow> string) \<Rightarrow> 'a option \<Rightarrow> string" where
  "debug_option debug None = ''None''"
| "debug_option debug (Some x) = ''Some('' @ debug x @ '')''"

fun debug_fields :: "(string \<times> string) list \<Rightarrow> string" where
  "debug_fields [] = []"
| "debug_fields [(name, value)] = name @ '': '' @ value"
| "debug_fields ((name, value) # rest) = name @ '': '' @ value @ '', '' @ debug_fields rest"

definition debug_struct :: "string \<Rightarrow> (string \<times> string) list \<Rightarrow> string" where
  "debug_struct name items =
     (if items = [] then name else name @ '' { '' @ debug_fields items @ '' }'')"

end
