(* ===== verification/Util.thy ===== *)
theory Util
  imports Net
begin

section \<open>The crate's helpers (\<open>src/util.rs\<close>)\<close>

text \<open>
  \<open>to_socket_addr\<close> takes the first address a value resolves to; \<open>hash_topic\<close> derives a topic
  from a namespace and a name with BLAKE2b, whose three calls (crate \<open>blake2_rfc\<close>) are the fields
  of the record it takes. \<open>blake2b_laws\<close> states what that crate documents.
\<close>

type_synonym topic = "u8 array32"

definition to_socket_addr :: "'a resolver \<Rightarrow> 'a \<Rightarrow> socket_addr io_result" where
  "to_socket_addr resolve addr =
     res_bind (resolve addr) (\<lambda>addrs.
       case addrs of
         [] \<Rightarrow> Inl (IoError InvalidInput ''Invalid socket address'')
       | a # _ \<Rightarrow> Inr a)"

record 'h blake2b =
  b2_with_key :: "nat \<Rightarrow> bytes \<Rightarrow> 'h run"
  b2_update :: "bytes \<Rightarrow> 'h \<Rightarrow> 'h"
  b2_finalize :: "'h \<Rightarrow> bytes"

definition hash_topic :: "'h blake2b \<Rightarrow> bytes \<Rightarrow> bytes \<Rightarrow> topic run" where
  "hash_topic b2 namespace topic =
     run_bind (b2_with_key b2 32 topic) (\<lambda>hasher.
       unwrap_opt (array32_try_from (b2_finalize b2 (b2_update b2 namespace hasher))))"

text \<open>
  The documentation of \<open>blake2_rfc\<close>: a hasher is created for a digest of 1 to 64 bytes with a key
  of at most 64 bytes, other arguments panic; the digest has the length asked for.
\<close>

definition blake2b_laws :: "'h blake2b \<Rightarrow> ('h \<Rightarrow> nat) \<Rightarrow> bool" where
  "blake2b_laws b2 digest_len \<longleftrightarrow>
     (\<forall>nn k. if 1 \<le> nn \<and> nn \<le> 64 \<and> length k \<le> 64
             then \<exists>h. b2_with_key b2 nn k = ret h \<and> digest_len h = nn
             else b2_with_key b2 nn k = panic) \<and>
     (\<forall>m h. digest_len (b2_update b2 m h) = digest_len h) \<and>
     (\<forall>h. length (b2_finalize b2 h) = digest_len h)"

lemma to_socket_addr_simps [simp]:
  "resolve a = Inl e \<Longrightarrow> to_socket_addr resolve a = Inl e"
  "resolve a = Inr [] \<Longrightarrow>
     to_socket_addr resolve a = Inl (IoError InvalidInput ''Invalid socket address'')"
  "resolve a = Inr (x # xs) \<Longrightarrow> to_socket_addr resolve a = Inr x"
  by (simp_all add: to_socket_addr_def)

lemma to_socket_addr_self [simp]: "to_socket_addr socket_addr_resolver a = Inr a"
  by (simp add: socket_addr_resolver_def)

lemma blake2b_lawsD:
  assumes "blake2b_laws b2 digest_len"
  shows "1 \<le> nn \<Longrightarrow> nn \<le> 64 \<Longrightarrow> length k \<le> 64 \<Longrightarrow>
           \<exists>h. b2_with_key b2 nn k = ret h \<and> digest_len h = nn"
    and "64 < length k \<Longrightarrow> b2_with_key b2 nn k = panic"
    and "length (b2_finalize b2 (b2_update b2 m h)) = digest_len h"
  using assms by (auto simp: blake2b_laws_def dest: spec2 [where x = nn and y = k])

lemma hash_topic_returns:
  assumes "blake2b_laws b2 digest_len" and "length name \<le> 64"
  shows "\<exists>h t. b2_with_key b2 32 name = ret h \<and> hash_topic b2 namespace name = ret t \<and>
    array32_list t = b2_finalize b2 (b2_update b2 namespace h)"
proof -
  obtain h where "b2_with_key b2 32 name = ret h" "digest_len h = 32"
    using blake2b_lawsD(1) [OF assms(1), of 32 name] assms(2) by auto
  moreover from this blake2b_lawsD(3) [OF assms(1)]
  obtain t where "array32_try_from (b2_finalize b2 (b2_update b2 namespace h)) = Some t"
    using array32_try_from_total by metis
  ultimately show ?thesis by (auto simp: hash_topic_def)
qed

lemma hash_topic_panics:
  "blake2b_laws b2 digest_len \<Longrightarrow> 64 < length name \<Longrightarrow> hash_topic b2 namespace name = panic"
  by (simp add: hash_topic_def blake2b_lawsD(2))

subsection \<open>Properties\<close>

text \<open>
  Deriving a topic from a name returns, whatever the namespace, exactly when the name has at
  most 64 bytes (the longest BLAKE2b key), and then the topic is the 32-byte digest of the
  namespace keyed with the name; for a longer name it panics.
\<close>

lemma hash_topic_total_iff:
  assumes "blake2b_laws b2 digest_len"
  shows "(length name \<le> 64 \<longrightarrow>
           (\<exists>h t. b2_with_key b2 32 name = ret h \<and> hash_topic b2 namespace name = ret t \<and>
              array32_list t = b2_finalize b2 (b2_update b2 namespace h))) \<and>
         (64 < length name \<longrightarrow> hash_topic b2 namespace name = panic)"
  using hash_topic_returns [OF assms] hash_topic_panics [OF assms] by simp

text \<open>A concrete hasher for examples: the digest length, and the bytes seen, cut or padded to it.\<close>

definition blake2b_script :: "(nat \<times> bytes) blake2b" where
  "blake2b_script =
     \<lparr>b2_with_key = (\<lambda>nn k. if 1 \<le> nn \<and> nn \<le> 64 \<and> length k \<le> 64 then ret (nn, k) else panic),
      b2_update = (\<lambda>m (nn, bs). (nn, bs @ m)),
      b2_finalize = (\<lambda>(nn, bs). take nn (bs @ replicate nn 0))\<rparr>"

lemma blake2b_script_laws: "blake2b_laws blake2b_script fst"
  by (auto simp: blake2b_laws_def blake2b_script_def)

lemma hash_topic_total_iff_example:
  "(\<exists>t. hash_topic blake2b_script [1, 2] [3] = ret t) \<and>
   hash_topic blake2b_script [1, 2] (replicate 65 0) = panic"
proof -
  note laws = blake2b_script_laws
  show ?thesis
    using hash_topic_total_iff [OF laws, of "[3]" "[1, 2]"]
      hash_topic_total_iff [OF laws, of "replicate 65 0" "[1, 2]"] by auto
qed

end
