(* ===== verification/Transport.thy ===== *)
theory Transport
  imports Util
begin

section \<open>Connections and the transport interface (\<open>src/transport/mod.rs\<close>)\<close>

text \<open>
  \<open>Connection<T>\<close> as a record, with its reads and writes forwarded to the stream inside; the
  traits \<open>AsyncRead + AsyncWrite\<close> and \<open>Transport\<close> as records of operations. Two interfaces are
  locales here: \<open>io_wrapper\<close>, a stream that only forwards to another one, and \<open>transport\<close>, what
  the swarm and the combined transport rely on from each transport.
\<close>

subsection \<open>\<open>AsyncRead + AsyncWrite\<close>\<close>

text \<open>
  A read gets the caller's buffer and leaves it changed; the count it returns says how much of it
  was filled.
\<close>

record 's async_io =
  io_read :: "bytes \<Rightarrow> 's \<Rightarrow> 's \<times> bytes \<times> nat io_result poll"
  io_write :: "bytes \<Rightarrow> 's \<Rightarrow> 's \<times> nat io_result poll"
  io_flush :: "'s \<Rightarrow> 's \<times> unit io_result poll"
  io_close :: "'s \<Rightarrow> 's \<times> unit io_result poll"

datatype io_call = Read bytes | Write bytes | Flush | Close

datatype io_reply =
    ReadReply bytes "nat io_result poll"
  | WriteReply "nat io_result poll"
  | UnitReply "unit io_result poll"

fun io_step :: "'s async_io \<Rightarrow> io_call \<Rightarrow> 's \<Rightarrow> 's \<times> io_reply" where
  "io_step io (Read buf) s = (case io_read io buf s of (s', buf', r) \<Rightarrow> (s', ReadReply buf' r))"
| "io_step io (Write buf) s = (case io_write io buf s of (s', r) \<Rightarrow> (s', WriteReply r))"
| "io_step io Flush s = (case io_flush io s of (s', r) \<Rightarrow> (s', UnitReply r))"
| "io_step io Close s = (case io_close io s of (s', r) \<Rightarrow> (s', UnitReply r))"

text \<open>A sequence of calls on one stream, with the replies in order.\<close>

fun io_run :: "'s async_io \<Rightarrow> io_call list \<Rightarrow> 's \<Rightarrow> 's \<times> io_reply list" where
  "io_run io [] s = (s, [])"
| "io_run io (c # cs) s =
     (case io_step io c s of (s', r) \<Rightarrow>
        (case io_run io cs s' of (s'', rs) \<Rightarrow> (s'', r # rs)))"

text \<open>
  A wrapper around a stream: \<open>get\<close> reads the inner stream out of the wrapper, \<open>put\<close> stores it
  back, and each operation is the inner one under them, on the wrappers \<open>ok\<close> selects.
\<close>

locale io_wrapper =
  fixes outer_io :: "'o async_io"
    and inner_io :: "'i async_io"
    and get :: "'o \<Rightarrow> 'i"
    and put :: "'i \<Rightarrow> 'o \<Rightarrow> 'o"
    and ok :: "'o \<Rightarrow> bool"
  assumes get_put: "ok s \<Longrightarrow> get (put x s) = x"
    and put_put: "ok s \<Longrightarrow> put y (put x s) = put y s"
    and put_get: "ok s \<Longrightarrow> put (get s) s = s"
    and ok_put: "ok s \<Longrightarrow> ok (put x s)"
    and read_forwards:
      "ok s \<Longrightarrow> io_read outer_io buf s = (case io_read inner_io buf (get s) of (i, b, r) \<Rightarrow> (put i s, b, r))"
    and write_forwards:
      "ok s \<Longrightarrow> io_write outer_io buf s = (case io_write inner_io buf (get s) of (i, r) \<Rightarrow> (put i s, r))"
    and flush_forwards:
      "ok s \<Longrightarrow> io_flush outer_io s = (case io_flush inner_io (get s) of (i, r) \<Rightarrow> (put i s, r))"
    and close_forwards:
      "ok s \<Longrightarrow> io_close outer_io s = (case io_close inner_io (get s) of (i, r) \<Rightarrow> (put i s, r))"
begin

lemma step_forwards:
  "ok s \<Longrightarrow> io_step outer_io c s = (case io_step inner_io c (get s) of (i, r) \<Rightarrow> (put i s, r))"
  by (cases c)
     (auto simp: read_forwards write_forwards flush_forwards close_forwards split: prod.splits)

lemma run_forwards:
  "ok s \<Longrightarrow> io_run outer_io cs s = (case io_run inner_io cs (get s) of (i, rs) \<Rightarrow> (put i s, rs))"
proof (induction cs arbitrary: s)
  case Nil
  then show ?case by (simp add: put_get)
next
  case (Cons c cs)
  obtain i r where step: "io_step inner_io c (get s) = (i, r)" by fastforce
  from Cons show ?case
    by (simp add: step step_forwards ok_put get_put put_put split: prod.splits)
qed

lemma run_replies: "ok s \<Longrightarrow> snd (io_run outer_io cs s) = snd (io_run inner_io cs (get s))"
  by (simp add: run_forwards split: prod.splits)

end

subsection \<open>\<open>Connection\<close>\<close>

record 'a connection =
  conn_inner :: 'a
  conn_peer_addr :: socket_addr
  conn_is_initiator :: bool
  conn_protocol :: string

definition connection_new :: "'a \<Rightarrow> socket_addr \<Rightarrow> bool \<Rightarrow> string \<Rightarrow> 'a connection" where
  "connection_new inner peer_addr is_initiator protocol =
     \<lparr>conn_inner = inner, conn_peer_addr = peer_addr, conn_is_initiator = is_initiator,
      conn_protocol = protocol\<rparr>"

definition into_parts :: "'a connection \<Rightarrow> 'a \<times> socket_addr \<times> bool \<times> string" where
  "into_parts c = (conn_inner c, conn_peer_addr c, conn_is_initiator c, conn_protocol c)"

definition connection_peer_addr :: "'a connection \<Rightarrow> socket_addr" where
  [simp]: "connection_peer_addr c = conn_peer_addr c"

definition connection_is_initiator :: "'a connection \<Rightarrow> bool" where
  [simp]: "connection_is_initiator c = conn_is_initiator c"

definition connection_protocol :: "'a connection \<Rightarrow> string" where
  [simp]: "connection_protocol c = conn_protocol c"

definition show_connection :: "'a connection \<Rightarrow> string" where
  "show_connection c = connection_protocol c @ '':'' @ show_socket_addr (connection_peer_addr c)"

definition debug_connection :: "('a \<Rightarrow> string) \<Rightarrow> 'a connection \<Rightarrow> string" where
  "debug_connection debug_inner c =
     debug_struct ''Connection''
       [(''inner'', debug_inner (conn_inner c)), (''peer_addr'', show_socket_addr (conn_peer_addr c)),
        (''is_initiator'', show_bool (conn_is_initiator c)), (''protocol'', debug_string (conn_protocol c))]"

definition connection_poll_read ::
  "'a async_io \<Rightarrow> bytes \<Rightarrow> 'a connection \<Rightarrow> 'a connection \<times> bytes \<times> nat io_result poll" where
  "connection_poll_read io buf c =
     (case io_read io buf (conn_inner c) of (i, buf', r) \<Rightarrow> (c\<lparr>conn_inner := i\<rparr>, buf', r))"

definition connection_poll_write ::
  "'a async_io \<Rightarrow> bytes \<Rightarrow> 'a connection \<Rightarrow> 'a connection \<times> nat io_result poll" where
  "connection_poll_write io buf c =
     (case io_write io buf (conn_inner c) of (i, r) \<Rightarrow> (c\<lparr>conn_inner := i\<rparr>, r))"

definition connection_poll_flush ::
  "'a async_io \<Rightarrow> 'a connection \<Rightarrow> 'a connection \<times> unit io_result poll" where
  "connection_poll_flush io c =
     (case io_flush io (conn_inner c) of (i, r) \<Rightarrow> (c\<lparr>conn_inner := i\<rparr>, r))"

definition connection_poll_close ::
  "'a async_io \<Rightarrow> 'a connection \<Rightarrow> 'a connection \<times> unit io_result poll" where
  "connection_poll_close io c =
     (case io_close io (conn_inner c) of (i, r) \<Rightarrow> (c\<lparr>conn_inner := i\<rparr>, r))"

definition connection_io :: "'a async_io \<Rightarrow> 'a connection async_io" where
  "connection_io io =
     \<lparr>io_read = connection_poll_read io, io_write = connection_poll_write io,
      io_flush = connection_poll_flush io, io_close = connection_poll_close io\<rparr>"

lemma into_parts_new [simp]: "into_parts (connection_new i a init p) = (i, a, init, p)"
  by (simp add: into_parts_def connection_new_def)

lemma connection_new_simps [simp]:
  "conn_inner (connection_new i a init p) = i"
  "conn_peer_addr (connection_new i a init p) = a"
  "conn_is_initiator (connection_new i a init p) = init"
  "conn_protocol (connection_new i a init p) = p"
  by (simp_all add: connection_new_def)

lemma connection_new_self [simp]:
  "connection_new (conn_inner c) (conn_peer_addr c) (conn_is_initiator c) (conn_protocol c) = c"
  by (cases c) (simp add: connection_new_def)

lemma connection_new_parts:
  "into_parts c = (i, a, init, p) \<longleftrightarrow> c = connection_new i a init p"
  by (cases c) (auto simp: into_parts_def connection_new_def)

interpretation conn_wrap:
  io_wrapper "connection_io io" io conn_inner "\<lambda>i. conn_inner_update (\<lambda>_. i)" "\<lambda>_. True"
  for io :: "'a async_io"
  by unfold_locales
     (simp_all add: connection_io_def connection_poll_read_def connection_poll_write_def
        connection_poll_flush_def connection_poll_close_def)

text \<open>The peers of the outgoing connections among some connections, in order.\<close>

definition outgoing :: "'a connection list \<Rightarrow> socket_addr list" where
  "outgoing conns = map conn_peer_addr (filter conn_is_initiator conns)"

lemma outgoing_simps [simp]:
  "outgoing [] = []"
  "outgoing (c # cs) = (if conn_is_initiator c then conn_peer_addr c # outgoing cs else outgoing cs)"
  "outgoing (xs @ ys) = outgoing xs @ outgoing ys"
  by (simp_all add: outgoing_def)

subsection \<open>The trait \<open>Transport\<close>\<close>

text \<open>
  \<open>connect\<close> starts an outgoing connection; \<open>poll_next\<close> is the stream of established ones, from
  both directions.
\<close>

record ('s, 'a) transport_ops =
  t_connect :: "socket_addr \<Rightarrow> 's \<Rightarrow> 's"
  t_poll_next :: "'s \<Rightarrow> ('s \<times> 'a connection io_result option poll) run"

datatype transport_call = TConnect socket_addr | TPoll

text \<open>A sequence of calls on one transport, with the connections it delivered in order.\<close>

fun delivered :: "'a connection io_result option poll \<Rightarrow> 'a connection list" where
  "delivered (Ready (Some (Inr c))) = [c]"
| "delivered r = []"

fun transport_run ::
  "('s, 'a) transport_ops \<Rightarrow> transport_call list \<Rightarrow> 's \<Rightarrow> ('s \<times> 'a connection list) run" where
  "transport_run ops [] s = ret (s, [])"
| "transport_run ops (TConnect a # cs) s = transport_run ops cs (t_connect ops a s)"
| "transport_run ops (TPoll # cs) s =
     run_bind (t_poll_next ops s) (\<lambda>(s', r).
       run_bind (transport_run ops cs s') (\<lambda>(s'', conns). ret (s'', delivered r @ conns)))"

fun connects :: "transport_call list \<Rightarrow> socket_addr list" where
  "connects [] = []"
| "connects (TConnect a # cs) = a # connects cs"
| "connects (TPoll # cs) = connects cs"

lemma transport_run_append:
  "transport_run ops (as @ bs) s =
     run_bind (transport_run ops as s) (\<lambda>(s1, conns1).
       run_bind (transport_run ops bs s1) (\<lambda>(s2, conns2). ret (s2, conns1 @ conns2)))"
proof (induction as arbitrary: s)
  case Nil
  then show ?case by (auto simp: run_bind_def split: option.splits exec.splits)
next
  case (Cons call as)
  then show ?case
    by (cases call) (auto simp: run_bind_def split: option.splits exec.splits)
qed

lemma connects_append [simp]: "connects (as @ bs) = connects as @ connects bs"
  by (induction as rule: connects.induct) simp_all

lemma connects_map [simp]: "connects (map TConnect as) = as"
  by (induction as) simp_all

lemma transport_run_connects:
  "transport_run ops (map TConnect as @ [TPoll]) s =
     run_bind (t_poll_next ops (fold (t_connect ops) as s)) (\<lambda>(s', r). ret (s', delivered r))"
  by (induction as arbitrary: s) simp_all

text \<open>
  The contract: the invariant \<open>inv\<close> is kept by both operations; a poll returns or panics, it does
  not hang; the stream never ends; and every connection it delivers satisfies \<open>good\<close>, which the
  provider chooses (its protocol name and peer address are those of its stream).
\<close>

locale transport =
  fixes ops :: "('s, 'a) transport_ops"
    and inv :: "'s \<Rightarrow> bool"
    and good :: "'a connection \<Rightarrow> bool"
  assumes connect_inv: "inv s \<Longrightarrow> inv (t_connect ops a s)"
    and poll_inv: "inv s \<Longrightarrow> t_poll_next ops s = ret (s', r) \<Longrightarrow> inv s'"
    and poll_returns: "inv s \<Longrightarrow> t_poll_next ops s \<noteq> None"
    and poll_not_end: "inv s \<Longrightarrow> t_poll_next ops s = ret (s', r) \<Longrightarrow> r \<noteq> Ready None"
    and poll_good: "inv s \<Longrightarrow> t_poll_next ops s = ret (s', Ready (Some (Inr c))) \<Longrightarrow> good c"
begin

lemma run_inv: "inv s \<Longrightarrow> transport_run ops cs s = ret (s', conns) \<Longrightarrow> inv s'"
proof (induction cs arbitrary: s conns)
  case (Cons c cs)
  then show ?case
    by (cases c) (auto simp: run_simps dest: poll_inv intro: connect_inv)
qed simp

lemma poll_delivered:
  "inv s \<Longrightarrow> t_poll_next ops s = ret (s', r) \<Longrightarrow> c \<in> set (delivered r) \<Longrightarrow> good c"
  by (cases r rule: delivered.cases) (auto dest: poll_good)

lemma run_good:
  "inv s \<Longrightarrow> transport_run ops cs s = ret (s', conns) \<Longrightarrow> c \<in> set conns \<Longrightarrow> good c"
proof (induction cs arbitrary: s conns)
  case (Cons d cs)
  then show ?case
    by (cases d)
       (auto simp: run_simps intro: connect_inv, (blast dest: poll_inv poll_delivered)+)
qed simp

lemma run_returns: "inv s \<Longrightarrow> transport_run ops cs s \<noteq> None"
proof (induction cs arbitrary: s)
  case (Cons d cs)
  then show ?case
    using poll_returns [of s] poll_inv [of s]
    by (cases d) (fastforce simp: run_bind_def connect_inv split: option.splits exec.splits)+
qed simp

end

end
