(* ===== verification/Tcp_Transport.thy ===== *)
theory Tcp_Transport
  imports Transport
begin

section \<open>TCP (\<open>src/transport/tcp.rs\<close>)\<close>

text \<open>
  The listener with its stream of accepted sockets (\<open>TcpIncoming\<close>) and the outgoing connects of
  \<open>TcpTransport\<close>. The sockets of \<open>async_std\<close> and the set of futures of the crate \<open>futures\<close> are the
  fields of \<open>tcp_env\<close>: a listener \<open>'l\<close>, a stream \<open>'s\<close>, a connect future \<open>'f\<close>, the set of pending
  futures \<open>'p\<close>, and the world \<open>'w\<close> that binding acts on. \<open>te_accept\<close> is one poll of the future
  \<open>listener.accept()\<close>.
\<close>

record ('w, 'l, 's, 'f, 'p) tcp_env =
  te_bind :: "socket_addr \<Rightarrow> ('w, 'l io_result) action"
  te_listener_addr :: "'l \<Rightarrow> socket_addr io_result"
  te_accept :: "'l \<Rightarrow> 'l \<times> ('s \<times> socket_addr) io_result poll"
  te_peer_addr :: "'s \<Rightarrow> socket_addr io_result"
  te_connect :: "socket_addr \<Rightarrow> 'f"
  te_pending_new :: 'p
  te_pending_push :: "'f \<Rightarrow> 'p \<Rightarrow> 'p"
  te_pending_poll :: "'p \<Rightarrow> 'p \<times> 's io_result option poll"

definition tcp_protocol :: string where
  "tcp_protocol = ''tcp''"

subsection \<open>Accepted sockets\<close>

text \<open>
  The \<open>async fn accept\<close> owns the listener until the accept is done and then gives it back with
  the result. Polling the future of an \<open>async fn\<close> again after it completed panics.
\<close>

datatype 'l accept_fut = Accepting 'l | Completed

definition tcp_accept :: "'l \<Rightarrow> 'l accept_fut" where
  "tcp_accept listener = Accepting listener"

fun accept_fut_poll ::
  "('w, 'l, 's, 'f, 'p) tcp_env \<Rightarrow> 'l accept_fut \<Rightarrow>
     ('l accept_fut \<times> ('l \<times> ('s \<times> socket_addr) io_result) poll) run" where
  "accept_fut_poll env (Accepting listener) =
     (case te_accept env listener of
        (l, Pending) \<Rightarrow> ret (Accepting l, Pending)
      | (l, Ready res) \<Rightarrow> ret (Completed, Ready (l, res)))"
| "accept_fut_poll env Completed = panic"

record 'l tcp_incoming =
  inc_local_addr :: socket_addr
  inc_accept :: "'l accept_fut"

definition tcp_incoming_new ::
  "('w, 'l, 's, 'f, 'p) tcp_env \<Rightarrow> 'l \<Rightarrow> 'l tcp_incoming io_result" where
  "tcp_incoming_new env listener =
     res_bind (te_listener_addr env listener) (\<lambda>local_addr.
       Inr \<lparr>inc_local_addr = local_addr, inc_accept = tcp_accept listener\<rparr>)"

definition tcp_incoming_local_addr :: "'l tcp_incoming \<Rightarrow> socket_addr io_result" where
  "tcp_incoming_local_addr inc = Inr (inc_local_addr inc)"

definition tcp_incoming_poll_next ::
  "('w, 'l, 's, 'f, 'p) tcp_env \<Rightarrow> 'l tcp_incoming \<Rightarrow>
     ('l tcp_incoming \<times> 's io_result option poll) run" where
  "tcp_incoming_poll_next env inc =
     run_bind (accept_fut_poll env (inc_accept inc)) (\<lambda>(fut, p).
       case p of
         Pending \<Rightarrow> ret (inc\<lparr>inc_accept := fut\<rparr>, Pending)
       | Ready (listener, res) \<Rightarrow>
           ret (inc\<lparr>inc_accept := tcp_accept listener\<rparr>, Ready (Some (map_ok fst res))))"

definition debug_tcp_incoming :: "'l tcp_incoming \<Rightarrow> string" where
  "debug_tcp_incoming inc =
     debug_struct ''TcpIncoming'' [(''local_addr'', show_socket_addr (inc_local_addr inc))]"

subsection \<open>The transport\<close>

record ('l, 'p) tcp_transport =
  tcp_addr :: socket_addr
  tcp_inc :: "'l tcp_incoming"
  tcp_pending_connects :: 'p

definition tcp_bind ::
  "('w, 'l, 's, 'f, 'p) tcp_env \<Rightarrow> 'a resolver \<Rightarrow> 'a \<Rightarrow>
     ('w, ('l, 'p) tcp_transport io_result) action" where
  "tcp_bind env resolve local_addr =
     try_bind (act_return (resolve local_addr)) (\<lambda>addrs.
     act_bind (act_run (case addrs of [] \<Rightarrow> panic | a # _ \<Rightarrow> ret a)) (\<lambda>addr.
     try_bind (te_bind env addr) (\<lambda>listener.
     try_bind (act_return (te_listener_addr env listener)) (\<lambda>addr.
     try_bind (act_return (tcp_incoming_new env listener)) (\<lambda>incoming.
     act_return (Inr \<lparr>tcp_addr = addr, tcp_inc = incoming,
                      tcp_pending_connects = te_pending_new env\<rparr>))))))"

definition tcp_local_addr :: "('l, 'p) tcp_transport \<Rightarrow> socket_addr" where
  "tcp_local_addr t = tcp_addr t"

definition tcp_connect ::
  "('w, 'l, 's, 'f, 'p) tcp_env \<Rightarrow> socket_addr \<Rightarrow> ('l, 'p) tcp_transport \<Rightarrow>
     ('l, 'p) tcp_transport" where
  "tcp_connect env peer_addr t =
     (let fut = te_connect env peer_addr in
      t\<lparr>tcp_pending_connects := te_pending_push env fut (tcp_pending_connects t)\<rparr>)"

fun tcp_into_connection ::
  "('w, 'l, 's, 'f, 'p) tcp_env \<Rightarrow> 's io_result option poll \<Rightarrow> bool \<Rightarrow>
     's connection io_result option run" where
  "tcp_into_connection env Pending is_initiator = ret None"
| "tcp_into_connection env (Ready None) is_initiator = ret None"
| "tcp_into_connection env (Ready (Some (Inl e))) is_initiator = ret (Some (Inl e))"
| "tcp_into_connection env (Ready (Some (Inr stream))) is_initiator =
     run_bind (unwrap_res (te_peer_addr env stream)) (\<lambda>peer_addr.
       ret (Some (Inr (connection_new stream peer_addr is_initiator tcp_protocol))))"

definition tcp_poll_next ::
  "('w, 'l, 's, 'f, 'p) tcp_env \<Rightarrow> ('l, 'p) tcp_transport \<Rightarrow>
     (('l, 'p) tcp_transport \<times> 's connection io_result option poll) run" where
  "tcp_poll_next env t =
     run_bind (tcp_incoming_poll_next env (tcp_inc t)) (\<lambda>(inc, incoming).
     let t1 = t\<lparr>tcp_inc := inc\<rparr> in
     run_bind (tcp_into_connection env incoming False) (\<lambda>conn.
     case conn of
       Some c \<Rightarrow> ret (t1, Ready (Some c))
     | None \<Rightarrow>
         (case te_pending_poll env (tcp_pending_connects t1) of
            (pending, connect) \<Rightarrow>
              let t2 = t1\<lparr>tcp_pending_connects := pending\<rparr> in
              run_bind (tcp_into_connection env connect True) (\<lambda>conn.
              case conn of
                Some c \<Rightarrow> ret (t2, Ready (Some c))
              | None \<Rightarrow> ret (t2, Pending)))))"

definition tcp_ops ::
  "('w, 'l, 's, 'f, 'p) tcp_env \<Rightarrow> (('l, 'p) tcp_transport, 's) transport_ops" where
  "tcp_ops env = \<lparr>t_connect = tcp_connect env, t_poll_next = tcp_poll_next env\<rparr>"

lemma tcp_ops_simps [simp]:
  "t_connect (tcp_ops env) = tcp_connect env"
  "t_poll_next (tcp_ops env) = tcp_poll_next env"
  by (simp_all add: tcp_ops_def)

subsection \<open>The contract\<close>

text \<open>
  The invariant: the accept future is never one that completed, because \<open>TcpIncoming\<close> starts a
  new one in the very poll that takes a result.
\<close>

definition tcp_inv :: "('l, 'p) tcp_transport \<Rightarrow> bool" where
  "tcp_inv t \<longleftrightarrow> inc_accept (tcp_inc t) \<noteq> Completed"

lemma tcp_incoming_poll_cases:
  assumes "inc_accept inc = Accepting l"
  shows "tcp_incoming_poll_next env inc =
    (case te_accept env l of
       (l', Pending) \<Rightarrow> ret (inc\<lparr>inc_accept := Accepting l'\<rparr>, Pending)
     | (l', Ready res) \<Rightarrow>
         ret (inc\<lparr>inc_accept := Accepting l'\<rparr>, Ready (Some (map_ok fst res))))"
  by (simp add: tcp_incoming_poll_next_def assms tcp_accept_def split: prod.splits poll.splits)

lemma tcp_incoming_poll_ret:
  assumes "inc_accept inc \<noteq> Completed"
  obtains inc' r where "tcp_incoming_poll_next env inc = ret (inc', r)"
    and "inc_accept inc' \<noteq> Completed" and "r \<noteq> Ready None"
proof -
  from assms obtain l where l: "inc_accept inc = Accepting l" by (cases "inc_accept inc") auto
  obtain l' p where "te_accept env l = (l', p)" by fastforce
  then show thesis
    using that by (cases p) (auto simp: tcp_incoming_poll_cases [OF l])
qed

lemma tcp_incoming_poll_completed [simp]:
  "inc_accept inc = Completed \<Longrightarrow> tcp_incoming_poll_next env inc = panic"
  by (simp add: tcp_incoming_poll_next_def)

lemma tcp_into_connection_Some:
  "tcp_into_connection env p init = ret (Some (Inr c)) \<longleftrightarrow>
     (\<exists>stream a. p = Ready (Some (Inr stream)) \<and> te_peer_addr env stream = Inr a \<and>
        c = connection_new stream a init tcp_protocol)"
  by (cases "(env, p, init)" rule: tcp_into_connection.cases) (auto simp: run_simps)

lemma tcp_into_connection_returns [simp]: "tcp_into_connection env p init \<noteq> None"
  by (cases "(env, p, init)" rule: tcp_into_connection.cases)
     (auto simp: run_bind_def split: option.splits exec.splits)

text \<open>What one poll can return, with the connection it delivers spelled out.\<close>

lemma tcp_poll_ret:
  assumes "tcp_poll_next env t = ret (t', r)"
  shows "tcp_inv t' \<and> r \<noteq> Ready None \<and>
    (\<forall>c. r = Ready (Some (Inr c)) \<longrightarrow>
       conn_protocol c = tcp_protocol \<and> te_peer_addr env (conn_inner c) = Inr (conn_peer_addr c))"
proof -
  from assms have "inc_accept (tcp_inc t) \<noteq> Completed"
    by (auto simp: tcp_poll_next_def)
  then obtain inc p where "tcp_incoming_poll_next env (tcp_inc t) = ret (inc, p)"
    and "inc_accept inc \<noteq> Completed"
    by (rule tcp_incoming_poll_ret)
  with assms show ?thesis
    by (cases "te_pending_poll env (tcp_pending_connects t)")
       (auto simp: tcp_poll_next_def tcp_inv_def run_simps Let_def tcp_into_connection_Some
          split: option.splits)
qed

lemma tcp_poll_returns: "tcp_inv t \<Longrightarrow> tcp_poll_next env t \<noteq> None"
  unfolding tcp_inv_def
  by (erule tcp_incoming_poll_ret [where env = env],
      cases "te_pending_poll env (tcp_pending_connects t)")
     (auto simp: tcp_poll_next_def run_bind_eq_None Let_def simp del: not_None_eq
        split: option.splits)

definition tcp_good :: "('w, 'l, 's, 'f, 'p) tcp_env \<Rightarrow> 's connection \<Rightarrow> bool" where
  "tcp_good env c \<longleftrightarrow>
     conn_protocol c = tcp_protocol \<and> te_peer_addr env (conn_inner c) = Inr (conn_peer_addr c)"

interpretation tcp: transport "tcp_ops env" tcp_inv "tcp_good env"
  for env :: "('w, 'l, 's, 'f, 'p) tcp_env"
proof unfold_locales
  fix t :: "('l, 'p) tcp_transport" and a
  show "tcp_inv t \<Longrightarrow> tcp_inv (t_connect (tcp_ops env) a t)"
    by (simp add: tcp_connect_def tcp_inv_def Let_def)
qed (auto simp: tcp_good_def dest: tcp_poll_ret tcp_poll_returns)

subsection \<open>A scripted network\<close>

text \<open>
  A concrete environment for examples: the listener is the list of results its accepts will give,
  a stream is the address of its peer, and every connect succeeds, in the order of the calls.
  \<open>lost\<close> are the peers whose socket is gone before its address is asked for.
\<close>

definition tcp_script ::
  "socket_addr list \<Rightarrow>
     (unit, (socket_addr \<times> socket_addr) io_result list, socket_addr, socket_addr, socket_addr list)
     tcp_env" where
  "tcp_script lost =
     \<lparr>te_bind = (\<lambda>addr w. ret (Inr [], w)),
      te_listener_addr = (\<lambda>l. Inr (SocketV4 (Ipv4Addr 127 0 0 1) 4000)),
      te_accept = (\<lambda>l. case l of [] \<Rightarrow> ([], Pending) | r # rs \<Rightarrow> (rs, Ready r)),
      te_peer_addr = (\<lambda>s. if s \<in> set lost then Inl (IoError NotConnected ''not connected'') else Inr s),
      te_connect = (\<lambda>a. a),
      te_pending_new = [],
      te_pending_push = (\<lambda>f p. p @ [f]),
      te_pending_poll = (\<lambda>p. case p of [] \<Rightarrow> ([], Ready None) | a # as \<Rightarrow> (as, Ready (Some (Inr a))))\<rparr>"

lemma tcp_script_simps [simp]:
  "te_bind (tcp_script lost) addr w = ret (Inr [], w)"
  "te_listener_addr (tcp_script lost) l = Inr (SocketV4 (Ipv4Addr 127 0 0 1) 4000)"
  "te_accept (tcp_script lost) [] = ([], Pending)"
  "te_accept (tcp_script lost) (r # rs) = (rs, Ready r)"
  "te_peer_addr (tcp_script lost) s =
     (if s \<in> set lost then Inl (IoError NotConnected ''not connected'') else Inr s)"
  "te_connect (tcp_script lost) a = a"
  "te_pending_new (tcp_script lost) = []"
  "te_pending_push (tcp_script lost) f p = p @ [f]"
  "te_pending_poll (tcp_script lost) [] = ([], Ready None)"
  "te_pending_poll (tcp_script lost) (a # as) = (as, Ready (Some (Inr a)))"
  by (simp_all add: tcp_script_def)

end
