(* ===== verification/Utp_Transport.thy ===== *)
theory Utp_Transport
  imports Transport
begin

section \<open>uTP (\<open>src/transport/utp.rs\<close>)\<close>

text \<open>
  The uTP listener and the outgoing connects of \<open>UtpTransport\<close>, and \<open>UtpStream\<close>, which wraps the
  socket of \<open>libutp_rs\<close> in the adapter \<open>Compat\<close> of \<open>async_compat\<close>. Both crates and the set of
  futures of \<open>futures\<close> are the fields of \<open>utp_env\<close>: a context \<open>'c\<close>, a listener \<open>'l\<close>, a socket \<open>'s\<close>,
  an adapted socket \<open>'k\<close>, a connect future \<open>'f\<close>, a set of pending futures \<open>'p\<close>, the world \<open>'w\<close>.
\<close>

record ('w, 'c, 'l, 's, 'k, 'f, 'p) utp_env =
  ue_bind :: "socket_addr \<Rightarrow> ('w, 'c io_result) action"
  ue_listener :: "'c \<Rightarrow> 'c \<times> 'l"
  ue_incoming_poll :: "'l \<Rightarrow> 'l \<times> 's io_result option poll"
  ue_connect :: "socket_addr \<Rightarrow> 'c \<Rightarrow> 'c \<times> 'f"
  ue_pending_new :: 'p
  ue_pending_push :: "'f \<Rightarrow> 'p \<Rightarrow> 'p"
  ue_pending_poll :: "'p \<Rightarrow> 'p \<times> 's io_result option poll"
  ue_peer_addr :: "'s \<Rightarrow> socket_addr"
  ue_clone :: "'s \<Rightarrow> 's"
  ue_compat_new :: "'s \<Rightarrow> 'k"
  ue_compat_get_ref :: "'k \<Rightarrow> 's"
  ue_compat_io :: "'k async_io"

definition utp_protocol :: string where
  "utp_protocol = ''utp''"

subsection \<open>The stream\<close>

record 'k utp_stream =
  us_inner :: 'k

definition debug_utp_stream :: "'k utp_stream \<Rightarrow> string" where
  "debug_utp_stream stream = debug_struct ''UtpStream'' []"

definition utp_stream_new :: "('w, 'c, 'l, 's, 'k, 'f, 'p) utp_env \<Rightarrow> 's \<Rightarrow> 'k utp_stream" where
  "utp_stream_new env socket = \<lparr>us_inner = ue_compat_new env socket\<rparr>"

definition utp_stream_peer_addr ::
  "('w, 'c, 'l, 's, 'k, 'f, 'p) utp_env \<Rightarrow> 'k utp_stream \<Rightarrow> socket_addr" where
  "utp_stream_peer_addr env s = ue_peer_addr env (ue_compat_get_ref env (us_inner s))"

definition utp_stream_clone ::
  "('w, 'c, 'l, 's, 'k, 'f, 'p) utp_env \<Rightarrow> 'k utp_stream \<Rightarrow> 'k utp_stream" where
  "utp_stream_clone env s =
     \<lparr>us_inner = ue_compat_new env (ue_clone env (ue_compat_get_ref env (us_inner s)))\<rparr>"

definition utp_stream_poll_read ::
  "'k async_io \<Rightarrow> bytes \<Rightarrow> 'k utp_stream \<Rightarrow> 'k utp_stream \<times> bytes \<times> nat io_result poll" where
  "utp_stream_poll_read io buf s =
     (case io_read io buf (us_inner s) of (i, buf', r) \<Rightarrow> (s\<lparr>us_inner := i\<rparr>, buf', r))"

definition utp_stream_poll_write ::
  "'k async_io \<Rightarrow> bytes \<Rightarrow> 'k utp_stream \<Rightarrow> 'k utp_stream \<times> nat io_result poll" where
  "utp_stream_poll_write io buf s =
     (case io_write io buf (us_inner s) of (i, r) \<Rightarrow> (s\<lparr>us_inner := i\<rparr>, r))"

definition utp_stream_poll_flush ::
  "'k async_io \<Rightarrow> 'k utp_stream \<Rightarrow> 'k utp_stream \<times> unit io_result poll" where
  "utp_stream_poll_flush io s =
     (case io_flush io (us_inner s) of (i, r) \<Rightarrow> (s\<lparr>us_inner := i\<rparr>, r))"

definition utp_stream_poll_close ::
  "'k async_io \<Rightarrow> 'k utp_stream \<Rightarrow> 'k utp_stream \<times> unit io_result poll" where
  "utp_stream_poll_close io s =
     (case io_close io (us_inner s) of (i, r) \<Rightarrow> (s\<lparr>us_inner := i\<rparr>, r))"

definition utp_stream_io :: "'k async_io \<Rightarrow> 'k utp_stream async_io" where
  "utp_stream_io io =
     \<lparr>io_read = utp_stream_poll_read io, io_write = utp_stream_poll_write io,
      io_flush = utp_stream_poll_flush io, io_close = utp_stream_poll_close io\<rparr>"

interpretation utp_wrap:
  io_wrapper "utp_stream_io io" io us_inner "\<lambda>i. us_inner_update (\<lambda>_. i)" "\<lambda>_. True"
  for io :: "'k async_io"
  by unfold_locales
     (simp_all add: utp_stream_io_def utp_stream_poll_read_def utp_stream_poll_write_def
        utp_stream_poll_flush_def utp_stream_poll_close_def)

subsection \<open>The transport\<close>

record ('c, 'l, 'p) utp_transport =
  utp_context :: 'c
  utp_pending_connects :: 'p
  utp_incoming :: 'l

definition debug_utp_transport :: "('c, 'l, 'p) utp_transport \<Rightarrow> string" where
  "debug_utp_transport t = debug_struct ''UtpTransport'' []"

definition utp_bind ::
  "('w, 'c, 'l, 's, 'k, 'f, 'p) utp_env \<Rightarrow> 'a resolver \<Rightarrow> 'a \<Rightarrow>
     ('w, ('c, 'l, 'p) utp_transport io_result) action" where
  "utp_bind env resolve local_addr =
     try_bind (act_return (resolve local_addr)) (\<lambda>addrs.
     act_bind (act_run (case addrs of [] \<Rightarrow> panic | a # _ \<Rightarrow> ret a)) (\<lambda>addr.
     try_bind (ue_bind env addr) (\<lambda>context0.
     case ue_listener env context0 of (context, incoming) \<Rightarrow>
       act_return (Inr \<lparr>utp_context = context, utp_pending_connects = ue_pending_new env,
                        utp_incoming = incoming\<rparr>))))"

definition utp_connect ::
  "('w, 'c, 'l, 's, 'k, 'f, 'p) utp_env \<Rightarrow> socket_addr \<Rightarrow> ('c, 'l, 'p) utp_transport \<Rightarrow>
     ('c, 'l, 'p) utp_transport" where
  "utp_connect env peer_addr t =
     (case ue_connect env peer_addr (utp_context t) of (context, fut) \<Rightarrow>
        t\<lparr>utp_context := context,
          utp_pending_connects := ue_pending_push env fut (utp_pending_connects t)\<rparr>)"

fun utp_into_connection ::
  "('w, 'c, 'l, 's, 'k, 'f, 'p) utp_env \<Rightarrow> 's io_result option poll \<Rightarrow> bool \<Rightarrow>
     'k utp_stream connection io_result option" where
  "utp_into_connection env Pending is_initiator = None"
| "utp_into_connection env (Ready None) is_initiator = None"
| "utp_into_connection env (Ready (Some (Inl e))) is_initiator = Some (Inl e)"
| "utp_into_connection env (Ready (Some (Inr socket))) is_initiator =
     (let stream = utp_stream_new env socket;
          peer_addr = utp_stream_peer_addr env stream
      in Some (Inr (connection_new stream peer_addr is_initiator utp_protocol)))"

definition utp_poll_next ::
  "('w, 'c, 'l, 's, 'k, 'f, 'p) utp_env \<Rightarrow> ('c, 'l, 'p) utp_transport \<Rightarrow>
     (('c, 'l, 'p) utp_transport \<times> 'k utp_stream connection io_result option poll) run" where
  "utp_poll_next env t =
     (case ue_incoming_poll env (utp_incoming t) of
        (listener, incoming) \<Rightarrow>
          let t1 = t\<lparr>utp_incoming := listener\<rparr> in
          (case utp_into_connection env incoming False of
             Some conn \<Rightarrow> ret (t1, Ready (Some conn))
           | None \<Rightarrow>
               (case ue_pending_poll env (utp_pending_connects t1) of
                  (pending, connect) \<Rightarrow>
                    let t2 = t1\<lparr>utp_pending_connects := pending\<rparr> in
                    (case utp_into_connection env connect True of
                       Some conn \<Rightarrow> ret (t2, Ready (Some conn))
                     | None \<Rightarrow> ret (t2, Pending)))))"

definition utp_ops ::
  "('w, 'c, 'l, 's, 'k, 'f, 'p) utp_env \<Rightarrow>
     (('c, 'l, 'p) utp_transport, 'k utp_stream) transport_ops" where
  "utp_ops env = \<lparr>t_connect = utp_connect env, t_poll_next = utp_poll_next env\<rparr>"

lemma utp_ops_simps [simp]:
  "t_connect (utp_ops env) = utp_connect env"
  "t_poll_next (utp_ops env) = utp_poll_next env"
  by (simp_all add: utp_ops_def)

lemma utp_into_connection_Some:
  "utp_into_connection env p init = Some (Inr c) \<longleftrightarrow>
     (\<exists>socket. p = Ready (Some (Inr socket)) \<and>
        c = connection_new (utp_stream_new env socket)
              (utp_stream_peer_addr env (utp_stream_new env socket)) init utp_protocol)"
  by (cases "(env, p, init)" rule: utp_into_connection.cases) (auto simp: Let_def)

text \<open>One poll of the transport always returns; nothing here can panic.\<close>

lemma utp_poll_total: "\<exists>t' r. utp_poll_next env t = ret (t', r)"
  by (cases "ue_incoming_poll env (utp_incoming t)";
      cases "ue_pending_poll env (utp_pending_connects t)")
     (simp add: utp_poll_next_def Let_def split: option.splits)

lemma utp_poll_ret:
  assumes "utp_poll_next env t = ret (t', r)"
  shows "r \<noteq> Ready None \<and>
    (\<forall>c. r = Ready (Some (Inr c)) \<longrightarrow>
       conn_protocol c = utp_protocol \<and>
       conn_peer_addr c = utp_stream_peer_addr env (conn_inner c))"
  using assms
  by (cases "ue_incoming_poll env (utp_incoming t)";
      cases "ue_pending_poll env (utp_pending_connects t)")
     (auto simp: utp_poll_next_def Let_def utp_into_connection_Some split: option.splits)

definition utp_good ::
  "('w, 'c, 'l, 's, 'k, 'f, 'p) utp_env \<Rightarrow> 'k utp_stream connection \<Rightarrow> bool" where
  "utp_good env c \<longleftrightarrow>
     conn_protocol c = utp_protocol \<and> conn_peer_addr c = utp_stream_peer_addr env (conn_inner c)"

interpretation utp: transport "utp_ops env" "\<lambda>_. True" "utp_good env"
  for env :: "('w, 'c, 'l, 's, 'k, 'f, 'p) utp_env"
proof unfold_locales
  fix t :: "('c, 'l, 'p) utp_transport"
  show "t_poll_next (utp_ops env) t \<noteq> None"
    using utp_poll_total [of env t] by auto
qed (auto simp: utp_good_def dest: utp_poll_ret)

subsection \<open>A scripted network\<close>

text \<open>
  A concrete environment for examples, like the one for TCP: the listener is the list of sockets
  it will yield, a socket is the address of its peer, and every connect succeeds. Reading and
  writing through the adapter fills the buffer with zeros and accepts every byte.
\<close>

definition null_io :: "'s async_io" where
  "null_io =
     \<lparr>io_read = (\<lambda>buf s. (s, map (\<lambda>_. 0) buf, Ready (Inr (length buf)))),
      io_write = (\<lambda>buf s. (s, Ready (Inr (length buf)))),
      io_flush = (\<lambda>s. (s, Ready (Inr ()))),
      io_close = (\<lambda>s. (s, Ready (Inr ())))\<rparr>"

definition utp_script ::
  "(unit, unit, socket_addr io_result list, socket_addr, socket_addr, socket_addr, socket_addr list)
     utp_env" where
  "utp_script =
     \<lparr>ue_bind = (\<lambda>addr w. ret (Inr (), w)),
      ue_listener = (\<lambda>c. (c, [])),
      ue_incoming_poll = (\<lambda>l. case l of [] \<Rightarrow> ([], Pending) | r # rs \<Rightarrow> (rs, Ready (Some r))),
      ue_connect = (\<lambda>a c. (c, a)),
      ue_pending_new = [],
      ue_pending_push = (\<lambda>f p. p @ [f]),
      ue_pending_poll = (\<lambda>p. case p of [] \<Rightarrow> ([], Ready None) | a # as \<Rightarrow> (as, Ready (Some (Inr a)))),
      ue_peer_addr = (\<lambda>s. s),
      ue_clone = (\<lambda>s. s),
      ue_compat_new = (\<lambda>s. s),
      ue_compat_get_ref = (\<lambda>k. k),
      ue_compat_io = null_io\<rparr>"

lemma utp_script_simps [simp]:
  "ue_bind utp_script addr w = ret (Inr (), w)"
  "ue_listener utp_script c = (c, [])"
  "ue_incoming_poll utp_script [] = ([], Pending)"
  "ue_incoming_poll utp_script (r # rs) = (rs, Ready (Some r))"
  "ue_connect utp_script a c = (c, a)"
  "ue_pending_new utp_script = []"
  "ue_pending_push utp_script f p = p @ [f]"
  "ue_pending_poll utp_script [] = ([], Ready None)"
  "ue_pending_poll utp_script (a # as) = (as, Ready (Some (Inr a)))"
  "ue_peer_addr utp_script s = s"
  "ue_compat_new utp_script s = s"
  "ue_compat_get_ref utp_script s = s"
  by (simp_all add: utp_script_def)

end
