(* ===== verification/Combined_Transport.thy ===== *)
theory Combined_Transport
  imports Tcp_Transport Utp_Transport
begin

section \<open>The combined transport (\<open>src/transport/combined.rs\<close>)\<close>

text \<open>
  TCP and uTP side by side (the feature \<open>transport_utp\<close> is on, as it is by default). The two
  transports are reached through their \<open>Transport\<close> operations, here the records \<open>tops\<close> and \<open>uops\<close>;
  \<open>connected\<close> is the set of addresses to which an outgoing connection was handed out, which the
  code uses to drop the second connection to a peer found over the other protocol.
\<close>

subsection \<open>The stream\<close>

datatype ('ts, 'us) combined_stream = Tcp (tcp_of: 'ts) | Utp (utp_of: 'us)

fun combined_stream_protocol :: "('ts, 'us) combined_stream \<Rightarrow> string" where
  "combined_stream_protocol (Tcp _) = ''tcp''"
| "combined_stream_protocol (Utp _) = ''utp''"

fun debug_combined_stream :: "('ts, 'us) combined_stream \<Rightarrow> string" where
  "debug_combined_stream (Tcp _) = ''CombinedStream::Tcp''"
| "debug_combined_stream (Utp _) = ''CombinedStream::Utp''"

fun combined_stream_peer_addr ::
  "('ts \<Rightarrow> socket_addr io_result) \<Rightarrow> ('us \<Rightarrow> socket_addr) \<Rightarrow> ('ts, 'us) combined_stream \<Rightarrow>
     socket_addr run" where
  "combined_stream_peer_addr tcp_peer utp_peer (Tcp stream) = unwrap_res (tcp_peer stream)"
| "combined_stream_peer_addr tcp_peer utp_peer (Utp stream) = ret (utp_peer stream)"

fun combined_poll_read ::
  "'ts async_io \<Rightarrow> 'us async_io \<Rightarrow> bytes \<Rightarrow> ('ts, 'us) combined_stream \<Rightarrow>
     ('ts, 'us) combined_stream \<times> bytes \<times> nat io_result poll" where
  "combined_poll_read tio uio buf (Tcp stream) =
     (case io_read tio buf stream of (stream', buf', r) \<Rightarrow> (Tcp stream', buf', r))"
| "combined_poll_read tio uio buf (Utp stream) =
     (case io_read uio buf stream of (stream', buf', r) \<Rightarrow> (Utp stream', buf', r))"

fun combined_poll_write ::
  "'ts async_io \<Rightarrow> 'us async_io \<Rightarrow> bytes \<Rightarrow> ('ts, 'us) combined_stream \<Rightarrow>
     ('ts, 'us) combined_stream \<times> nat io_result poll" where
  "combined_poll_write tio uio buf (Tcp stream) =
     (case io_write tio buf stream of (stream', r) \<Rightarrow> (Tcp stream', r))"
| "combined_poll_write tio uio buf (Utp stream) =
     (case io_write uio buf stream of (stream', r) \<Rightarrow> (Utp stream', r))"

fun combined_poll_flush ::
  "'ts async_io \<Rightarrow> 'us async_io \<Rightarrow> ('ts, 'us) combined_stream \<Rightarrow>
     ('ts, 'us) combined_stream \<times> unit io_result poll" where
  "combined_poll_flush tio uio (Tcp stream) =
     (case io_flush tio stream of (stream', r) \<Rightarrow> (Tcp stream', r))"
| "combined_poll_flush tio uio (Utp stream) =
     (case io_flush uio stream of (stream', r) \<Rightarrow> (Utp stream', r))"

fun combined_poll_close ::
  "'ts async_io \<Rightarrow> 'us async_io \<Rightarrow> ('ts, 'us) combined_stream \<Rightarrow>
     ('ts, 'us) combined_stream \<times> unit io_result poll" where
  "combined_poll_close tio uio (Tcp stream) =
     (case io_close tio stream of (stream', r) \<Rightarrow> (Tcp stream', r))"
| "combined_poll_close tio uio (Utp stream) =
     (case io_close uio stream of (stream', r) \<Rightarrow> (Utp stream', r))"

definition combined_io ::
  "'ts async_io \<Rightarrow> 'us async_io \<Rightarrow> ('ts, 'us) combined_stream async_io" where
  "combined_io tio uio =
     \<lparr>io_read = combined_poll_read tio uio, io_write = combined_poll_write tio uio,
      io_flush = combined_poll_flush tio uio, io_close = combined_poll_close tio uio\<rparr>"

lemma not_is_Tcp: "\<not> is_Tcp s \<longleftrightarrow> (\<exists>stream. s = Utp stream)"
  by (cases s) auto

interpretation comb_tcp_wrap:
  io_wrapper "combined_io tio uio" tio tcp_of "\<lambda>i _. Tcp i" is_Tcp
  for tio :: "'ts async_io" and uio :: "'us async_io"
  by unfold_locales (auto simp: combined_io_def is_Tcp_def split: prod.splits)

interpretation comb_utp_wrap:
  io_wrapper "combined_io tio uio" uio utp_of "\<lambda>i _. Utp i" "\<lambda>s. \<not> is_Tcp s"
  for tio :: "'ts async_io" and uio :: "'us async_io"
  by unfold_locales (auto simp: combined_io_def not_is_Tcp split: prod.splits)

subsection \<open>The transport\<close>

record ('t, 'u) combined_transport =
  ct_tcp :: 't
  ct_utp :: 'u
  ct_local_addr :: socket_addr
  ct_connected :: "socket_addr set"

definition default_socket_addr :: "socket_addr run" where
  "default_socket_addr =
     run_bind (unwrap_opt (parse_ipv4 ''0.0.0.0'')) (\<lambda>ip. ret (SocketV4 ip 0))"

definition unwrap_socket_addr :: "'a resolver \<Rightarrow> 'a option \<Rightarrow> socket_addr io_result run" where
  "unwrap_socket_addr resolve addr =
     (case addr of
        Some a \<Rightarrow> ret (to_socket_addr resolve a)
      | None \<Rightarrow> run_bind default_socket_addr (\<lambda>a. ret (Inr a)))"

definition combined_transport_bind ::
  "('w, 'l, 'ts, 'tf, 'tp) tcp_env \<Rightarrow> ('w, 'c, 'ul, 'us, 'k, 'uf, 'up) utp_env \<Rightarrow>
     'a resolver \<Rightarrow> 'a option \<Rightarrow>
     ('w, (('l, 'tp) tcp_transport, ('c, 'ul, 'up) utp_transport) combined_transport io_result) action"
where
  "combined_transport_bind tenv uenv resolve local_addr =
     try_bind (act_run (unwrap_socket_addr resolve local_addr)) (\<lambda>local_addr.
     try_bind (tcp_bind tenv socket_addr_resolver local_addr) (\<lambda>tcp.
     let local_addr = tcp_local_addr tcp in
     try_bind (utp_bind uenv socket_addr_resolver local_addr) (\<lambda>utp.
     act_return (Inr \<lparr>ct_tcp = tcp, ct_utp = utp, ct_local_addr = local_addr,
                      ct_connected = {}\<rparr>))))"

definition combined_transport_local_addr :: "('t, 'u) combined_transport \<Rightarrow> socket_addr" where
  "combined_transport_local_addr ct = ct_local_addr ct"

definition on_connection ::
  "'a connection \<Rightarrow> ('a \<Rightarrow> ('ts, 'us) combined_stream) \<Rightarrow> ('t, 'u) combined_transport \<Rightarrow>
     ('t, 'u) combined_transport \<times> ('ts, 'us) combined_stream connection io_result option" where
  "on_connection conn wrap ct =
     (case into_parts conn of
        (stream, peer_addr, is_initiator, protocol) \<Rightarrow>
          (case (if \<not> is_initiator then (ct, True)
                 else if peer_addr \<notin> ct_connected ct
                 then (ct\<lparr>ct_connected := insert peer_addr (ct_connected ct)\<rparr>, True)
                 else (ct, False)) of
             (ct', take_connection) \<Rightarrow>
               if take_connection
               then (ct', Some (Inr (connection_new (wrap stream) peer_addr is_initiator protocol)))
               else (ct', None)))"

fun on_poll_connection ::
  "'a connection io_result option poll \<Rightarrow> ('a \<Rightarrow> ('ts, 'us) combined_stream) \<Rightarrow>
     ('t, 'u) combined_transport \<Rightarrow>
     ('t, 'u) combined_transport \<times> ('ts, 'us) combined_stream connection io_result option" where
  "on_poll_connection Pending wrap ct = (ct, None)"
| "on_poll_connection (Ready None) wrap ct = (ct, None)"
| "on_poll_connection (Ready (Some (Inl e))) wrap ct = (ct, Some (Inl e))"
| "on_poll_connection (Ready (Some (Inr conn))) wrap ct = on_connection conn wrap ct"

definition combined_connect ::
  "('t, 'ts) transport_ops \<Rightarrow> ('u, 'us) transport_ops \<Rightarrow> socket_addr \<Rightarrow>
     ('t, 'u) combined_transport \<Rightarrow> ('t, 'u) combined_transport" where
  "combined_connect tops uops peer_addr ct =
     (let ct1 = ct\<lparr>ct_tcp := t_connect tops peer_addr (ct_tcp ct)\<rparr>
      in ct1\<lparr>ct_utp := t_connect uops peer_addr (ct_utp ct1)\<rparr>)"

definition combined_poll_next ::
  "('t, 'ts) transport_ops \<Rightarrow> ('u, 'us) transport_ops \<Rightarrow> ('t, 'u) combined_transport \<Rightarrow>
     (('t, 'u) combined_transport \<times> ('ts, 'us) combined_stream connection io_result option poll) run"
where
  "combined_poll_next tops uops ct =
     run_bind (t_poll_next tops (ct_tcp ct)) (\<lambda>(tcp, tcp_next).
     case on_poll_connection tcp_next Tcp (ct\<lparr>ct_tcp := tcp\<rparr>) of
       (ct1, Some res) \<Rightarrow> ret (ct1, Ready (Some res))
     | (ct1, None) \<Rightarrow>
         run_bind (t_poll_next uops (ct_utp ct1)) (\<lambda>(utp, utp_next).
         case on_poll_connection utp_next Utp (ct1\<lparr>ct_utp := utp\<rparr>) of
           (ct2, Some res) \<Rightarrow> ret (ct2, Ready (Some res))
         | (ct2, None) \<Rightarrow> ret (ct2, Pending)))"

definition combined_transport_ops ::
  "('t, 'ts) transport_ops \<Rightarrow> ('u, 'us) transport_ops \<Rightarrow>
     (('t, 'u) combined_transport, ('ts, 'us) combined_stream) transport_ops" where
  "combined_transport_ops tops uops =
     \<lparr>t_connect = combined_connect tops uops, t_poll_next = combined_poll_next tops uops\<rparr>"

lemma combined_transport_ops_simps [simp]:
  "t_connect (combined_transport_ops tops uops) = combined_connect tops uops"
  "t_poll_next (combined_transport_ops tops uops) = combined_poll_next tops uops"
  by (simp_all add: combined_transport_ops_def)

subsection \<open>One connection\<close>

lemma on_connection_eq:
  "on_connection conn wrap ct =
     (if conn_is_initiator conn \<and> conn_peer_addr conn \<in> ct_connected ct then (ct, None)
      else (if conn_is_initiator conn
            then ct\<lparr>ct_connected := insert (conn_peer_addr conn) (ct_connected ct)\<rparr> else ct,
            Some (Inr (connection_new (wrap (conn_inner conn)) (conn_peer_addr conn)
                         (conn_is_initiator conn) (conn_protocol conn)))))"
  by (simp add: on_connection_def into_parts_def)

text \<open>
  What a poll result does to the transport and what comes out: only \<open>connected\<close> changes, by the
  peer of the outgoing connection that is handed out, which was not in it.
\<close>

lemma on_poll_connection_frame:
  assumes "on_poll_connection p wrap ct = (ct', res)"
  shows "ct_tcp ct' = ct_tcp ct" "ct_utp ct' = ct_utp ct" "ct_local_addr ct' = ct_local_addr ct"
  using assms
  by (cases "(p, wrap, ct)" rule: on_poll_connection.cases;
      auto simp: on_connection_eq split: if_splits)+

lemma on_poll_connection_connected:
  assumes "on_poll_connection p wrap ct = (ct', res)"
  shows "ct_connected ct' = ct_connected ct \<union> set (outgoing (delivered (Ready res)))"
    and "ct_connected ct \<inter> set (outgoing (delivered (Ready res))) = {}"
    and "distinct (outgoing (delivered (Ready res)))"
  using assms
  by (cases "(p, wrap, ct)" rule: on_poll_connection.cases;
      auto simp: on_connection_eq split: if_splits)+

lemma on_poll_connection_Some:
  "on_poll_connection p wrap ct = (ct', Some (Inr c)) \<Longrightarrow>
     \<exists>conn. p = Ready (Some (Inr conn)) \<and>
       c = connection_new (wrap (conn_inner conn)) (conn_peer_addr conn) (conn_is_initiator conn)
             (conn_protocol conn)"
  by (cases "(p, wrap, ct)" rule: on_poll_connection.cases)
     (auto simp: on_connection_eq split: if_splits)

text \<open>The ways one poll of the combined transport can go.\<close>

lemma combined_poll_ret:
  fixes tops :: "('t, 'ts) transport_ops" and uops :: "('u, 'us) transport_ops"
  assumes "combined_poll_next tops uops ct = ret (ct', r)"
  obtains (tcp) t p res where "t_poll_next tops (ct_tcp ct) = ret (t, p)"
      "on_poll_connection p Tcp (ct\<lparr>ct_tcp := t\<rparr>) = (ct', Some res)" "r = Ready (Some res)"
  | (utp) t p ct1 u q res where "t_poll_next tops (ct_tcp ct) = ret (t, p)"
      "on_poll_connection p Tcp (ct\<lparr>ct_tcp := t\<rparr>) =
         (ct1, None :: ('ts, 'us) combined_stream connection io_result option)"
      "t_poll_next uops (ct_utp ct) = ret (u, q)"
      "on_poll_connection q Utp (ct1\<lparr>ct_utp := u\<rparr>) = (ct', res)"
      "r = (case res of None \<Rightarrow> Pending | Some x \<Rightarrow> Ready (Some x))"
proof -
  from assms obtain t p where t: "t_poll_next tops (ct_tcp ct) = ret (t, p)"
    by (auto simp: combined_poll_next_def run_simps)
  obtain ct1 and res :: "('ts, 'us) combined_stream connection io_result option"
    where res: "on_poll_connection p Tcp (ct\<lparr>ct_tcp := t\<rparr>) = (ct1, res)"
    by fastforce
  show thesis
  proof (cases res)
    case (Some x)
    with assms t res have "ct1 = ct'" and "r = Ready (Some x)"
      by (auto simp: combined_poll_next_def)
    with t res Some show thesis by (intro tcp) auto
  next
    case None
    with assms t res obtain u q where u: "t_poll_next uops (ct_utp ct) = ret (u, q)"
      by (auto simp: combined_poll_next_def run_simps on_poll_connection_frame [OF res])
    obtain ct2 and res2 :: "('ts, 'us) combined_stream connection io_result option"
      where res2: "on_poll_connection q Utp (ct1\<lparr>ct_utp := u\<rparr>) = (ct2, res2)"
      by fastforce
    from assms t res None u res2 have "ct2 = ct'"
      and "r = (case res2 of None \<Rightarrow> Pending | Some x \<Rightarrow> Ready (Some x))"
      by (auto simp: combined_poll_next_def on_poll_connection_frame [OF res] split: option.splits)
    with t res None u res2 show thesis by (intro utp) auto
  qed
qed

text \<open>A poll that hangs or panics does so inside one of the two transports.\<close>

lemma combined_poll_None:
  assumes "combined_poll_next tops uops ct = None"
  shows "t_poll_next tops (ct_tcp ct) = None \<or> t_poll_next uops (ct_utp ct) = None"
proof (rule ccontr)
  assume "\<not> ?thesis"
  then obtain x y where "t_poll_next tops (ct_tcp ct) = Some x" "t_poll_next uops (ct_utp ct) = Some y"
    by auto
  with assms show False
    by (cases x; cases y)
       (auto simp: combined_poll_next_def split: prod.splits option.splits
          dest: on_poll_connection_frame)
qed

lemma combined_poll_connected:
  assumes "combined_poll_next tops uops ct = ret (ct', r)"
  shows "ct_connected ct' = ct_connected ct \<union> set (outgoing (delivered r)) \<and>
         ct_connected ct \<inter> set (outgoing (delivered r)) = {} \<and>
         distinct (outgoing (delivered r))"
  using assms
proof (cases rule: combined_poll_ret)
  case (tcp t p res)
  with on_poll_connection_connected [OF tcp(2)] show ?thesis by simp
next
  case (utp t p ct1 u q res)
  with on_poll_connection_connected [OF utp(2)] on_poll_connection_connected [OF utp(4)]
  show ?thesis by (cases res) simp_all
qed

lemma combined_connect_simps [simp]:
  "ct_connected (combined_connect tops uops a ct) = ct_connected ct"
  "ct_tcp (combined_connect tops uops a ct) = t_connect tops a (ct_tcp ct)"
  "ct_utp (combined_connect tops uops a ct) = t_connect uops a (ct_utp ct)"
  by (simp_all add: combined_connect_def Let_def)

subsection \<open>The combined transport keeps the contract\<close>

text \<open>
  A connection is good when the one it was made from, with the stream unwrapped, was good for the
  transport it came from.
\<close>

fun combined_good ::
  "('ts connection \<Rightarrow> bool) \<Rightarrow> ('us connection \<Rightarrow> bool) \<Rightarrow>
     ('ts, 'us) combined_stream connection \<Rightarrow> bool" where
  "combined_good tgood ugood c =
     (case conn_inner c of
        Tcp stream \<Rightarrow>
          tgood (connection_new stream (conn_peer_addr c) (conn_is_initiator c) (conn_protocol c))
      | Utp stream \<Rightarrow>
          ugood (connection_new stream (conn_peer_addr c) (conn_is_initiator c) (conn_protocol c)))"

locale transport_pair =
  t: transport tops tinv tgood + u: transport uops uinv ugood
  for tops :: "('t, 'ts) transport_ops" and tinv tgood
    and uops :: "('u, 'us) transport_ops" and uinv ugood
begin

lemma poll_keeps:
  assumes "tinv (ct_tcp ct)" "uinv (ct_utp ct)"
    and "combined_poll_next tops uops ct = ret (ct', r)"
  shows "tinv (ct_tcp ct')" "uinv (ct_utp ct')"
proof -
  from assms(3) have "tinv (ct_tcp ct') \<and> uinv (ct_utp ct')"
  proof (cases rule: combined_poll_ret)
    case (tcp s p res)
    with assms(1,2) show ?thesis
      by (auto simp: on_poll_connection_frame [OF tcp(2)] dest: t.poll_inv)
  next
    case (utp s p ct1 v q res)
    with assms(1,2) show ?thesis
      by (auto simp: on_poll_connection_frame [OF utp(2)] on_poll_connection_frame [OF utp(4)]
          dest: t.poll_inv u.poll_inv)
  qed
  then show "tinv (ct_tcp ct')" "uinv (ct_utp ct')" by simp_all
qed

lemma poll_hangs_not:
  "tinv (ct_tcp ct) \<Longrightarrow> uinv (ct_utp ct) \<Longrightarrow> combined_poll_next tops uops ct \<noteq> None"
  using combined_poll_None t.poll_returns u.poll_returns by blast

lemma poll_delivers_good:
  assumes "tinv (ct_tcp ct)" "uinv (ct_utp ct)"
    and "combined_poll_next tops uops ct = ret (ct', Ready (Some (Inr c)))"
  shows "combined_good tgood ugood c"
  using assms(3)
proof (cases rule: combined_poll_ret)
  case (tcp s p res)
  with assms(1) show ?thesis
    by (auto dest!: on_poll_connection_Some t.poll_good)
next
  case (utp s p ct1 v q res)
  with assms(2) show ?thesis
    by (auto dest!: on_poll_connection_Some u.poll_good split: option.splits)
qed

end

sublocale transport_pair < both:
  transport "combined_transport_ops tops uops" "\<lambda>ct. tinv (ct_tcp ct) \<and> uinv (ct_utp ct)"
    "combined_good tgood ugood"
proof unfold_locales
  fix ct ct' :: "('t, 'u) combined_transport" and r
  show "t_poll_next (combined_transport_ops tops uops) ct = ret (ct', r) \<Longrightarrow> r \<noteq> Ready None"
    by (auto elim!: combined_poll_ret split: option.splits)
qed (auto simp: t.connect_inv u.connect_inv simp del: combined_good.simps not_None_eq
      dest: poll_keeps poll_hangs_not poll_delivers_good)

interpretation stack: transport_pair "tcp_ops tenv" tcp_inv "tcp_good tenv"
    "utp_ops uenv" "\<lambda>_. True" "utp_good uenv"
  for tenv :: "('w, 'l, 'ts, 'tf, 'tp) tcp_env"
    and uenv :: "('v, 'c, 'ul, 'us, 'k, 'uf, 'up) utp_env"
  by unfold_locales

subsection \<open>Properties\<close>

text \<open>A stack on the scripted network, listening, with some sockets waiting to be accepted.\<close>

definition script_stack ::
  "(socket_addr \<times> socket_addr) io_result list \<Rightarrow>
     (((socket_addr \<times> socket_addr) io_result list, socket_addr list) tcp_transport,
      (unit, socket_addr io_result list, socket_addr list) utp_transport) combined_transport" where
  "script_stack accepts =
     \<lparr>ct_tcp = \<lparr>tcp_addr = SocketV4 (Ipv4Addr 127 0 0 1) 4000,
                tcp_inc = \<lparr>inc_local_addr = SocketV4 (Ipv4Addr 127 0 0 1) 4000,
                           inc_accept = Accepting accepts\<rparr>,
                tcp_pending_connects = []\<rparr>,
      ct_utp = \<lparr>utp_context = (), utp_pending_connects = [], utp_incoming = []\<rparr>,
      ct_local_addr = SocketV4 (Ipv4Addr 127 0 0 1) 4000, ct_connected = {}\<rparr>"

lemmas tcp_defs =
  tcp_poll_next_def tcp_connect_def tcp_incoming_poll_next_def tcp_accept_def

lemmas utp_defs =
  utp_poll_next_def utp_connect_def utp_stream_new_def utp_stream_peer_addr_def

lemmas combined_defs =
  combined_poll_next_def combined_connect_def on_connection_eq

lemma combined_run_connected:
  assumes "transport_run (combined_transport_ops tops uops) calls ct = ret (ct', conns)"
  shows "distinct (outgoing conns) \<and> ct_connected ct \<inter> set (outgoing conns) = {} \<and>
         ct_connected ct' = ct_connected ct \<union> set (outgoing conns)"
  using assms
proof (induction calls arbitrary: ct conns)
  case (Cons call calls)
  show ?case
  proof (cases call)
    case TPoll
    with Cons.prems obtain ct1 r conns1
      where poll: "combined_poll_next tops uops ct = ret (ct1, r)"
        and run: "transport_run (combined_transport_ops tops uops) calls ct1 = ret (ct', conns1)"
        and conns: "conns = delivered r @ conns1"
      by (auto simp: run_simps)
    from combined_poll_connected [OF poll] Cons.IH [OF run] show ?thesis
      by (auto simp: conns)
  next
    case (TConnect a)
    with Cons.prems Cons.IH [of "combined_connect tops uops a ct" conns] show ?thesis by simp
  qed
qed simp

text \<open>
  C29: Over any sequence of connects and polls of the combined transport, from any state, no peer
  address gets a second outgoing connection: the peers of the outgoing connections handed out are
  distinct, none of them was in the connected set before, and the set grows by exactly them. In
  particular an address that is in the set never gets an outgoing connection again, whatever
  happened to the first one.
\<close>

theorem outgoing_once:
  assumes "transport_run (combined_transport_ops tops uops) calls ct = ret (ct', conns)"
  shows "distinct (outgoing conns) \<and> ct_connected ct \<inter> set (outgoing conns) = {} \<and>
         ct_connected ct' = ct_connected ct \<union> set (outgoing conns)"
  by (rule combined_run_connected [OF assms])

theorem outgoing_once_witness:
  "\<exists>ct' conns. transport_run (combined_transport_ops (tcp_ops (tcp_script [])) (utp_ops utp_script))
      [TConnect (SocketV4 (Ipv4Addr 10 0 0 1) 80), TPoll, TPoll] (script_stack []) = ret (ct', conns) \<and>
    outgoing conns = [SocketV4 (Ipv4Addr 10 0 0 1) 80] \<and>
    distinct (outgoing conns) \<and> ct_connected ct' = set (outgoing conns)"
proof -
  let ?run = "transport_run (combined_transport_ops (tcp_ops (tcp_script [])) (utp_ops utp_script))
      [TConnect (SocketV4 (Ipv4Addr 10 0 0 1) 80), TPoll, TPoll] (script_stack [])"
  obtain ct' conns where run: "?run = ret (ct', conns)"
    and out: "outgoing conns = [SocketV4 (Ipv4Addr 10 0 0 1) 80]"
    by (simp add: script_stack_def tcp_defs utp_defs combined_defs)
  show ?thesis
    using run out outgoing_once [OF run] by (auto simp: script_stack_def)
qed

text \<open>
  A socket that the TCP listener accepts, with its peer's address known, is what the next poll
  of the combined transport returns, as an incoming TCP connection from that peer; it is never
  dropped as a duplicate, and neither the connected set nor the uTP side is touched.
\<close>

lemma incoming_delivered:
  assumes "inc_accept (tcp_inc (ct_tcp ct)) = Accepting l"
    and "te_accept tenv l = (l', Ready (Inr (stream, from_addr)))"
    and "te_peer_addr tenv stream = Inr peer"
  shows "\<exists>ct'. combined_poll_next (tcp_ops tenv) uops ct =
           ret (ct', Ready (Some (Inr (connection_new (Tcp stream) peer False ''tcp'')))) \<and>
         ct_connected ct' = ct_connected ct \<and> ct_utp ct' = ct_utp ct \<and>
         inc_accept (tcp_inc (ct_tcp ct')) = Accepting l'"
  using assms
  by (simp add: combined_defs tcp_poll_next_def tcp_incoming_poll_cases tcp_protocol_def)

lemma incoming_delivered_example:
  "\<exists>ct'. combined_poll_next (tcp_ops (tcp_script [])) (utp_ops utp_script)
      (script_stack [Inr (SocketV4 (Ipv4Addr 10 0 0 1) 80, SocketV4 (Ipv4Addr 10 0 0 1) 80)]) =
    ret (ct', Ready (Some (Inr (connection_new (Tcp (SocketV4 (Ipv4Addr 10 0 0 1) 80))
      (SocketV4 (Ipv4Addr 10 0 0 1) 80) False ''tcp''))))"
  using incoming_delivered [of
      "script_stack [Inr (SocketV4 (Ipv4Addr 10 0 0 1) 80, SocketV4 (Ipv4Addr 10 0 0 1) 80)]"
      "[Inr (SocketV4 (Ipv4Addr 10 0 0 1) 80, SocketV4 (Ipv4Addr 10 0 0 1) 80)]"
      "tcp_script []" "[]" "SocketV4 (Ipv4Addr 10 0 0 1) 80" "SocketV4 (Ipv4Addr 10 0 0 1) 80"
      "SocketV4 (Ipv4Addr 10 0 0 1) 80" "utp_ops utp_script"]
  by (auto simp: script_stack_def)

text \<open>
  C30: Every connection that the stack of TCP and uTP hands out, over any sequence of connects and
  polls, names the protocol of the stream it holds and the peer address that this stream reports;
  and no such sequence hangs.
\<close>

theorem stack_connections_consistent:
  assumes "tcp_inv (ct_tcp ct)"
  shows "transport_run (combined_transport_ops (tcp_ops tenv) (utp_ops uenv)) calls ct \<noteq> None \<and>
    (\<forall>ct' conns c.
      transport_run (combined_transport_ops (tcp_ops tenv) (utp_ops uenv)) calls ct = ret (ct', conns) \<longrightarrow>
      c \<in> set conns \<longrightarrow>
      conn_protocol c = combined_stream_protocol (conn_inner c) \<and>
      combined_stream_peer_addr (te_peer_addr tenv) (utp_stream_peer_addr uenv) (conn_inner c)
        = ret (conn_peer_addr c))"
proof (intro conjI allI impI)
  show "transport_run (combined_transport_ops (tcp_ops tenv) (utp_ops uenv)) calls ct \<noteq> None"
    by (rule stack.both.run_returns) (simp add: assms)
next
  fix ct' conns c
  assume "transport_run (combined_transport_ops (tcp_ops tenv) (utp_ops uenv)) calls ct = ret (ct', conns)"
    and "c \<in> set conns"
  with assms have "combined_good (tcp_good tenv) (utp_good uenv) c"
    using stack.both.run_good by blast
  then show "conn_protocol c = combined_stream_protocol (conn_inner c)"
    and "combined_stream_peer_addr (te_peer_addr tenv) (utp_stream_peer_addr uenv) (conn_inner c)
        = ret (conn_peer_addr c)"
    by (auto simp: tcp_good_def utp_good_def tcp_protocol_def utp_protocol_def
        split: combined_stream.splits)
qed

theorem stack_connections_consistent_witness:
  "\<exists>ct' c. transport_run (combined_transport_ops (tcp_ops (tcp_script [])) (utp_ops utp_script))
      [TConnect (SocketV4 (Ipv4Addr 10 0 0 1) 80), TPoll, TPoll] (script_stack []) = ret (ct', [c]) \<and>
    conn_protocol c = combined_stream_protocol (conn_inner c)"
proof -
  have inv: "tcp_inv (ct_tcp (script_stack []))" by (simp add: script_stack_def tcp_inv_def)
  let ?run = "transport_run (combined_transport_ops (tcp_ops (tcp_script [])) (utp_ops utp_script))
      [TConnect (SocketV4 (Ipv4Addr 10 0 0 1) 80), TPoll, TPoll] (script_stack [])"
  obtain ct' c where run: "?run = ret (ct', [c])"
    by (simp add: script_stack_def tcp_defs utp_defs combined_defs)
  then show ?thesis
    using stack_connections_consistent [OF inv, of "tcp_script []" utp_script] by fastforce
qed

text \<open>
  C36: While the accept future is live, which \<open>TcpIncoming\<close> keeps up, a poll of the TCP transport
  panics in exactly two cases: an accepted socket, or an outgoing one when nothing was accepted,
  whose peer address can no longer be read. Nothing else in the transport panics, and in these
  cases the whole task goes down with one lost peer.
\<close>

theorem tcp_poll_panics_iff:
  assumes "inc_accept (tcp_inc t) = Accepting l"
  shows "tcp_poll_next env t = panic \<longleftrightarrow>
    (\<exists>l' stream a e. te_accept env l = (l', Ready (Inr (stream, a))) \<and>
       te_peer_addr env stream = Inl e) \<or>
    (\<exists>l' p' stream e. te_accept env l = (l', Pending) \<and>
       te_pending_poll env (tcp_pending_connects t) = (p', Ready (Some (Inr stream))) \<and>
       te_peer_addr env stream = Inl e)"
proof -
  have into: "tcp_into_connection env p init = panic \<longleftrightarrow>
      (\<exists>stream e. p = Ready (Some (Inr stream)) \<and> te_peer_addr env stream = Inl e)" for p init
    by (cases "(env, p, init)" rule: tcp_into_connection.cases) (auto simp: run_bind_eq_panic)
  have into_None: "tcp_into_connection env p init = ret None \<longleftrightarrow> p = Pending \<or> p = Ready None" for p init
    by (cases "(env, p, init)" rule: tcp_into_connection.cases) (auto simp: run_simps)
  obtain l' a where acc: "te_accept env l = (l', a)" by fastforce
  obtain p' c where pend: "te_pending_poll env (tcp_pending_connects t) = (p', c)" by fastforce
  show ?thesis
    by (cases a)
       (auto simp: tcp_poll_next_def tcp_incoming_poll_cases [OF assms] acc pend run_bind_eq_panic
          into into_None Let_def split: option.splits sum.splits)
qed

theorem tcp_poll_panics_iff_witness:
  "tcp_poll_next (tcp_script [SocketV4 (Ipv4Addr 10 0 0 1) 80])
     (ct_tcp (script_stack [Inr (SocketV4 (Ipv4Addr 10 0 0 1) 80, SocketV4 (Ipv4Addr 10 0 0 1) 80)]))
   = panic"
  using tcp_poll_panics_iff [of
      "ct_tcp (script_stack [Inr (SocketV4 (Ipv4Addr 10 0 0 1) 80, SocketV4 (Ipv4Addr 10 0 0 1) 80)])"
      "[Inr (SocketV4 (Ipv4Addr 10 0 0 1) 80, SocketV4 (Ipv4Addr 10 0 0 1) 80)]"
      "tcp_script [SocketV4 (Ipv4Addr 10 0 0 1) 80]"]
  by (simp add: script_stack_def)

lemma default_socket_addr: "default_socket_addr = ret (SocketV4 (Ipv4Addr 0 0 0 0) 0)"
  by (simp add: default_socket_addr_def parse_ipv4_def parse_octet_def parse_dec_def
      is_dec_digit_def read_base_def digit_value_def)

lemma combined_bind_result:
  assumes "combined_transport_bind tenv uenv resolve addr w = ret (Inr ct, w')"
  shows "\<exists>requested listener w1 context.
    (case addr of None \<Rightarrow> requested = SocketV4 (Ipv4Addr 0 0 0 0) 0
                | Some a \<Rightarrow> to_socket_addr resolve a = Inr requested) \<and>
    te_bind tenv requested w = ret (Inr listener, w1) \<and>
    te_listener_addr tenv listener = Inr (combined_transport_local_addr ct) \<and>
    inc_accept (tcp_inc (ct_tcp ct)) = Accepting listener \<and>
    ue_bind uenv (combined_transport_local_addr ct) w1 = ret (Inr context, w') \<and>
    ct_connected ct = {} \<and> tcp_inv (ct_tcp ct)"
proof -
  show ?thesis
    using assms
    by (cases addr)
       (auto simp: combined_transport_bind_def unwrap_socket_addr_def default_socket_addr tcp_bind_def
          utp_bind_def tcp_incoming_new_def tcp_accept_def tcp_local_addr_def tcp_inv_def
          combined_transport_local_addr_def run_simps act_bind_def socket_addr_resolver_def
          Let_def case_prod_beta)
qed

text \<open>
  When binding the combined transport succeeds, its local address is the one the TCP listener
  reports after it was bound to the requested address (or to \<open>0.0.0.0:0\<close>), the uTP context was
  bound after TCP and to exactly that address, no address counts as connected yet, and the accept
  future is live, on that listener.
\<close>

lemma combined_bind_ok:
  assumes "combined_transport_bind tenv uenv resolve addr w = ret (Inr ct, w')"
  shows "\<exists>requested listener w1 context.
    (case addr of None \<Rightarrow> requested = SocketV4 (Ipv4Addr 0 0 0 0) 0
                | Some a \<Rightarrow> to_socket_addr resolve a = Inr requested) \<and>
    te_bind tenv requested w = ret (Inr listener, w1) \<and>
    te_listener_addr tenv listener = Inr (combined_transport_local_addr ct) \<and>
    inc_accept (tcp_inc (ct_tcp ct)) = Accepting listener \<and>
    ue_bind uenv (combined_transport_local_addr ct) w1 = ret (Inr context, w') \<and>
    ct_connected ct = {} \<and> tcp_inv (ct_tcp ct)"
  by (rule combined_bind_result [OF assms])

lemma combined_bind_ok_example:
  "\<exists>ct. combined_transport_bind (tcp_script []) utp_script socket_addr_resolver None () = ret (Inr ct, ()) \<and>
     combined_transport_local_addr ct = SocketV4 (Ipv4Addr 127 0 0 1) 4000"
proof -
  obtain ct where
    ct: "combined_transport_bind (tcp_script []) utp_script socket_addr_resolver None () = ret (Inr ct, ())"
    by (simp add: combined_transport_bind_def unwrap_socket_addr_def default_socket_addr_def
        parse_ipv4_def parse_octet_def parse_dec_def is_dec_digit_def read_base_def digit_value_def
        tcp_bind_def utp_bind_def tcp_incoming_new_def act_bind_def try_bind_def
        socket_addr_resolver_def Let_def)
  from combined_bind_ok [OF ct] ct show ?thesis by auto
qed

text \<open>
  A local address that resolves to nothing is an \<open>InvalidInput\<close> error for the combined
  transport, with nothing bound, but a panic for each of the two transports bound directly.
\<close>

lemma bind_unresolved:
  assumes "resolve a = Inr []"
  shows "combined_transport_bind tenv uenv resolve (Some a) w =
           ret (Inl (IoError InvalidInput ''Invalid socket address''), w) \<and>
         tcp_bind tenv resolve a w = panic \<and> utp_bind uenv resolve a w = panic"
  using assms
  by (simp add: combined_transport_bind_def unwrap_socket_addr_def tcp_bind_def utp_bind_def
      try_bind_def act_bind_def)

lemma bind_unresolved_example:
  "tcp_bind (tcp_script []) (\<lambda>_. Inr []) ''nowhere'' () = panic"
  using bind_unresolved [of "\<lambda>_. Inr []" "''nowhere''" "tcp_script []" utp_script "()"] by simp

text \<open>
  C32: Reading, writing, flushing and closing a connection of the combined transport, in any
  sequence, gives the replies of the same sequence on the TCP stream or, through \<open>UtpStream\<close>, on
  the adapted uTP socket inside, leaves that inner stream in the state it would then have, and
  changes nothing else of the connection.
\<close>

theorem connection_io_transparent:
  "io_run (connection_io (combined_io tio (utp_stream_io kio))) calls c =
     (case conn_inner c of
        Tcp s \<Rightarrow>
          (case io_run tio calls s of (s', replies) \<Rightarrow> (c\<lparr>conn_inner := Tcp s'\<rparr>, replies))
      | Utp u \<Rightarrow>
          (case io_run kio calls (us_inner u) of
             (k, replies) \<Rightarrow> (c\<lparr>conn_inner := Utp (u\<lparr>us_inner := k\<rparr>)\<rparr>, replies)))"
proof (cases "conn_inner c")
  case (Tcp s)
  then show ?thesis
    by (simp add: conn_wrap.run_forwards comb_tcp_wrap.run_forwards split: prod.splits)
next
  case (Utp u)
  then show ?thesis
    by (simp add: conn_wrap.run_forwards comb_utp_wrap.run_forwards utp_wrap.run_forwards
        split: prod.splits)
qed

end
