(* ===== verification/Discovery.thy ===== *)
theory Discovery
  imports Util
begin

section \<open>Discovered peers and the discovery interface (\<open>src/discovery/mod.rs\<close>)\<close>

text \<open>
  \<open>PeerInfo\<close> as a record, the trait \<open>Discovery\<close> as a record of operations, and what the swarm and
  the combined discovery rely on as the locale \<open>discovery\<close>. \<open>pretty_hash\<close> (a third-party crate)
  is an argument of the functions that print with it.
\<close>

datatype discovery_method = Mdns | Dht

fun show_discovery_method :: "discovery_method \<Rightarrow> string" where
  "show_discovery_method Mdns = ''MDNS''"
| "show_discovery_method Dht = ''DHT''"

record peer_info =
  pi_addr :: socket_addr
  pi_topic :: "topic option"
  pi_discovery_method :: discovery_method

definition peer_info_new :: "socket_addr \<Rightarrow> topic option \<Rightarrow> discovery_method \<Rightarrow> peer_info" where
  "peer_info_new addr topic discovery_method =
     \<lparr>pi_addr = addr, pi_topic = topic, pi_discovery_method = discovery_method\<rparr>"

lemma peer_info_new_simps [simp]:
  "pi_addr (peer_info_new a t m) = a"
  "pi_topic (peer_info_new a t m) = t"
  "pi_discovery_method (peer_info_new a t m) = m"
  by (simp_all add: peer_info_new_def)

definition show_peer_info :: "(topic \<Rightarrow> unit + string) \<Rightarrow> peer_info \<Rightarrow> string run" where
  "show_peer_info pretty_hash p =
     run_bind (case pi_topic p of None \<Rightarrow> ret ''_'' | Some t \<Rightarrow> unwrap_res (pretty_hash t)) (\<lambda>topic.
       ret (''Peer '' @ show_socket_addr (pi_addr p) @ '' via ''
            @ show_discovery_method (pi_discovery_method p) @ '':'' @ topic))"

definition peer_info_addr :: "peer_info \<Rightarrow> socket_addr" where
  [simp]: "peer_info_addr p = pi_addr p"

fun debug_discovery_method :: "discovery_method \<Rightarrow> string" where
  "debug_discovery_method Mdns = ''Mdns''"
| "debug_discovery_method Dht = ''Dht''"

definition debug_peer_info :: "(topic \<Rightarrow> unit + string) \<Rightarrow> peer_info \<Rightarrow> string run" where
  "debug_peer_info pretty_hash p =
     run_bind (case pi_topic p of
         None \<Rightarrow> ret None
       | Some t \<Rightarrow> run_bind (unwrap_res (pretty_hash t)) (\<lambda>text. ret (Some text))) (\<lambda>topic.
       ret (debug_struct ''PeerInfo''
         [(''addr'', show_socket_addr (pi_addr p)), (''topic'', debug_option debug_string topic),
          (''discovery_method'', debug_discovery_method (pi_discovery_method p))]))"

text \<open>Printing a peer in either form panics exactly when its topic cannot be printed.\<close>

lemma peer_info_prints:
  "show_peer_info pretty_hash p = panic \<longleftrightarrow> (\<exists>t e. pi_topic p = Some t \<and> pretty_hash t = Inl e)"
  "debug_peer_info pretty_hash p = panic \<longleftrightarrow> (\<exists>t e. pi_topic p = Some t \<and> pretty_hash t = Inl e)"
  by (cases "pi_topic p"; cases "pretty_hash (the (pi_topic p))";
      simp add: show_peer_info_def debug_peer_info_def)+

subsection \<open>The trait \<open>Discovery\<close>\<close>

text \<open>
  \<open>lookup\<close> and \<open>announce\<close> ask for a topic, \<open>poll_next\<close> is the stream of peers found. Each may panic
  (they unwrap), and a poll may loop.
\<close>

record 's discovery_ops =
  d_lookup :: "topic \<Rightarrow> 's \<Rightarrow> 's run"
  d_announce :: "topic \<Rightarrow> 's \<Rightarrow> 's run"
  d_poll_next :: "'s \<Rightarrow> ('s \<times> peer_info io_result option poll) run"

datatype discovery_call = Lookup topic | Announce topic

fun discovery_apply :: "'s discovery_ops \<Rightarrow> discovery_call \<Rightarrow> 's \<Rightarrow> 's run" where
  "discovery_apply ops (Lookup t) s = d_lookup ops t s"
| "discovery_apply ops (Announce t) s = d_announce ops t s"

text \<open>A sequence of calls and polls, with the items the polls yielded in order.\<close>

datatype discovery_step = DCall discovery_call | DPoll

fun yielded :: "'a option poll \<Rightarrow> 'a list" where
  "yielded (Ready (Some x)) = [x]"
| "yielded r = []"

fun discovery_run ::
  "'s discovery_ops \<Rightarrow> discovery_step list \<Rightarrow> 's \<Rightarrow> ('s \<times> peer_info io_result list) run" where
  "discovery_run ops [] s = ret (s, [])"
| "discovery_run ops (DCall c # cs) s =
     run_bind (discovery_apply ops c s) (discovery_run ops cs)"
| "discovery_run ops (DPoll # cs) s =
     run_bind (d_poll_next ops s) (\<lambda>(s', r).
       run_bind (discovery_run ops cs s') (\<lambda>(s'', items). ret (s'', yielded r @ items)))"

fun step_calls :: "discovery_step list \<Rightarrow> discovery_call list" where
  "step_calls [] = []"
| "step_calls (DCall c # cs) = c # step_calls cs"
| "step_calls (DPoll # cs) = step_calls cs"

lemma discovery_run_append:
  "discovery_run ops (as @ bs) s =
     run_bind (discovery_run ops as s) (\<lambda>(s1, items1).
       run_bind (discovery_run ops bs s1) (\<lambda>(s2, items2). ret (s2, items1 @ items2)))"
proof (induction as arbitrary: s)
  case Nil
  then show ?case by (auto simp: run_bind_def split: option.splits exec.splits)
next
  case (Cons step as)
  then show ?case
    by (cases step) (auto simp: run_bind_def split: option.splits exec.splits)
qed

lemma step_calls_simps [simp]:
  "step_calls (as @ bs) = step_calls as @ step_calls bs"
  "step_calls (map DCall cs) = cs"
proof -
  show "step_calls (as @ bs) = step_calls as @ step_calls bs"
    by (induction as rule: step_calls.induct) simp_all
  show "step_calls (map DCall cs) = cs" by (induction cs) simp_all
qed

text \<open>
  The contract: \<open>lookup\<close> and \<open>announce\<close> return and keep the invariant, a poll keeps it, the stream
  never ends, and a peer comes with a topic and is marked with one of the provider's methods.
\<close>

locale discovery =
  fixes ops :: "'s discovery_ops"
    and inv :: "'s \<Rightarrow> bool"
    and methods :: "discovery_method set"
  assumes lookup_ok: "inv s \<Longrightarrow> \<exists>s'. d_lookup ops t s = ret s' \<and> inv s'"
    and announce_ok: "inv s \<Longrightarrow> \<exists>s'. d_announce ops t s = ret s' \<and> inv s'"
    and poll_inv: "inv s \<Longrightarrow> d_poll_next ops s = ret (s', r) \<Longrightarrow> inv s'"
    and poll_not_end: "inv s \<Longrightarrow> d_poll_next ops s = ret (s', r) \<Longrightarrow> r \<noteq> Ready None"
    and poll_peer:
      "inv s \<Longrightarrow> d_poll_next ops s = ret (s', Ready (Some (Inr p))) \<Longrightarrow>
         pi_topic p \<noteq> None \<and> pi_discovery_method p \<in> methods"
begin

lemma apply_ok: "inv s \<Longrightarrow> \<exists>s'. discovery_apply ops c s = ret s' \<and> inv s'"
  by (cases c) (auto simp: lookup_ok announce_ok)

lemma apply_inv: "inv s \<Longrightarrow> discovery_apply ops c s = ret s' \<Longrightarrow> inv s'"
  using apply_ok [of s c] by auto

lemma run_inv: "inv s \<Longrightarrow> discovery_run ops cs s = ret (s', items) \<Longrightarrow> inv s'"
proof (induction cs arbitrary: s items)
  case (Cons c cs)
  then show ?case
    by (cases c) (auto simp: run_simps dest: apply_inv poll_inv)
qed simp

lemma run_peers:
  "inv s \<Longrightarrow> discovery_run ops cs s = ret (s', items) \<Longrightarrow> Inr p \<in> set items \<Longrightarrow>
     pi_topic p \<noteq> None \<and> pi_discovery_method p \<in> methods"
proof (induction cs arbitrary: s items)
  case (Cons c cs)
  show ?case
  proof (cases c)
    case (DCall d)
    with Cons show ?thesis by (auto simp: run_simps dest: apply_inv)
  next
    case DPoll
    with Cons.prems obtain s1 r items1 where poll: "d_poll_next ops s = ret (s1, r)"
      and run: "discovery_run ops cs s1 = ret (s', items1)" and items: "items = yielded r @ items1"
      by (auto simp: run_simps)
    have "inv s1" using Cons.prems(1) poll by (rule poll_inv)
    with Cons.IH [OF _ run] Cons.prems poll items show ?thesis
      by (cases r rule: yielded.cases) (auto dest: poll_peer)
  qed
qed simp

end

end
