(* ===== verification/Mdns_Discovery.thy ===== *)
theory Mdns_Discovery
  imports Discovery Channel
begin

section \<open>Discovery over multicast DNS (\<open>src/discovery/mdns.rs\<close>)\<close>

text \<open>
  \<open>MdnsDiscovery\<close> owns an announcer and a locator of \<open>colmeia_hyperswarm_mdns\<close>, each on a
  multicast socket of \<open>multicast_socket\<close>; lookups and announces go into a channel. These crates,
  \<open>hex\<close> and the random identifier are the fields of \<open>mdns_env\<close>: a socket \<open>'m\<close>, an announcer \<open>'a\<close>,
  a locator \<open>'l\<close>, a pending future \<open>'f\<close>, the command channel \<open>'q\<close>, the world \<open>'w\<close>.
\<close>

datatype mdns_command = MdnsLookup topic | MdnsAnnounce topic

record ('w, 'm, 'a, 'l, 'f, 'q) mdns_env =
  me_all_interfaces :: "socket_addr \<Rightarrow> ('w, 'm io_result) action"
  me_random_id :: "('w, u8 array32) action"
  me_hex_encode :: "bytes \<Rightarrow> string"
  me_locator_listen :: "'m \<Rightarrow> duration \<Rightarrow> bytes \<Rightarrow> 'l"
  me_announcer_listen :: "'m \<Rightarrow> u16 \<Rightarrow> string \<Rightarrow> 'a"
  me_locator_poll :: "'l \<Rightarrow> 'l \<times> (bytes \<times> socket_addr) option poll"
  me_announcer_poll :: "'a \<Rightarrow> 'a \<times> unit option poll"
  me_future_poll :: "'f \<Rightarrow> 'f \<times> unit io_result poll"
  me_channel :: "('q, mdns_command) channel_ops"

subsection \<open>Configuration\<close>

record mdns_config =
  mc_id :: "u8 array32 option"
  mc_lookup_interval :: duration
  mc_announce_port :: "u16 option"

definition mdns_config_new :: mdns_config where
  "mdns_config_new =
     \<lparr>mc_id = None, mc_lookup_interval = duration_from_secs 60, mc_announce_port = None\<rparr>"

text \<open>The derived \<open>Default\<close>: every field's own default.\<close>

definition mdns_config_default :: mdns_config where
  "mdns_config_default =
     \<lparr>mc_id = None, mc_lookup_interval = duration_default, mc_announce_port = None\<rparr>"

definition mdns_config_set_id :: "u8 array32 \<Rightarrow> mdns_config \<Rightarrow> mdns_config" where
  "mdns_config_set_id self_id c = c\<lparr>mc_id := Some self_id\<rparr>"

definition mdns_config_set_lookup_interval :: "duration \<Rightarrow> mdns_config \<Rightarrow> mdns_config" where
  "mdns_config_set_lookup_interval interval c = c\<lparr>mc_lookup_interval := interval\<rparr>"

definition mdns_config_set_announce_port :: "u16 \<Rightarrow> mdns_config \<Rightarrow> mdns_config" where
  "mdns_config_set_announce_port port c = c\<lparr>mc_announce_port := Some port\<rparr>"

subsection \<open>Binding\<close>

definition mdns_ip :: ipv4_addr where
  "mdns_ip = Ipv4Addr 224 0 0 251"

definition mdns_socket_create ::
  "('w, 'm, 'a, 'l, 'f, 'q) mdns_env \<Rightarrow> ('w, 'm io_result) action" where
  "mdns_socket_create env = me_all_interfaces env (SocketV4 mdns_ip 5353)"

record ('a, 'l, 'f, 'q) mdns_discovery =
  mdns_announcer :: 'a
  mdns_locator :: 'l
  mdns_pending_commands :: 'q
  mdns_pending_future :: "'f option"

definition debug_mdns_discovery :: "('a, 'l, 'f, 'q) mdns_discovery \<Rightarrow> string" where
  "debug_mdns_discovery s = debug_struct ''MdnsDiscovery'' []"

definition mdns_bind ::
  "('w, 'm, 'a, 'l, 'f, 'q) mdns_env \<Rightarrow> mdns_config \<Rightarrow> u16 \<Rightarrow>
     ('w, ('a, 'l, 'f, 'q) mdns_discovery io_result) action" where
  "mdns_bind env config announce_port =
     act_bind (case mc_id config of Some i \<Rightarrow> act_return i | None \<Rightarrow> me_random_id env) (\<lambda>self_id.
     try_bind (mdns_socket_create env) (\<lambda>socket.
     let locator = me_locator_listen env socket (mc_lookup_interval config) (array32_list self_id) in
     try_bind (mdns_socket_create env) (\<lambda>socket.
     let announcer = me_announcer_listen env socket announce_port
                       (me_hex_encode env (array32_list self_id)) in
     act_return (Inr \<lparr>mdns_announcer = announcer, mdns_locator = locator,
                      mdns_pending_commands = ch_unbounded (me_channel env),
                      mdns_pending_future = None\<rparr>))))"

subsection \<open>Operations\<close>

definition mdns_send ::
  "('w, 'm, 'a, 'l, 'f, 'q) mdns_env \<Rightarrow> mdns_command \<Rightarrow> ('a, 'l, 'f, 'q) mdns_discovery \<Rightarrow>
     ('a, 'l, 'f, 'q) mdns_discovery run" where
  "mdns_send env command s =
     (case ch_try_send (me_channel env) command (mdns_pending_commands s) of
        (queue, r) \<Rightarrow> run_bind (unwrap_res r) (\<lambda>_. ret (s\<lparr>mdns_pending_commands := queue\<rparr>)))"

definition mdns_lookup ::
  "('w, 'm, 'a, 'l, 'f, 'q) mdns_env \<Rightarrow> topic \<Rightarrow> ('a, 'l, 'f, 'q) mdns_discovery \<Rightarrow>
     ('a, 'l, 'f, 'q) mdns_discovery run" where
  "mdns_lookup env topic s = mdns_send env (MdnsLookup topic) s"

definition mdns_announce ::
  "('w, 'm, 'a, 'l, 'f, 'q) mdns_env \<Rightarrow> topic \<Rightarrow> ('a, 'l, 'f, 'q) mdns_discovery \<Rightarrow>
     ('a, 'l, 'f, 'q) mdns_discovery run" where
  "mdns_announce env topic s = mdns_send env (MdnsAnnounce topic) s"

definition poll_pending_future ::
  "('w, 'm, 'a, 'l, 'f, 'q) mdns_env \<Rightarrow> ('a, 'l, 'f, 'q) mdns_discovery \<Rightarrow>
     ('a, 'l, 'f, 'q) mdns_discovery \<times> unit io_result poll" where
  "poll_pending_future env s =
     (case mdns_pending_future s of
        None \<Rightarrow> (s, Ready (Inr ()))
      | Some fut \<Rightarrow>
          (case me_future_poll env fut of
             (fut', Pending) \<Rightarrow> (s\<lparr>mdns_pending_future := Some fut'\<rparr>, Pending)
           | (fut', Ready res) \<Rightarrow>
               let s1 = s\<lparr>mdns_pending_future := None\<rparr> in
               (case res of
                  Inl e \<Rightarrow> (s1, Ready (Inl e))
                | Inr _ \<Rightarrow> (s1, Ready (Inr ())))))"

definition mdns_poll_next ::
  "('w, 'm, 'a, 'l, 'f, 'q) mdns_env \<Rightarrow> ('a, 'l, 'f, 'q) mdns_discovery \<Rightarrow>
     ('a, 'l, 'f, 'q) mdns_discovery \<times> peer_info io_result option poll" where
  "mdns_poll_next env s =
     (case poll_pending_future env s of
        (s1, Pending) \<Rightarrow> (s1, Pending)
      | (s1, Ready (Inl e)) \<Rightarrow> (s1, Ready (Some (Inl e)))
      | (s1, Ready (Inr _)) \<Rightarrow>
          (case ch_poll_next (me_channel env) (mdns_pending_commands s1) of (queue, _) \<Rightarrow>
           let s2 = s1\<lparr>mdns_pending_commands := queue\<rparr> in
           (case poll_pending_future env s2 of
              (s3, Pending) \<Rightarrow> (s3, Pending)
            | (s3, Ready (Inl e)) \<Rightarrow> (s3, Ready (Some (Inl e)))
            | (s3, Ready (Inr _)) \<Rightarrow>
                (case me_announcer_poll env (mdns_announcer s3) of (announcer, _) \<Rightarrow>
                 let s4 = s3\<lparr>mdns_announcer := announcer\<rparr> in
                 (case me_locator_poll env (mdns_locator s4) of
                    (locator, Pending) \<Rightarrow> (s4\<lparr>mdns_locator := locator\<rparr>, Pending)
                  | (locator, Ready res) \<Rightarrow>
                      let s5 = s4\<lparr>mdns_locator := locator\<rparr> in
                      (case res of
                         Some (topic, peer_addr) \<Rightarrow>
                           (case array32_try_from topic of
                              Some topic \<Rightarrow>
                                (s5, Ready (Some (Inr (peer_info_new peer_addr (Some topic) Mdns))))
                            | None \<Rightarrow>
                                (s5, Ready (Some (Inl (IoError OtherKind ''Received invalid topic'')))))
                       | None \<Rightarrow> (s5, Pending)))))))"

definition mdns_ops ::
  "('w, 'm, 'a, 'l, 'f, 'q) mdns_env \<Rightarrow> ('a, 'l, 'f, 'q) mdns_discovery discovery_ops" where
  "mdns_ops env =
     \<lparr>d_lookup = mdns_lookup env, d_announce = mdns_announce env,
      d_poll_next = (\<lambda>s. ret (mdns_poll_next env s))\<rparr>"

lemma mdns_ops_simps [simp]:
  "d_lookup (mdns_ops env) = mdns_lookup env"
  "d_announce (mdns_ops env) = mdns_announce env"
  "d_poll_next (mdns_ops env) s = ret (mdns_poll_next env s)"
  by (simp_all add: mdns_ops_def)

subsection \<open>The contract\<close>

text \<open>What the result of polling the locator becomes.\<close>

fun mdns_item :: "(bytes \<times> socket_addr) option poll \<Rightarrow> peer_info io_result option poll" where
  "mdns_item Pending = Pending"
| "mdns_item (Ready None) = Pending"
| "mdns_item (Ready (Some (bs, addr))) =
     Ready (Some (case array32_try_from bs of
       Some topic \<Rightarrow> Inr (peer_info_new addr (Some topic) Mdns)
     | None \<Rightarrow> Inl (IoError OtherKind ''Received invalid topic'')))"

text \<open>A poll with no future pending: one command is taken off the queue and dropped.\<close>

lemma mdns_poll_idle:
  assumes "mdns_pending_future s = None"
  shows "mdns_poll_next env s =
    (s\<lparr>mdns_announcer := fst (me_announcer_poll env (mdns_announcer s)),
       mdns_locator := fst (me_locator_poll env (mdns_locator s)),
       mdns_pending_commands := fst (ch_poll_next (me_channel env) (mdns_pending_commands s))\<rparr>,
     mdns_item (snd (me_locator_poll env (mdns_locator s))))"
proof -
  obtain queue c where queue: "ch_poll_next (me_channel env) (mdns_pending_commands s) = (queue, c)"
    by fastforce
  obtain announcer x where announcer: "me_announcer_poll env (mdns_announcer s) = (announcer, x)"
    by fastforce
  obtain locator p where locator: "me_locator_poll env (mdns_locator s) = (locator, p)"
    by fastforce
  show ?thesis
    by (cases p rule: mdns_item.cases)
       (simp_all add: mdns_poll_next_def poll_pending_future_def assms queue announcer locator Let_def
          split: option.splits)
qed

text \<open>
  The invariant: the channel is one of the documented kind and still open, and no future is
  pending. No operation stores a future, so the second part holds from the start.
\<close>

definition mdns_inv ::
  "('w, 'm, 'a, 'l, 'f, 'q) mdns_env \<Rightarrow> ('q \<Rightarrow> mdns_command list) \<Rightarrow> ('q \<Rightarrow> bool) \<Rightarrow>
     ('a, 'l, 'f, 'q) mdns_discovery \<Rightarrow> bool" where
  "mdns_inv env contents closed s \<longleftrightarrow>
     channel_laws (me_channel env) contents closed \<and> \<not> closed (mdns_pending_commands s) \<and>
     mdns_pending_future s = None"

lemma mdns_send_ok:
  assumes "mdns_inv env contents closed s"
  shows "\<exists>queue. mdns_send env c s = ret (s\<lparr>mdns_pending_commands := queue\<rparr>) \<and>
    mdns_inv env contents closed (s\<lparr>mdns_pending_commands := queue\<rparr>) \<and>
    contents queue = contents (mdns_pending_commands s) @ [c]"
  using assms channel_lawsD(3) [of "me_channel env" contents closed "mdns_pending_commands s" c]
  by (auto simp: mdns_inv_def mdns_send_def)

lemma mdns_poll_queue:
  assumes "mdns_inv env contents closed s"
  shows "\<not> closed (fst (ch_poll_next (me_channel env) (mdns_pending_commands s))) \<and>
    contents (fst (ch_poll_next (me_channel env) (mdns_pending_commands s))) =
      tl (contents (mdns_pending_commands s))"
  using assms channel_poll_queue [of "me_channel env" contents closed "mdns_pending_commands s"]
  by (simp add: mdns_inv_def)

lemma mdns_poll_inv:
  "mdns_inv env contents closed s \<Longrightarrow> mdns_inv env contents closed (fst (mdns_poll_next env s))"
  using mdns_poll_queue [of env contents closed s] by (simp add: mdns_inv_def mdns_poll_idle)

lemma mdns_item_simps [simp]: "mdns_item p \<noteq> Ready None"
  by (cases p rule: mdns_item.cases) auto

lemma mdns_item_peer:
  "mdns_item p = Ready (Some (Inr q)) \<Longrightarrow> pi_topic q \<noteq> None \<and> pi_discovery_method q = Mdns"
  by (cases p rule: mdns_item.cases) (auto split: option.splits)

interpretation mdns: discovery "mdns_ops env" "mdns_inv env contents closed" "{Mdns}"
  for env :: "('w, 'm, 'a, 'l, 'f, 'q) mdns_env" and contents closed
proof unfold_locales
  fix s s' :: "('a, 'l, 'f, 'q) mdns_discovery" and r t p
  assume inv: "mdns_inv env contents closed s"
  then show "\<exists>s'. d_lookup (mdns_ops env) t s = ret s' \<and> mdns_inv env contents closed s'"
    and "\<exists>s'. d_announce (mdns_ops env) t s = ret s' \<and> mdns_inv env contents closed s'"
    using mdns_send_ok [OF inv] by (auto simp: mdns_lookup_def mdns_announce_def)
  show "d_poll_next (mdns_ops env) s = ret (s', r) \<Longrightarrow> mdns_inv env contents closed s'"
    using mdns_poll_inv [OF inv] by (auto simp: prod_eq_iff)
  show "d_poll_next (mdns_ops env) s = ret (s', r) \<Longrightarrow> r \<noteq> Ready None"
    using inv by (auto simp: mdns_poll_idle mdns_inv_def)
  show "d_poll_next (mdns_ops env) s = ret (s', Ready (Some (Inr p))) \<Longrightarrow>
      pi_topic p \<noteq> None \<and> pi_discovery_method p \<in> {Mdns}"
    using inv by (auto simp: mdns_poll_idle mdns_inv_def dest: mdns_item_peer)
qed

lemma mdns_bind_ok:
  assumes "mdns_bind env config port w = ret (Inr s, w')"
    and "channel_laws (me_channel env) contents closed"
  shows "mdns_inv env contents closed s \<and> contents (mdns_pending_commands s) = []"
  using assms channel_lawsD(1,2) [OF assms(2)]
  by (auto simp: mdns_bind_def mdns_inv_def run_simps act_bind_def Let_def case_prod_beta)

subsection \<open>A scripted network\<close>

text \<open>
  A concrete environment for examples: the locator is the list of responses it will receive, the
  announcer keeps the port and the identifier it was started with, and the random identifier is
  all zeros.
\<close>

definition mdns_script ::
  "(unit, unit, u16 \<times> string, (bytes \<times> socket_addr) list, unit, mdns_command list \<times> bool) mdns_env"
where
  "mdns_script =
     \<lparr>me_all_interfaces = (\<lambda>a w. ret (Inr (), w)), me_random_id = (\<lambda>w. ret (array32_fill 0, w)),
      me_hex_encode = (\<lambda>bs. concat (map (\<lambda>b. show_hex (unat b)) bs)),
      me_locator_listen = (\<lambda>_ _ _. []), me_announcer_listen = (\<lambda>_ port name. (port, name)),
      me_locator_poll = (\<lambda>l. case l of [] \<Rightarrow> ([], Pending) | r # rs \<Rightarrow> (rs, Ready (Some r))),
      me_announcer_poll = (\<lambda>a. (a, Pending)), me_future_poll = (\<lambda>f. (f, Pending)),
      me_channel = list_channel\<rparr>"

lemma mdns_script_simps [simp]:
  "me_locator_poll mdns_script [] = ([], Pending)"
  "me_locator_poll mdns_script (r # rs) = (rs, Ready (Some r))"
  "me_announcer_poll mdns_script a = (a, Pending)"
  "me_channel mdns_script = list_channel"
  by (simp_all add: mdns_script_def)

definition mdns_start ::
  "(bytes \<times> socket_addr) list \<Rightarrow>
     (u16 \<times> string, (bytes \<times> socket_addr) list, unit, mdns_command list \<times> bool) mdns_discovery" where
  "mdns_start responses =
     \<lparr>mdns_announcer = (4000, ''00''), mdns_locator = responses,
      mdns_pending_commands = ([], False), mdns_pending_future = None\<rparr>"

lemma mdns_start_inv: "mdns_inv mdns_script fst snd (mdns_start responses)"
  by (simp add: mdns_inv_def mdns_start_def list_channel_laws)

subsection \<open>Properties\<close>

lemma mdns_apply_call:
  "discovery_apply (mdns_ops env) c s =
     mdns_send env (case c of Lookup t \<Rightarrow> MdnsLookup t | Announce t \<Rightarrow> MdnsAnnounce t) s"
  by (cases c) (simp_all add: mdns_lookup_def mdns_announce_def)

lemma mdns_run_ignores_calls:
  assumes "mdns_inv env contents closed s" and "mdns_inv env contents closed t"
    and "mdns_announcer t = mdns_announcer s" and "mdns_locator t = mdns_locator s"
    and "discovery_run (mdns_ops env) steps s = ret (s', items)"
  shows "\<exists>t'. discovery_run (mdns_ops env) (filter (\<lambda>step. step = DPoll) steps) t = ret (t', items) \<and>
    mdns_announcer t' = mdns_announcer s' \<and> mdns_locator t' = mdns_locator s'"
  using assms
proof (induction steps arbitrary: s t items)
  case (Cons step steps)
  show ?case
  proof (cases step)
    case (DCall c)
    obtain queue where "discovery_apply (mdns_ops env) c s = ret (s\<lparr>mdns_pending_commands := queue\<rparr>)"
      and "mdns_inv env contents closed (s\<lparr>mdns_pending_commands := queue\<rparr>)"
      using mdns_send_ok [OF Cons.prems(1)] by (auto simp: mdns_apply_call)
    with Cons.prems Cons.IH [of "s\<lparr>mdns_pending_commands := queue\<rparr>" t items] DCall
    show ?thesis by simp
  next
    case DPoll
    have idle: "mdns_pending_future s = None" "mdns_pending_future t = None"
      using Cons.prems(1,2) by (simp_all add: mdns_inv_def)
    let ?s = "fst (mdns_poll_next env s)" and ?t = "fst (mdns_poll_next env t)"
    have same: "snd (mdns_poll_next env t) = snd (mdns_poll_next env s)"
      "mdns_announcer ?t = mdns_announcer ?s" "mdns_locator ?t = mdns_locator ?s"
      using Cons.prems(3,4) by (simp_all add: mdns_poll_idle idle)
    from Cons.prems(5) DPoll obtain items1
      where run: "discovery_run (mdns_ops env) steps ?s = ret (s', items1)"
        and items: "items = yielded (snd (mdns_poll_next env s)) @ items1"
      by (auto simp: run_simps case_prod_beta)
    from Cons.IH [OF mdns_poll_inv [OF Cons.prems(1)] mdns_poll_inv [OF Cons.prems(2)] same(2,3) run]
    show ?thesis
      using DPoll by (auto simp: case_prod_beta same(1) items)
  qed
qed auto

text \<open>
  C39: Lookups and announces have no effect on the mDNS discovery but to fill its queue: over any
  sequence of calls and polls, the items found, the announcer and the locator are those of the
  same polls with no call made at all. (The calls that would add a topic to the announcer or the
  locator are commented out in the source.)
\<close>

theorem mdns_commands_ignored:
  assumes "mdns_inv env contents closed s"
    and "discovery_run (mdns_ops env) steps s = ret (s', items)"
  shows "\<exists>t'. discovery_run (mdns_ops env) (filter (\<lambda>step. step = DPoll) steps) s = ret (t', items) \<and>
           mdns_announcer t' = mdns_announcer s' \<and> mdns_locator t' = mdns_locator s'"
  using mdns_run_ignores_calls [OF assms(1) assms(1) refl refl assms(2)] .

theorem mdns_commands_ignored_witness:
  "\<exists>t'. discovery_run (mdns_ops mdns_script) [DPoll]
      (mdns_start [(replicate 32 7, SocketV4 (Ipv4Addr 10 0 0 1) 80)]) =
      ret (t', [Inr (peer_info_new (SocketV4 (Ipv4Addr 10 0 0 1) 80) (Some (array32_fill 7)) Mdns)]) \<and>
    mdns_announcer t' = (4000, ''00'')"
proof -
  have seven: "replicate 32 7 = array32_list (array32_fill (7 :: u8))"
    by (simp add: array32_fill_list)
  let ?s = "mdns_start [(replicate 32 7, SocketV4 (Ipv4Addr 10 0 0 1) 80)]"
  let ?items = "[Inr (peer_info_new (SocketV4 (Ipv4Addr 10 0 0 1) 80) (Some (array32_fill 7)) Mdns)]"
  obtain s' where "discovery_run (mdns_ops mdns_script)
      [DCall (Announce (array32_fill 1)), DCall (Lookup (array32_fill 2)), DPoll] ?s = ret (s', ?items)"
    and "mdns_announcer s' = (4000, ''00'')"
    unfolding seven
    by (simp add: mdns_start_def mdns_lookup_def mdns_announce_def mdns_send_def mdns_poll_idle)
  with mdns_commands_ignored [OF mdns_start_inv this(1)] show ?thesis by auto
qed

text \<open>
  A poll of the mDNS discovery: a response with a topic of 32 bytes is the peer at the
  sender's address under that topic, a response of any other length is an error and nothing else
  changes; with no response, or once the locator has ended, the poll is pending. Each poll takes
  at most one queued command.
\<close>

lemma mdns_poll_outcome:
  assumes "mdns_inv env contents closed s" and "me_locator_poll env (mdns_locator s) = (l', p)"
  shows "\<exists>s'. mdns_poll_next env s =
      (s', case p of
             Ready (Some (bs, addr)) \<Rightarrow>
               if length bs = 32
               then Ready (Some (Inr \<lparr>pi_addr = addr, pi_topic = Some (Array32 bs),
                                      pi_discovery_method = Mdns\<rparr>))
               else Ready (Some (Inl (IoError OtherKind ''Received invalid topic'')))
           | _ \<Rightarrow> Pending) \<and>
    mdns_locator s' = l' \<and>
    contents (mdns_pending_commands s') = tl (contents (mdns_pending_commands s))"
proof -
  have topic: "length bs = 32 \<Longrightarrow> array32_try_from bs = Some (Array32 bs)" for bs :: bytes
    by (simp add: Array32_inverse)
  have "mdns_pending_future s = None" using assms(1) by (simp add: mdns_inv_def)
  with mdns_poll_queue [OF assms(1)] show ?thesis
    by (cases p rule: mdns_item.cases)
       (auto simp: mdns_poll_idle assms(2) topic peer_info_new_def split: option.splits)
qed

lemma mdns_poll_outcome_example:
  "snd (mdns_poll_next mdns_script (mdns_start [([1, 2, 3], SocketV4 (Ipv4Addr 10 0 0 1) 80)])) =
     Ready (Some (Inl (IoError OtherKind ''Received invalid topic'')))"
  using mdns_poll_outcome [OF mdns_start_inv, of "[([1, 2, 3], SocketV4 (Ipv4Addr 10 0 0 1) 80)]"
      "[]" "Ready (Some ([1, 2, 3], SocketV4 (Ipv4Addr 10 0 0 1) 80))"]
  by (auto simp: mdns_start_def)

end
