(* ===== verification/Config.thy ===== *)
theory Config
  imports Mdns_Discovery
begin

section \<open>Configuration (\<open>src/config.rs\<close>)\<close>

text \<open>
  The builder \<open>Config\<close> and the per-topic \<open>TopicConfig\<close>. \<open>DhtConfig\<close> is a type of the third-party
  crate \<open>hyperswarm_dht\<close>: a type \<open>'c\<close> whose constructors and setters are the fields of
  \<open>dht_config_ops\<close>. \<open>set_bootstrap_nodes\<close> is generic over \<open>ToSocketAddrs\<close>, so all it can see of the nodes is
  what each resolves to, and that is the argument of its field.
\<close>

record ('w, 'c) dht_config_ops =
  dc_default :: 'c
  dc_set_bootstrap_nodes :: "socket_addr list io_result list \<Rightarrow> 'c \<Rightarrow> 'c"
  dc_empty_bootstrap_nodes :: "'c \<Rightarrow> 'c"
  dc_set_ephemeral :: "bool \<Rightarrow> 'c \<Rightarrow> 'c"
  dc_bind :: "socket_addr \<Rightarrow> 'c \<Rightarrow> ('w, ('c \<times> io_error) + 'c) action"

text \<open>A configuration for examples: a list, which the setters leave as it is.\<close>

definition dht_config_script :: "(unit, 'e list) dht_config_ops" where
  "dht_config_script =
     \<lparr>dc_default = [], dc_set_bootstrap_nodes = (\<lambda>_ c. c), dc_empty_bootstrap_nodes = (\<lambda>c. c),
      dc_set_ephemeral = (\<lambda>_ c. c), dc_bind = (\<lambda>_ c w. ret (Inr c, w))\<rparr>"

lemma dht_config_script_simps [simp]:
  "dc_default dht_config_script = []"
  "dc_set_bootstrap_nodes dht_config_script nodes c = c"
  "dc_empty_bootstrap_nodes dht_config_script c = c"
  "dc_set_ephemeral dht_config_script e c = c"
  "dc_bind dht_config_script a c w = ret (Inr c, w)"
  by (simp_all add: dht_config_script_def)

subsection \<open>\<open>Config\<close>\<close>

record 'c config =
  cfg_mdns :: "mdns_config option"
  cfg_dht :: "'c option"
  cfg_local_addr :: "socket_addr option"

definition config_default :: "'c config" where
  "config_default = \<lparr>cfg_mdns = None, cfg_dht = None, cfg_local_addr = None\<rparr>"

definition config_new :: "'c config" where
  "config_new = config_default"

definition config_all :: "('w, 'c) dht_config_ops \<Rightarrow> 'c config" where
  "config_all dc =
     \<lparr>cfg_mdns = Some mdns_config_default, cfg_dht = Some (dc_default dc), cfg_local_addr = None\<rparr>"

text \<open>\<open>Option::or_else\<close> takes a function that returns an option, so the \<open>Default::default\<close> that
  \<open>with_defaults\<close> passes to it is the default of the option type, \<open>None\<close>.\<close>

fun or_else :: "'a option \<Rightarrow> (unit \<Rightarrow> 'a option) \<Rightarrow> 'a option" where
  "or_else (Some x) f = Some x"
| "or_else None f = f ()"

definition option_default :: "unit \<Rightarrow> 'a option" where
  "option_default _ = None"

definition with_defaults :: "'c config \<Rightarrow> 'c config" where
  "with_defaults c =
     (let c1 = c\<lparr>cfg_mdns := or_else (cfg_mdns c) option_default\<rparr>
      in c1\<lparr>cfg_dht := or_else (cfg_dht c1) option_default\<rparr>)"

definition set_dht :: "'c \<Rightarrow> 'c config \<Rightarrow> 'c config" where
  "set_dht dht c = c\<lparr>cfg_dht := Some dht\<rparr>"

definition set_mdns :: "mdns_config \<Rightarrow> 'c config \<Rightarrow> 'c config" where
  "set_mdns mdns c = c\<lparr>cfg_mdns := Some mdns\<rparr>"

definition set_local_addr :: "socket_addr \<Rightarrow> 'c config \<Rightarrow> 'c config" where
  "set_local_addr address c = c\<lparr>cfg_local_addr := Some address\<rparr>"

fun unwrap_or :: "'a \<Rightarrow> 'a option \<Rightarrow> 'a" where
  "unwrap_or d None = d"
| "unwrap_or d (Some x) = x"

definition set_bootstrap_nodes ::
  "('w, 'c) dht_config_ops \<Rightarrow> 'n resolver \<Rightarrow> 'n list \<Rightarrow> 'c config \<Rightarrow> 'c config" where
  "set_bootstrap_nodes dc resolve addresses c =
     c\<lparr>cfg_dht := Some (dc_set_bootstrap_nodes dc (map resolve addresses)
                       (unwrap_or (dc_default dc) (cfg_dht c)))\<rparr>"

definition set_ephemeral ::
  "('w, 'c) dht_config_ops \<Rightarrow> bool \<Rightarrow> 'c config \<Rightarrow> 'c config" where
  "set_ephemeral dc ephemeral c =
     c\<lparr>cfg_dht := Some (dc_set_ephemeral dc ephemeral (unwrap_or (dc_default dc) (cfg_dht c)))\<rparr>"

subsection \<open>\<open>TopicConfig\<close>\<close>

record topic_config =
  tc_announce :: bool
  tc_lookup :: bool

definition topic_config_default :: topic_config where
  "topic_config_default = \<lparr>tc_announce = False, tc_lookup = False\<rparr>"

definition topic_config_both :: topic_config where
  "topic_config_both = \<lparr>tc_announce = True, tc_lookup = True\<rparr>"

definition announce_and_lookup :: topic_config where
  "announce_and_lookup = topic_config_both"

lemma topic_config_simps [simp]:
  "tc_announce topic_config_default = False" "tc_lookup topic_config_default = False"
  "tc_announce topic_config_both = True" "tc_lookup topic_config_both = True"
  by (simp_all add: topic_config_default_def topic_config_both_def)

subsection \<open>Properties\<close>

lemma or_else_default [simp]: "or_else x option_default = x"
  by (cases x) (simp_all add: option_default_def)

text \<open>
  \<open>with_defaults\<close> fills nothing in: a section that is unset stays unset, so the method is
  the identity, and a configuration built with \<open>new().with_defaults()\<close> is not the one of \<open>all()\<close>,
  whose two sections are set.
\<close>

lemma with_defaults_fills_nothing:
  "with_defaults c = c \<and> with_defaults config_new \<noteq> config_all dc"
  by (simp add: with_defaults_def config_new_def config_default_def config_all_def)

text \<open>
  The two shortcuts start from the DHT section already set, or from the default one, and
  change nothing else: bootstrap nodes then the ephemeral flag give the section that the setters of
  \<open>DhtConfig\<close> give on it in that order, a section set afterwards replaces it, and the address and
  the mDNS section set before or after survive.
\<close>

lemma config_builder:
  "set_ephemeral dc e (set_bootstrap_nodes dc resolve nodes (set_local_addr a (set_mdns m c))) =
     \<lparr>cfg_mdns = Some m,
      cfg_dht = Some (dc_set_ephemeral dc e (dc_set_bootstrap_nodes dc (map resolve nodes)
                  (case cfg_dht c of None \<Rightarrow> dc_default dc | Some d \<Rightarrow> d))),
      cfg_local_addr = Some a\<rparr> \<and>
   set_local_addr a (set_bootstrap_nodes dc resolve nodes c) = set_bootstrap_nodes dc resolve nodes (set_local_addr a c) \<and>
   set_dht d (set_ephemeral dc e c) = set_dht d c"
  by (cases "cfg_dht c")
     (simp_all add: set_ephemeral_def set_bootstrap_nodes_def set_local_addr_def set_mdns_def set_dht_def)

end
