(* ===== verification/Dht_Discovery.thy ===== *)
theory Dht_Discovery
  imports Discovery
begin

section \<open>Discovery over the DHT (\<open>src/discovery/dht.rs\<close>)\<close>

text \<open>
  \<open>DhtDiscovery\<close> queues lookups and announces until the DHT node is bootstrapped, forwards them in
  order, and turns lookup results into a queue of peers. The node is \<open>HyperDht\<close> of the third-party
  crate \<open>hyperswarm_dht\<close>: its calls are the fields of \<open>dht_env\<close> over a node state \<open>'d\<close> and a
  configuration \<open>'c\<close>. Of its events the model has the cases and the payload that the code matches.
\<close>

datatype id_bytes = IdBytes (id_array: "u8 array32")

record query_opts =
  qo_topic :: id_bytes
  qo_port :: "u32 option"
  qo_local_addr :: "socket_addr option"

datatype hyper_dht_event =
    Bootstrapped
  | AnnounceResult
  | LookupResult id_bytes "socket_addr list"
  | UnAnnounceResult
  | OtherEvent

record ('w, 'c, 'd) dht_env =
  he_with_config :: "'c \<Rightarrow> ('w, 'd io_result) action"
  he_announce :: "query_opts \<Rightarrow> 'd \<Rightarrow> 'd"
  he_lookup :: "query_opts \<Rightarrow> 'd \<Rightarrow> 'd"
  he_poll :: "'d \<Rightarrow> 'd \<times> hyper_dht_event option poll"

datatype dht_command = DhtLookup query_opts | DhtAnnounce query_opts

record 'd dht_discovery =
  dht_state :: 'd
  dht_bootstrapped :: bool
  dht_announce_port :: u16
  dht_pending_commands :: "dht_command list"
  dht_pending_events :: "peer_info list"

definition debug_dht_discovery :: "'d dht_discovery \<Rightarrow> string" where
  "debug_dht_discovery s =
     debug_struct ''DhtDiscovery''
       [(''bootstrapped'', show_bool (dht_bootstrapped s)), (''announce_port'', show_dec (unat (dht_announce_port s)))]"

definition dht_bind ::
  "('w, 'c, 'd) dht_env \<Rightarrow> 'c \<Rightarrow> u16 \<Rightarrow> ('w, 'd dht_discovery io_result) action" where
  "dht_bind env config announce_port =
     try_bind (he_with_config env config) (\<lambda>state.
       act_return (Inr \<lparr>dht_state = state, dht_bootstrapped = False,
                        dht_announce_port = announce_port,
                        dht_pending_commands = [], dht_pending_events = []\<rparr>))"

subsection \<open>Commands\<close>

definition dht_lookup :: "topic \<Rightarrow> 'd dht_discovery \<Rightarrow> 'd dht_discovery" where
  "dht_lookup topic s =
     (let opts = \<lparr>qo_topic = IdBytes topic, qo_port = Some (ucast (dht_announce_port s)),
                  qo_local_addr = None\<rparr>
      in s\<lparr>dht_pending_commands := dht_pending_commands s @ [DhtLookup opts]\<rparr>)"

definition dht_announce :: "topic \<Rightarrow> 'd dht_discovery \<Rightarrow> 'd dht_discovery" where
  "dht_announce topic s =
     (let opts = \<lparr>qo_topic = IdBytes topic, qo_port = Some (ucast (dht_announce_port s)),
                  qo_local_addr = None\<rparr>
      in s\<lparr>dht_pending_commands := dht_pending_commands s @ [DhtAnnounce opts]\<rparr>)"

function execute_pending_commands ::
  "('w, 'c, 'd) dht_env \<Rightarrow> 'd dht_discovery \<Rightarrow> 'd dht_discovery" where
  "execute_pending_commands env s =
     (case dht_pending_commands s of
        [] \<Rightarrow> s
      | command # rest \<Rightarrow>
          let s1 = s\<lparr>dht_pending_commands := rest\<rparr> in
          execute_pending_commands env
            (case command of
               DhtAnnounce opts \<Rightarrow> s1\<lparr>dht_state := he_announce env opts (dht_state s1)\<rparr>
             | DhtLookup opts \<Rightarrow> s1\<lparr>dht_state := he_lookup env opts (dht_state s1)\<rparr>))"
  by pat_completeness auto
termination
  by (relation "measure (\<lambda>(env, s). length (dht_pending_commands s))")
     (auto split: dht_command.splits)

declare execute_pending_commands.simps [simp del]

text \<open>The loop runs the queued commands on the node, in order, and leaves the queue empty.\<close>

fun dht_run_command :: "('w, 'c, 'd) dht_env \<Rightarrow> dht_command \<Rightarrow> 'd \<Rightarrow> 'd" where
  "dht_run_command env (DhtAnnounce opts) d = he_announce env opts d"
| "dht_run_command env (DhtLookup opts) d = he_lookup env opts d"

lemma execute_pending_commands_fold:
  "execute_pending_commands env s =
     s\<lparr>dht_state := fold (dht_run_command env) (dht_pending_commands s) (dht_state s),
       dht_pending_commands := []\<rparr>"
proof (induction env s rule: execute_pending_commands.induct)
  case (1 env s)
  show ?case
  proof (cases "dht_pending_commands s")
    case Nil
    then show ?thesis by (simp add: execute_pending_commands.simps [of env s])
  next
    case (Cons c cs)
    with 1 [OF Cons refl] show ?thesis
      by (cases c) (simp_all add: execute_pending_commands.simps [of env s])
  qed
qed

subsection \<open>Events\<close>

fun push_peers :: "topic \<Rightarrow> socket_addr list \<Rightarrow> 'd dht_discovery \<Rightarrow> 'd dht_discovery" where
  "push_peers topic [] s = s"
| "push_peers topic (addr # peers) s =
     (let info = peer_info_new addr (Some topic) Dht in
      push_peers topic peers (s\<lparr>dht_pending_events := dht_pending_events s @ [info]\<rparr>))"

fun dht_on_event :: "hyper_dht_event \<Rightarrow> 'd dht_discovery \<Rightarrow> 'd dht_discovery" where
  "dht_on_event Bootstrapped s = s\<lparr>dht_bootstrapped := True\<rparr>"
| "dht_on_event AnnounceResult s = s"
| "dht_on_event (LookupResult topic remotes) s = push_peers (id_array topic) remotes s"
| "dht_on_event UnAnnounceResult s = s"
| "dht_on_event OtherEvent s = s"

text \<open>One turn of the loop until the DHT is polled.\<close>

partial_function (option) dht_poll_next ::
  "('w, 'c, 'd) dht_env \<Rightarrow> 'd dht_discovery \<Rightarrow>
     ('d dht_discovery \<times> peer_info io_result option poll) run" where
  "dht_poll_next env s =
     (case dht_pending_events s of
        event # rest \<Rightarrow> ret (s\<lparr>dht_pending_events := rest\<rparr>, Ready (Some (Inr event)))
      | [] \<Rightarrow>
          let s1 = (if dht_bootstrapped s then execute_pending_commands env s else s) in
          (case he_poll env (dht_state s1) of
             (d, Pending) \<Rightarrow> ret (s1\<lparr>dht_state := d\<rparr>, Pending)
           | (d, Ready None) \<Rightarrow> panic
           | (d, Ready (Some event)) \<Rightarrow> dht_poll_next env (dht_on_event event (s1\<lparr>dht_state := d\<rparr>))))"

definition dht_ops :: "('w, 'c, 'd) dht_env \<Rightarrow> 'd dht_discovery discovery_ops" where
  "dht_ops env =
     \<lparr>d_lookup = (\<lambda>t s. ret (dht_lookup t s)), d_announce = (\<lambda>t s. ret (dht_announce t s)),
      d_poll_next = dht_poll_next env\<rparr>"

lemma dht_ops_simps [simp]:
  "d_lookup (dht_ops env) t s = ret (dht_lookup t s)"
  "d_announce (dht_ops env) t s = ret (dht_announce t s)"
  "d_poll_next (dht_ops env) = dht_poll_next env"
  by (simp_all add: dht_ops_def)

subsection \<open>Reasoning about the loop\<close>

definition event_peers :: "hyper_dht_event \<Rightarrow> peer_info list" where
  "event_peers event =
     (case event of
        LookupResult topic remotes \<Rightarrow>
          map (\<lambda>addr. peer_info_new addr (Some (id_array topic)) Dht) remotes
      | _ \<Rightarrow> [])"

lemma push_peers_eq:
  "push_peers topic remotes s =
     s\<lparr>dht_pending_events :=
         dht_pending_events s @ map (\<lambda>addr. peer_info_new addr (Some topic) Dht) remotes\<rparr>"
  by (induction remotes arbitrary: s) (simp_all add: Let_def)

lemma dht_on_event_eq:
  "dht_on_event event s =
     s\<lparr>dht_bootstrapped := dht_bootstrapped s \<or> event = Bootstrapped,
       dht_pending_events := dht_pending_events s @ event_peers event\<rparr>"
  by (cases event) (simp_all add: push_peers_eq event_peers_def)

text \<open>The state in which one turn of the loop polls the node.\<close>

definition dht_flush :: "('w, 'c, 'd) dht_env \<Rightarrow> 'd dht_discovery \<Rightarrow> 'd dht_discovery" where
  "dht_flush env s = (if dht_bootstrapped s then execute_pending_commands env s else s)"

lemma dht_flush_simps [simp]:
  "dht_bootstrapped (dht_flush env s) = dht_bootstrapped s"
  "dht_announce_port (dht_flush env s) = dht_announce_port s"
  "dht_pending_events (dht_flush env s) = dht_pending_events s"
  "dht_pending_commands (dht_flush env s) =
     (if dht_bootstrapped s then [] else dht_pending_commands s)"
  by (simp_all add: dht_flush_def execute_pending_commands_fold)

lemma dht_poll_unfold:
  "dht_poll_next env s =
     (case dht_pending_events s of
        event # rest \<Rightarrow> ret (s\<lparr>dht_pending_events := rest\<rparr>, Ready (Some (Inr event)))
      | [] \<Rightarrow>
          (case he_poll env (dht_state (dht_flush env s)) of
             (d, Pending) \<Rightarrow> ret ((dht_flush env s)\<lparr>dht_state := d\<rparr>, Pending)
           | (d, Ready None) \<Rightarrow> panic
           | (d, Ready (Some event)) \<Rightarrow>
               dht_poll_next env (dht_on_event event ((dht_flush env s)\<lparr>dht_state := d\<rparr>))))"
  using dht_poll_next.simps [of env s] by (simp only: Let_def dht_flush_def [symmetric])

text \<open>Induction over the turns of a poll that comes to an end.\<close>

lemma dht_poll_induct [consumes 1, case_names pop pending ended turn]:
  assumes "dht_poll_next env s = Some y"
    and pop: "\<And>s event rest. dht_pending_events s = event # rest \<Longrightarrow>
      P s (Ret (s\<lparr>dht_pending_events := rest\<rparr>, Ready (Some (Inr event))))"
    and pending: "\<And>s d. dht_pending_events s = [] \<Longrightarrow>
      he_poll env (dht_state (dht_flush env s)) = (d, Pending) \<Longrightarrow>
      P s (Ret ((dht_flush env s)\<lparr>dht_state := d\<rparr>, Pending))"
    and ended: "\<And>s d. dht_pending_events s = [] \<Longrightarrow>
      he_poll env (dht_state (dht_flush env s)) = (d, Ready None) \<Longrightarrow> P s Panic"
    and turn: "\<And>s d event y. dht_pending_events s = [] \<Longrightarrow>
      he_poll env (dht_state (dht_flush env s)) = (d, Ready (Some event)) \<Longrightarrow>
      P (dht_on_event event ((dht_flush env s)\<lparr>dht_state := d\<rparr>)) y \<Longrightarrow> P s y"
  shows "P s y"
proof (rule dht_poll_next.raw_induct [where P = "\<lambda>env' s y. env' = env \<longrightarrow> P s y", OF _ assms(1),
      THEN mp, OF _ refl])
  fix poll env' s y
  assume IH: "\<And>env' s y. poll env' s = Some y \<Longrightarrow> env' = env \<longrightarrow> P s y"
    and eq: "(case dht_pending_events s of
        [] \<Rightarrow>
          let s1 = (if dht_bootstrapped s then execute_pending_commands env' s else s) in
          (case he_poll env' (dht_state s1) of
             (d, Pending) \<Rightarrow> ret (s1\<lparr>dht_state := d\<rparr>, Pending)
           | (d, Ready None) \<Rightarrow> panic
           | (d, Ready (Some event)) \<Rightarrow> poll env' (dht_on_event event (s1\<lparr>dht_state := d\<rparr>)))
      | event # rest \<Rightarrow> ret (s\<lparr>dht_pending_events := rest\<rparr>, Ready (Some (Inr event)))) = Some y"
  show "env' = env \<longrightarrow> P s y"
  proof
    assume env: "env' = env"
    obtain d p where poll: "he_poll env (dht_state (dht_flush env s)) = (d, p)" by fastforce
    show "P s y"
    proof (cases "dht_pending_events s")
      case (Cons event rest)
      with eq pop [OF Cons] show ?thesis by auto
    next
      case Nil
      from eq have "(case p of
             Pending \<Rightarrow> ret ((dht_flush env s)\<lparr>dht_state := d\<rparr>, Pending)
           | Ready None \<Rightarrow> panic
           | Ready (Some event) \<Rightarrow>
               poll env (dht_on_event event ((dht_flush env s)\<lparr>dht_state := d\<rparr>))) = Some y"
        by (simp only: env Nil list.case Let_def dht_flush_def [symmetric] poll prod.case)
      with Nil poll IH show ?thesis
        by (auto split: poll.splits option.splits intro: pending ended turn)
    qed
  qed
qed

subsection \<open>The contract\<close>

definition dht_inv :: "'d dht_discovery \<Rightarrow> bool" where
  "dht_inv s \<longleftrightarrow>
     list_all (\<lambda>p. pi_topic p \<noteq> None \<and> pi_discovery_method p = Dht) (dht_pending_events s)"

lemma event_peers_dht:
  "list_all (\<lambda>p. pi_topic p \<noteq> None \<and> pi_discovery_method p = Dht) (event_peers event)"
  by (auto simp: event_peers_def list_all_iff split: hyper_dht_event.splits)

lemma dht_poll_contract:
  assumes "dht_poll_next env s = Some y" and "dht_inv s" and "y = Ret (s', r)"
  shows "dht_inv s' \<and> r \<noteq> Ready None \<and>
    (\<forall>x. r = Ready (Some x) \<longrightarrow>
       (\<exists>p. x = Inr p \<and> pi_topic p \<noteq> None \<and> pi_discovery_method p = Dht))"
  using assms
proof (induction rule: dht_poll_induct)
  case (turn s d event y)
  then show ?case
    using event_peers_dht [of event] by (simp add: dht_on_event_eq dht_inv_def)
qed (auto simp: dht_inv_def)

interpretation dht: discovery "dht_ops env" dht_inv "{Dht}"
  for env :: "('w, 'c, 'd) dht_env"
proof unfold_locales
  fix s s' :: "'d dht_discovery" and r t
  assume inv: "dht_inv s"
  then show "\<exists>s'. d_lookup (dht_ops env) t s = ret s' \<and> dht_inv s'"
    and "\<exists>s'. d_announce (dht_ops env) t s = ret s' \<and> dht_inv s'"
    by (simp_all add: dht_lookup_def dht_announce_def dht_inv_def)
  assume "d_poll_next (dht_ops env) s = ret (s', r)"
  then show "dht_inv s'" and "r \<noteq> Ready None"
    using dht_poll_contract [OF _ inv refl, of env s' r] by simp_all
next
  fix s s' :: "'d dht_discovery" and p
  assume inv: "dht_inv s" and "d_poll_next (dht_ops env) s = ret (s', Ready (Some (Inr p)))"
  then show "pi_topic p \<noteq> None \<and> pi_discovery_method p \<in> {Dht}"
    using dht_poll_contract [OF _ inv refl, of env s' "Ready (Some (Inr p))"] by simp
qed

subsection \<open>A node that keeps a log\<close>

text \<open>
  To state which commands reach the node and which events come back, any environment is
  instrumented: the node state is paired with the commands it was given and the events it
  yielded. The code is polymorphic in the node state, so it runs on the instrumented node as it
  runs on the plain one; \<open>dht_erase\<close> forgets the log.
\<close>

fun log_command :: "dht_command \<Rightarrow> 'd \<times> dht_command list \<times> hyper_dht_event list \<Rightarrow> 'd \<Rightarrow>
    'd \<times> dht_command list \<times> hyper_dht_event list" where
  "log_command c (_, commands, events) d = (d, commands @ [c], events)"

definition dht_logging ::
  "('w, 'c, 'd) dht_env \<Rightarrow> ('w, 'c, 'd \<times> dht_command list \<times> hyper_dht_event list) dht_env" where
  "dht_logging env =
     \<lparr>he_with_config = (\<lambda>c. try_bind (he_with_config env c) (\<lambda>d. act_return (Inr (d, [], [])))),
      he_announce = (\<lambda>opts s. log_command (DhtAnnounce opts) s (he_announce env opts (fst s))),
      he_lookup = (\<lambda>opts s. log_command (DhtLookup opts) s (he_lookup env opts (fst s))),
      he_poll = (\<lambda>(d, commands, events).
        case he_poll env d of (d', r) \<Rightarrow> ((d', commands, events @ yielded r), r))\<rparr>"

abbreviation forwarded :: "('d \<times> dht_command list \<times> hyper_dht_event list) dht_discovery \<Rightarrow> dht_command list"
  where "forwarded s \<equiv> fst (snd (dht_state s))"

abbreviation seen_events :: "('d \<times> dht_command list \<times> hyper_dht_event list) dht_discovery \<Rightarrow> hyper_dht_event list"
  where "seen_events s \<equiv> snd (snd (dht_state s))"

definition dht_erase ::
  "('d \<times> dht_command list \<times> hyper_dht_event list) dht_discovery \<Rightarrow> 'd dht_discovery" where
  "dht_erase s =
     \<lparr>dht_state = fst (dht_state s), dht_bootstrapped = dht_bootstrapped s,
      dht_announce_port = dht_announce_port s, dht_pending_commands = dht_pending_commands s,
      dht_pending_events = dht_pending_events s\<rparr>"

lemma dht_logging_commands [simp]:
  "he_announce (dht_logging env) opts s =
     log_command (DhtAnnounce opts) s (he_announce env opts (fst s))"
  "he_lookup (dht_logging env) opts s =
     log_command (DhtLookup opts) s (he_lookup env opts (fst s))"
  by (simp_all add: dht_logging_def)

lemma dht_logging_run:
  "fold (dht_run_command (dht_logging env)) cs (d, log, events) =
     (fold (dht_run_command env) cs d, log @ cs, events)"
proof (induction cs arbitrary: d log)
  case (Cons c cs)
  then show ?case by (cases c) simp_all
qed simp

lemma dht_logging_flush [simp]:
  "forwarded (dht_flush (dht_logging env) s) =
     (if dht_bootstrapped s then forwarded s @ dht_pending_commands s else forwarded s)"
  "seen_events (dht_flush (dht_logging env) s) = seen_events s"
  "fst (dht_state (dht_flush (dht_logging env) s)) = dht_state (dht_flush env (dht_erase s))"
  by (cases "dht_state s"; simp add: dht_flush_def execute_pending_commands_fold dht_logging_run
      dht_erase_def)+

lemma dht_logging_poll_eq:
  "he_poll (dht_logging env) s =
     (case he_poll env (fst s) of (d, r) \<Rightarrow> ((d, fst (snd s), snd (snd s) @ yielded r), r))"
  by (cases s) (simp add: dht_logging_def)

lemma dht_logging_poll:
  assumes "he_poll (dht_logging env) s = (s', r)"
  shows "he_poll env (fst s) = (fst s', r)" "fst (snd s') = fst (snd s)"
    "snd (snd s') = snd (snd s) @ yielded r"
  using assms by (cases s; auto simp: dht_logging_def split: prod.splits)+

text \<open>What one poll does to the log and to the two queues.\<close>

lemma dht_poll_accounting:
  assumes "dht_poll_next (dht_logging env) s = Some y" and "y = Ret (s', r)"
  shows "forwarded s' @ dht_pending_commands s' = forwarded s @ dht_pending_commands s \<and>
    (\<not> dht_bootstrapped s' \<longrightarrow> \<not> dht_bootstrapped s \<and> forwarded s' = forwarded s) \<and>
    dht_announce_port s' = dht_announce_port s \<and>
    (\<exists>new peers. seen_events s' = seen_events s @ new \<and> yielded r = map Inr peers \<and>
       peers @ dht_pending_events s' = dht_pending_events s @ concat (map event_peers new))"
  using assms
proof (induction rule: dht_poll_induct)
  case (pop s event rest)
  then show ?case
    by (auto intro!: exI [of _ "[] :: hyper_dht_event list"] exI [of _ "[event]"])
next
  case (pending s d)
  then show ?case
    by (auto simp: dht_logging_poll [OF pending(2)])
next
  case (turn s d event y)
  note d = dht_logging_poll [OF turn.hyps(2)]
  from turn.IH [OF turn.prems] obtain new peers where
    "seen_events s' = snd (snd d) @ new" "yielded r = map Inr peers"
    "peers @ dht_pending_events s' = event_peers event @ concat (map event_peers new)"
    using turn.hyps(1) by (auto simp: dht_on_event_eq)
  then have "\<exists>new peers. seen_events s' = seen_events s @ new \<and> yielded r = map Inr peers \<and>
      peers @ dht_pending_events s' = dht_pending_events s @ concat (map event_peers new)"
    using turn.hyps(1) by (intro exI [of _ "event # new"] exI [of _ peers]) (simp add: d)
  with turn.IH [OF turn.prems] show ?case
    by (auto simp: dht_on_event_eq d split: if_splits)
qed simp_all

text \<open>The log does not change the program: the plain node gives the same polls.\<close>

lemma dht_erase_simps [simp]:
  "dht_pending_events (dht_erase s) = dht_pending_events s"
  "dht_erase (s\<lparr>dht_pending_events := events\<rparr>) = (dht_erase s)\<lparr>dht_pending_events := events\<rparr>"
  "dht_erase (dht_on_event event s) = dht_on_event event (dht_erase s)"
  "(dht_erase s)\<lparr>dht_state := fst d\<rparr> = dht_erase (s\<lparr>dht_state := d\<rparr>)"
  by (simp_all add: dht_erase_def dht_on_event_eq)

lemma dht_erase_flush:
  "dht_erase ((dht_flush (dht_logging env) s)\<lparr>dht_state := d\<rparr>) =
     (dht_flush env (dht_erase s))\<lparr>dht_state := fst d\<rparr>"
  by (cases "dht_state s")
     (simp add: dht_flush_def execute_pending_commands_fold dht_logging_run dht_erase_def)

lemma dht_erase_poll_Some:
  "dht_poll_next (dht_logging env) s = Some y \<Longrightarrow>
     dht_poll_next env (dht_erase s) = Some (map_exec (\<lambda>(s', r). (dht_erase s', r)) y)"
proof (induction rule: dht_poll_induct)
  case (pop s event rest)
  then show ?case by (subst dht_poll_unfold) simp
next
  case (pending s d)
  note poll = dht_logging_poll(1) [OF pending(2)]
  from pending poll show ?case by (subst dht_poll_unfold) (simp add: dht_erase_flush)
next
  case (ended s d)
  note poll = dht_logging_poll(1) [OF ended(2)]
  from ended poll show ?case by (subst dht_poll_unfold) simp
next
  case (turn s d event y)
  note poll = dht_logging_poll(1) [OF turn.hyps(2)]
  from turn poll show ?case by (subst dht_poll_unfold) (simp add: dht_erase_flush)
qed

lemma dht_erase_poll_returns:
  "dht_poll_next env t = Some y \<Longrightarrow> t = dht_erase s \<Longrightarrow> dht_poll_next (dht_logging env) s \<noteq> None"
proof (induction arbitrary: s rule: dht_poll_induct)
  case (turn t d event y)
  let ?d = "(d, forwarded (dht_flush (dht_logging env) s), seen_events s @ [event])"
  have poll: "he_poll (dht_logging env) (dht_state (dht_flush (dht_logging env) s)) =
      (?d, Ready (Some event))"
    using turn.hyps(2) turn.prems by (simp add: dht_logging_poll_eq)
  have "dht_poll_next (dht_logging env)
      (dht_on_event event ((dht_flush (dht_logging env) s)\<lparr>dht_state := ?d\<rparr>)) \<noteq> None"
    by (rule turn.IH) (simp add: turn.prems dht_erase_flush)
  then show ?case
    using turn.hyps(1) turn.prems by (subst dht_poll_unfold) (simp add: poll)
qed (subst dht_poll_unfold; simp add: dht_logging_poll_eq)+

subsection \<open>Properties\<close>

text \<open>The command the code builds for a call.\<close>

fun dht_command_for :: "u16 \<Rightarrow> discovery_call \<Rightarrow> dht_command" where
  "dht_command_for port (Lookup t) =
     DhtLookup \<lparr>qo_topic = IdBytes t, qo_port = Some (ucast port), qo_local_addr = None\<rparr>"
| "dht_command_for port (Announce t) =
     DhtAnnounce \<lparr>qo_topic = IdBytes t, qo_port = Some (ucast port), qo_local_addr = None\<rparr>"

lemma dht_apply_call:
  "discovery_apply (dht_ops env) c s =
     ret (s\<lparr>dht_pending_commands :=
            dht_pending_commands s @ [dht_command_for (dht_announce_port s) c]\<rparr>)"
  by (cases c) (simp_all add: dht_lookup_def dht_announce_def)

text \<open>A scripted node: its state is the list of events it will yield; commands leave it as it is.\<close>

definition dht_script :: "(unit, hyper_dht_event list, hyper_dht_event list) dht_env" where
  "dht_script =
     \<lparr>he_with_config = (\<lambda>c w. ret (Inr c, w)), he_announce = (\<lambda>opts d. d), he_lookup = (\<lambda>opts d. d),
      he_poll = (\<lambda>d. case d of [] \<Rightarrow> ([], Pending) | e # es \<Rightarrow> (es, Ready (Some e)))\<rparr>"

lemma dht_script_simps [simp]:
  "he_with_config dht_script c w = ret (Inr c, w)"
  "he_announce dht_script opts d = d"
  "he_lookup dht_script opts d = d"
  "he_poll dht_script [] = ([], Pending)"
  "he_poll dht_script (e # es) = (es, Ready (Some e))"
  by (simp_all add: dht_script_def)

definition dht_start :: "u16 \<Rightarrow> 'd \<Rightarrow> 'd dht_discovery" where
  "dht_start port d =
     \<lparr>dht_state = d, dht_bootstrapped = False, dht_announce_port = port,
      dht_pending_commands = [], dht_pending_events = []\<rparr>"

lemmas dht_eval =
  dht_start_def dht_poll_unfold dht_flush_def execute_pending_commands_fold dht_logging_run
  dht_logging_poll_eq dht_on_event_eq event_peers_def

lemma dht_run_commands:
  assumes "discovery_run (dht_ops (dht_logging env)) steps s = ret (s', items)"
  shows "forwarded s' @ dht_pending_commands s' =
           forwarded s @ dht_pending_commands s @
           map (dht_command_for (dht_announce_port s)) (step_calls steps) \<and>
         (\<not> dht_bootstrapped s' \<longrightarrow> \<not> dht_bootstrapped s \<and> forwarded s' = forwarded s) \<and>
         dht_announce_port s' = dht_announce_port s"
  using assms
proof (induction steps arbitrary: s items)
  case (Cons step steps)
  show ?case
  proof (cases step)
    case (DCall c)
    with Cons.prems Cons.IH show ?thesis by (fastforce simp: dht_apply_call)
  next
    case DPoll
    with Cons.prems obtain s1 r items1
      where "dht_poll_next (dht_logging env) s = ret (s1, r)"
        and run: "discovery_run (dht_ops (dht_logging env)) steps s1 = ret (s', items1)"
      by (auto simp: run_simps)
    with dht_poll_accounting [OF this(1) refl] Cons.IH [OF run] DPoll show ?thesis
      by auto
  qed
qed simp

text \<open>The node counts as bootstrapped exactly from the event that says so.\<close>

lemma dht_poll_bootstrapped:
  assumes "dht_poll_next (dht_logging env) s = Some y" and "y = Ret (s', r)"
  shows "\<exists>new. seen_events s' = seen_events s @ new \<and>
    (dht_bootstrapped s' \<longleftrightarrow> dht_bootstrapped s \<or> Bootstrapped \<in> set new)"
  using assms
proof (induction rule: dht_poll_induct)
  case (turn s d event y)
  note d = dht_logging_poll [OF turn.hyps(2)]
  from turn.IH [OF turn.prems] obtain new where "seen_events s' = snd (snd d) @ new"
    "dht_bootstrapped s' \<longleftrightarrow> dht_bootstrapped s \<or> event = Bootstrapped \<or> Bootstrapped \<in> set new"
    by (auto simp: dht_on_event_eq)
  then show ?case by (intro exI [of _ "event # new"]) (auto simp: d)
qed (auto dest: dht_logging_poll)

lemma dht_run_bootstrapped:
  assumes "discovery_run (dht_ops (dht_logging env)) steps s = ret (s', items)"
  shows "\<exists>new. seen_events s' = seen_events s @ new \<and>
    (dht_bootstrapped s' \<longleftrightarrow> dht_bootstrapped s \<or> Bootstrapped \<in> set new)"
  using assms
proof (induction steps arbitrary: s items)
  case (Cons step steps)
  show ?case
  proof (cases step)
    case (DCall c)
    with Cons.prems Cons.IH show ?thesis by (fastforce simp: dht_apply_call)
  next
    case DPoll
    with Cons.prems obtain s1 r items1
      where "dht_poll_next (dht_logging env) s = ret (s1, r)"
        and run: "discovery_run (dht_ops (dht_logging env)) steps s1 = ret (s', items1)"
      by (auto simp: run_simps)
    from dht_poll_bootstrapped [OF this(1) refl] obtain new1 where
      1: "seen_events s1 = seen_events s @ new1"
        "dht_bootstrapped s1 \<longleftrightarrow> dht_bootstrapped s \<or> Bootstrapped \<in> set new1" by blast
    from Cons.IH [OF run] obtain new2 where
      2: "seen_events s' = seen_events s1 @ new2"
        "dht_bootstrapped s' \<longleftrightarrow> dht_bootstrapped s1 \<or> Bootstrapped \<in> set new2" by blast
    from 1 2 show ?thesis by (intro exI [of _ "new1 @ new2"]) auto
  qed
qed simp

text \<open>
  A poll that gets to the node leaves no command queued when the node is bootstrapped, whether it
  was before or says so during the poll. It does not get there while found peers are held.
\<close>

lemma dht_poll_flushes:
  assumes "dht_poll_next env s = Some y" and "y = Ret (s', r)"
    and "dht_bootstrapped s \<Longrightarrow> dht_pending_events s = [] \<or> dht_pending_commands s = []"
  shows "dht_bootstrapped s' \<longrightarrow> dht_pending_commands s' = []"
  using assms
proof (induction rule: dht_poll_induct)
  case (turn s d event y)
  then show ?case
    by (cases event) (auto simp: push_peers_eq split: if_splits)
qed auto

lemma dht_polls_flush:
  assumes "discovery_run (dht_ops env) (replicate n DPoll) s = ret (s', items)"
    and "length (dht_pending_events s) < n \<or> (dht_bootstrapped s \<longrightarrow> dht_pending_commands s = [])"
  shows "dht_bootstrapped s' \<longrightarrow> dht_pending_commands s' = []"
  using assms
proof (induction n arbitrary: s items)
  case (Suc n)
  then obtain s1 r items1 where poll: "dht_poll_next env s = ret (s1, r)"
    and run: "discovery_run (dht_ops env) (replicate n DPoll) s1 = ret (s', items1)"
    by (auto simp: run_simps)
  have "length (dht_pending_events s1) < n \<or> (dht_bootstrapped s1 \<longrightarrow> dht_pending_commands s1 = [])"
  proof (cases "dht_pending_events s")
    case Nil
    with dht_poll_flushes [OF poll refl] show ?thesis by simp
  next
    case (Cons event rest)
    with poll have "s1 = s\<lparr>dht_pending_events := rest\<rparr>" by (simp add: dht_poll_unfold)
    with Suc.prems(2) Cons show ?thesis by auto
  qed
  with Suc.IH [OF run] show ?case .
qed simp

lemma dht_calls_run:
  assumes "discovery_run (dht_ops env) (map DCall cs @ steps) s = ret (s', items)"
  shows "\<exists>s1. discovery_run (dht_ops env) steps s1 = ret (s', items) \<and>
    dht_pending_events s1 = dht_pending_events s"
  using assms
proof (induction cs arbitrary: s)
  case (Cons c cs)
  then have "discovery_run (dht_ops env) (map DCall cs @ steps)
      (s\<lparr>dht_pending_commands := dht_pending_commands s @ [dht_command_for (dht_announce_port s) c]\<rparr>) =
      ret (s', items)"
    by (simp add: dht_apply_call)
  from Cons.IH [OF this] show ?case by simp
qed auto

text \<open>Calls followed by more polls than the discovery holds peers.\<close>

lemma dht_commands_flushed:
  assumes "discovery_run (dht_ops (dht_logging env)) (map DCall cs @ replicate n DPoll) s = ret (s', items)"
    and "length (dht_pending_events s) < n" and "dht_bootstrapped s'"
  shows "forwarded s' = forwarded s @ dht_pending_commands s @ map (dht_command_for (dht_announce_port s)) cs"
proof -
  from dht_calls_run [OF assms(1)] assms(2) obtain s1
    where "discovery_run (dht_ops (dht_logging env)) (replicate n DPoll) s1 = ret (s', items)"
      and "length (dht_pending_events s1) < n" by auto
  from dht_polls_flush [OF this(1)] this(2) assms(3) have "dht_pending_commands s' = []" by simp
  moreover have "step_calls (map DCall cs @ replicate n DPoll) = cs"
    by (induction cs) (simp_all, induction n, simp_all)
  ultimately show ?thesis using dht_run_commands [OF assms(1)] by simp
qed

text \<open>
  C6: Over any sequence of lookups, announces and polls of the DHT discovery, the commands that
  reached the node, followed by the ones still queued, are those that had before, followed by one
  command per call, in the order of the calls and with the announce port: none is lost, repeated or
  reordered. As long as the node is not bootstrapped, none is forwarded. Once more polls follow
  than the discovery holds found peers, and the node is bootstrapped after them, each of these
  commands has reached the node, exactly once; and the discovery takes the node for bootstrapped
  exactly from the event with which the node says so.
\<close>

theorem commands_forwarded_once:
  assumes "discovery_run (dht_ops (dht_logging env)) steps s = ret (s', items)"
  shows "forwarded s' @ dht_pending_commands s' =
           forwarded s @ dht_pending_commands s @
           map (dht_command_for (dht_announce_port s)) (step_calls steps) \<and>
         (\<not> dht_bootstrapped s' \<longrightarrow> forwarded s' = forwarded s) \<and>
         (\<forall>n s2 items2. discovery_run (dht_ops (dht_logging env)) (replicate n DPoll) s' = ret (s2, items2) \<and>
            length (dht_pending_events s') < n \<and> dht_bootstrapped s2 \<longrightarrow>
            forwarded s2 = forwarded s @ dht_pending_commands s @
              map (dht_command_for (dht_announce_port s)) (step_calls steps)) \<and>
         (\<exists>new. seen_events s' = seen_events s @ new \<and>
            (dht_bootstrapped s' \<longleftrightarrow> dht_bootstrapped s \<or> Bootstrapped \<in> set new))"
proof (intro conjI allI impI)
  note all = dht_run_commands [OF assms]
  then show "forwarded s' @ dht_pending_commands s' =
      forwarded s @ dht_pending_commands s @
      map (dht_command_for (dht_announce_port s)) (step_calls steps)" by blast
  from all show "\<not> dht_bootstrapped s' \<Longrightarrow> forwarded s' = forwarded s" by blast
  show "\<exists>new. seen_events s' = seen_events s @ new \<and>
      (dht_bootstrapped s' \<longleftrightarrow> dht_bootstrapped s \<or> Bootstrapped \<in> set new)"
    by (rule dht_run_bootstrapped [OF assms])
  fix n s2 items2
  assume polls: "discovery_run (dht_ops (dht_logging env)) (replicate n DPoll) s' = ret (s2, items2) \<and>
    length (dht_pending_events s') < n \<and> dht_bootstrapped s2"
  have "forwarded s2 = forwarded s' @ dht_pending_commands s' @ map (dht_command_for (dht_announce_port s')) []"
    by (rule dht_commands_flushed [of env "[]" n s' s2 items2]) (simp_all add: polls)
  with all show "forwarded s2 = forwarded s @ dht_pending_commands s @
      map (dht_command_for (dht_announce_port s)) (step_calls steps)" by simp
qed

theorem commands_forwarded_once_witness:
  "\<exists>s' s2. discovery_run (dht_ops (dht_logging dht_script))
      [DCall (Lookup (array32_fill 1)), DPoll, DCall (Announce (array32_fill 2))]
      (dht_start 4000 ([Bootstrapped], [], [])) = ret (s', []) \<and>
    dht_pending_commands s' = [dht_command_for 4000 (Announce (array32_fill 2))] \<and>
    discovery_run (dht_ops (dht_logging dht_script)) [DPoll] s' = ret (s2, []) \<and>
    forwarded s2 = [dht_command_for 4000 (Lookup (array32_fill 1)),
                    dht_command_for 4000 (Announce (array32_fill 2))]"
proof -
  let ?run = "discovery_run (dht_ops (dht_logging dht_script))
      [DCall (Lookup (array32_fill 1)), DPoll, DCall (Announce (array32_fill 2))]
      (dht_start 4000 ([Bootstrapped], [], []))"
  let ?start = "dht_start 4000 ([Bootstrapped], [] :: dht_command list, [] :: hyper_dht_event list)"
  let ?s = "\<lparr>dht_state = ([] :: hyper_dht_event list, [dht_command_for 4000 (Lookup (array32_fill 1))], [Bootstrapped]),
      dht_bootstrapped = True, dht_announce_port = 4000,
      dht_pending_commands = [dht_command_for 4000 (Announce (array32_fill 2))], dht_pending_events = []\<rparr>"
  have run: "?run = ret (?s, [])"
    by (simp add: dht_lookup_def dht_announce_def dht_eval)
  obtain s2 where polls: "discovery_run (dht_ops (dht_logging dht_script)) (replicate 1 DPoll) ?s = ret (s2, []) \<and>
      length (dht_pending_events ?s) < 1 \<and> dht_bootstrapped s2"
    by (simp add: dht_eval)
  from commands_forwarded_once [OF run] polls have "forwarded s2 =
      forwarded ?start @ dht_pending_commands ?start @ map (dht_command_for (dht_announce_port ?start))
        (step_calls [DCall (Lookup (array32_fill 1)), DPoll, DCall (Announce (array32_fill 2))])"
    by blast
  with run polls show ?thesis
    by (intro exI [of _ ?s] exI [of _ s2]) (simp add: dht_start_def)
qed

lemma dht_run_peers:
  assumes "discovery_run (dht_ops (dht_logging env)) steps s = ret (s', items)"
  shows "\<exists>peers new. items = map Inr peers \<and> seen_events s' = seen_events s @ new \<and>
           peers @ dht_pending_events s' = dht_pending_events s @ concat (map event_peers new)"
  using assms
proof (induction steps arbitrary: s items)
  case (Cons step steps)
  show ?case
  proof (cases step)
    case (DCall c)
    with Cons.prems Cons.IH show ?thesis by (fastforce simp: dht_apply_call)
  next
    case DPoll
    with Cons.prems obtain s1 r items1
      where poll: "dht_poll_next (dht_logging env) s = ret (s1, r)"
        and run: "discovery_run (dht_ops (dht_logging env)) steps s1 = ret (s', items1)"
        and items: "items = yielded r @ items1"
      by (auto simp: run_simps)
    from dht_poll_accounting [OF poll refl] obtain new1 peers1
      where 1: "seen_events s1 = seen_events s @ new1" "yielded r = map Inr peers1"
        "peers1 @ dht_pending_events s1 = dht_pending_events s @ concat (map event_peers new1)"
      by blast
    from Cons.IH [OF run] obtain peers2 new2
      where 2: "items1 = map Inr peers2" "seen_events s' = seen_events s1 @ new2"
        "peers2 @ dht_pending_events s' = dht_pending_events s1 @ concat (map event_peers new2)"
      by blast
    have "(peers1 @ peers2) @ dht_pending_events s' =
        dht_pending_events s @ concat (map event_peers (new1 @ new2))"
      using 1(3) 2(3) by (metis append.assoc concat_append map_append)
    with 1(1,2) 2(1,2) items show ?thesis
      by (intro exI [of _ "peers1 @ peers2"] exI [of _ "new1 @ new2"]) simp
  qed
qed simp

text \<open>
  C5: Over any sequence of lookups, announces and polls, the DHT discovery yields no error, and
  the peers it yielded, followed by the ones it still holds, are those it held before, followed by
  the remotes of every lookup result the node reported meanwhile, in order, each marked with the
  topic of its lookup: no peer is lost, repeated or reordered.
\<close>

theorem peers_delivered_in_order:
  assumes "discovery_run (dht_ops (dht_logging env)) steps s = ret (s', items)"
  shows "\<exists>peers new. items = map Inr peers \<and> seen_events s' = seen_events s @ new \<and>
           peers @ dht_pending_events s' = dht_pending_events s @ concat (map event_peers new)"
  by (rule dht_run_peers [OF assms])

theorem peers_delivered_in_order_witness:
  "\<exists>s' peers new. discovery_run (dht_ops (dht_logging dht_script)) [DPoll, DPoll]
      (dht_start 4000 ([LookupResult (IdBytes (array32_fill 1))
         [SocketV4 (Ipv4Addr 10 0 0 1) 80, SocketV4 (Ipv4Addr 10 0 0 2) 80]], [], [])) =
      ret (s', map Inr peers) \<and>
    map pi_addr peers = [SocketV4 (Ipv4Addr 10 0 0 1) 80, SocketV4 (Ipv4Addr 10 0 0 2) 80] \<and>
    peers @ dht_pending_events s' = concat (map event_peers new)"
proof -
  let ?run = "discovery_run (dht_ops (dht_logging dht_script)) [DPoll, DPoll]
      (dht_start 4000 ([LookupResult (IdBytes (array32_fill 1))
         [SocketV4 (Ipv4Addr 10 0 0 1) 80, SocketV4 (Ipv4Addr 10 0 0 2) 80]], [], []))"
  obtain s' peers where run: "?run = ret (s', map Inr peers)"
    and addrs: "map pi_addr peers = [SocketV4 (Ipv4Addr 10 0 0 1) 80, SocketV4 (Ipv4Addr 10 0 0 2) 80]"
    by (rule that [of _ "[peer_info_new (SocketV4 (Ipv4Addr 10 0 0 1) 80) (Some (array32_fill 1)) Dht,
            peer_info_new (SocketV4 (Ipv4Addr 10 0 0 2) 80) (Some (array32_fill 1)) Dht]"])
       (simp_all add: dht_eval)
  from peers_delivered_in_order [OF run] obtain peers2 new
    where "map Inr peers = (map Inr peers2 :: peer_info io_result list)"
      and "peers2 @ dht_pending_events s' = concat (map event_peers new)"
    by (auto simp: dht_start_def)
  moreover from this(1) have "peers = peers2" by (rule map_injective) simp
  ultimately have "peers @ dht_pending_events s' = concat (map event_peers new)" by simp
  with run addrs show ?thesis by (intro exI conjI)
qed

lemma dht_poll_returns:
  fixes burst :: "'d \<Rightarrow> nat"
  assumes burst: "\<And>d d' event. he_poll env d = (d', Ready (Some event)) \<Longrightarrow> burst d' < burst d"
  shows "dht_poll_next env s \<noteq> None"
proof (rule wf_induct_rule [of "measures
    [\<lambda>s. if dht_pending_commands s = [] then 0 else 1, \<lambda>s. burst (dht_state s)]"
    "\<lambda>s. dht_poll_next env s \<noteq> None"], simp)
  fix s
  assume IH: "\<And>t. (t, s) \<in> measures
      [\<lambda>s. if dht_pending_commands s = [] then 0 else 1, \<lambda>s. burst (dht_state s)] \<Longrightarrow>
      dht_poll_next env t \<noteq> None"
  obtain d p where poll: "he_poll env (dht_state (dht_flush env s)) = (d, p)" by fastforce
  show "dht_poll_next env s \<noteq> None"
  proof (cases "\<exists>event. dht_pending_events s = [] \<and> p = Ready (Some event)")
    case True
    then obtain event where event: "dht_pending_events s = []" "p = Ready (Some event)" by blast
    let ?s = "dht_on_event event ((dht_flush env s)\<lparr>dht_state := d\<rparr>)"
    have "burst d < burst (dht_state (dht_flush env s))"
      using burst poll event(2) by blast
    then have "(?s, s) \<in> measures
        [\<lambda>s. if dht_pending_commands s = [] then 0 else 1, \<lambda>s. burst (dht_state s)]"
      by (cases "dht_pending_commands s = []"; cases "dht_bootstrapped s")
         (auto simp: dht_on_event_eq dht_flush_def execute_pending_commands_fold)
    then have "dht_poll_next env ?s \<noteq> None" by (rule IH)
    with event poll show ?thesis by (subst dht_poll_unfold) simp
  next
    case False
    then show ?thesis
      by (subst dht_poll_unfold) (auto simp: poll split: list.splits poll.splits option.splits)
  qed
qed

text \<open>
  C34: A poll of the DHT discovery returns or panics, whatever is queued, when bursts of events of
  the node are finite: some measure of the node's state drops with every event it yields, however
  commands change it.
\<close>

theorem dht_poll_terminates:
  fixes burst :: "'d \<Rightarrow> nat"
  assumes burst: "\<And>d d' event. he_poll env d = (d', Ready (Some event)) \<Longrightarrow> burst d' < burst d"
  shows "dht_poll_next env s \<noteq> None"
  using burst by (rule dht_poll_returns)

theorem dht_poll_terminates_witness:
  "dht_poll_next dht_script (dht_start 4000 [Bootstrapped, AnnounceResult, OtherEvent]) \<noteq> None"
proof (rule dht_poll_terminates [of dht_script length])
  fix d d' event
  show "he_poll dht_script d = (d', Ready (Some event)) \<Longrightarrow> length d' < length d"
    by (cases d) auto
qed

text \<open>
  C35: When a poll of the DHT discovery is pending, no peer is queued, the last thing it did was
  a poll of the node that was itself pending (so the task will be woken by the node), and, once the
  node is bootstrapped, no command is queued.
\<close>

theorem dht_pending_is_idle:
  assumes "dht_poll_next env s = ret (s', Pending)"
  shows "dht_pending_events s' = [] \<and> (\<exists>d. he_poll env d = (dht_state s', Pending)) \<and>
         (dht_bootstrapped s' \<longrightarrow> dht_pending_commands s' = [])"
proof -
  have "y = Ret (s', Pending) \<Longrightarrow> ?thesis" if "dht_poll_next env s = Some y" for y
    using that by (induction rule: dht_poll_induct) auto
  with assms show ?thesis by blast
qed

theorem dht_pending_is_idle_witness:
  "\<exists>s'. dht_poll_next dht_script (dht_lookup (array32_fill 1) (dht_start 4000 [Bootstrapped])) =
      ret (s', Pending) \<and> dht_pending_commands s' = []"
proof -
  obtain s' where poll:
    "dht_poll_next dht_script (dht_lookup (array32_fill 1) (dht_start 4000 [Bootstrapped])) = ret (s', Pending)"
    and "dht_bootstrapped s'"
    by (simp add: dht_lookup_def dht_eval)
  with dht_pending_is_idle [OF poll] show ?thesis by auto
qed

text \<open>
  A poll of the DHT discovery panics only when the node's own stream of events has ended.
\<close>

lemma dht_poll_panics:
  assumes "dht_poll_next env s = panic"
  shows "\<exists>d d'. he_poll env d = (d', Ready None)"
proof -
  have "y = Panic \<Longrightarrow> ?thesis" if "dht_poll_next env s = Some y" for y
    using that by (induction rule: dht_poll_induct) auto
  with assms show ?thesis by blast
qed

lemma dht_poll_panics_example:
  "\<exists>d d'. he_poll (dht_script\<lparr>he_poll := (\<lambda>d. (d, Ready None))\<rparr>) d = (d', Ready None)"
  by (rule dht_poll_panics [of _ "dht_start 4000 []"]) (simp add: dht_eval)

end
