(* ===== verification/Combined_Discovery.thy ===== *)
theory Combined_Discovery
  imports Config Dht_Discovery
begin

section \<open>The combined discovery (\<open>src/discovery/combined.rs\<close>)\<close>

text \<open>
  The DHT and mDNS side by side. As in the combined transport the two are reached through their
  \<open>Discovery\<close> operations, here the records \<open>dops\<close> and \<open>mops\<close>: a call goes to mDNS and then to the
  DHT, a poll asks the DHT first and mDNS only when the DHT is pending.
\<close>

record ('d, 'm) combined_discovery =
  cd_dht :: 'd
  cd_mdns :: 'm

definition combined_discovery_bind ::
  "('w, 'c, 'd) dht_env \<Rightarrow> ('w, 'c) dht_config_ops \<Rightarrow> ('w, 'm, 'a, 'l, 'f, 'q) mdns_env \<Rightarrow>
     'c config \<Rightarrow> u16 \<Rightarrow>
     ('w, ('d dht_discovery, ('a, 'l, 'f, 'q) mdns_discovery) combined_discovery io_result) action"
where
  "combined_discovery_bind denv dc menv config announce_port =
     try_bind (mdns_bind menv (unwrap_or mdns_config_default (cfg_mdns config)) announce_port) (\<lambda>mdns.
     try_bind (dht_bind denv (unwrap_or (dc_default dc) (cfg_dht config)) announce_port) (\<lambda>dht.
     act_return (Inr \<lparr>cd_dht = dht, cd_mdns = mdns\<rparr>)))"

definition combined_lookup ::
  "'d discovery_ops \<Rightarrow> 'm discovery_ops \<Rightarrow> topic \<Rightarrow> ('d, 'm) combined_discovery \<Rightarrow>
     ('d, 'm) combined_discovery run" where
  "combined_lookup dops mops topic s =
     run_bind (d_lookup mops topic (cd_mdns s)) (\<lambda>mdns.
     let s1 = s\<lparr>cd_mdns := mdns\<rparr> in
     run_bind (d_lookup dops topic (cd_dht s1)) (\<lambda>dht. ret (s1\<lparr>cd_dht := dht\<rparr>)))"

definition combined_announce ::
  "'d discovery_ops \<Rightarrow> 'm discovery_ops \<Rightarrow> topic \<Rightarrow> ('d, 'm) combined_discovery \<Rightarrow>
     ('d, 'm) combined_discovery run" where
  "combined_announce dops mops topic s =
     run_bind (d_announce mops topic (cd_mdns s)) (\<lambda>mdns.
     let s1 = s\<lparr>cd_mdns := mdns\<rparr> in
     run_bind (d_announce dops topic (cd_dht s1)) (\<lambda>dht. ret (s1\<lparr>cd_dht := dht\<rparr>)))"

definition combined_discovery_poll_next ::
  "'d discovery_ops \<Rightarrow> 'm discovery_ops \<Rightarrow> ('d, 'm) combined_discovery \<Rightarrow>
     (('d, 'm) combined_discovery \<times> peer_info io_result option poll) run" where
  "combined_discovery_poll_next dops mops s =
     run_bind (d_poll_next dops (cd_dht s)) (\<lambda>(dht, next).
     let s1 = s\<lparr>cd_dht := dht\<rparr> in
     if is_ready next then ret (s1, next)
     else run_bind (d_poll_next mops (cd_mdns s1)) (\<lambda>(mdns, next).
          let s2 = s1\<lparr>cd_mdns := mdns\<rparr> in
          if is_ready next then ret (s2, next)
          else ret (s2, Pending)))"

definition combined_discovery_ops ::
  "'d discovery_ops \<Rightarrow> 'm discovery_ops \<Rightarrow> ('d, 'm) combined_discovery discovery_ops" where
  "combined_discovery_ops dops mops =
     \<lparr>d_lookup = combined_lookup dops mops, d_announce = combined_announce dops mops,
      d_poll_next = combined_discovery_poll_next dops mops\<rparr>"

lemma combined_discovery_ops_simps [simp]:
  "d_lookup (combined_discovery_ops dops mops) = combined_lookup dops mops"
  "d_announce (combined_discovery_ops dops mops) = combined_announce dops mops"
  "d_poll_next (combined_discovery_ops dops mops) = combined_discovery_poll_next dops mops"
  by (simp_all add: combined_discovery_ops_def)

subsection \<open>The combined discovery keeps the contract\<close>

lemma not_ready [simp]: "\<not> is_ready p \<longleftrightarrow> p = Pending"
  by (cases p) auto

lemma combined_apply_call:
  "discovery_apply (combined_discovery_ops dops mops) c s =
     run_bind (discovery_apply mops c (cd_mdns s)) (\<lambda>mdns.
     run_bind (discovery_apply dops c (cd_dht s)) (\<lambda>dht. ret \<lparr>cd_dht = dht, cd_mdns = mdns\<rparr>))"
  by (cases c; cases s) (simp_all add: combined_lookup_def combined_announce_def Let_def)

text \<open>The ways one poll can go.\<close>

lemma combined_discovery_poll_ret:
  assumes "combined_discovery_poll_next dops mops s = ret (s', r)"
  obtains (dht) d where "d_poll_next dops (cd_dht s) = ret (d, r)" "r \<noteq> Pending" "s' = s\<lparr>cd_dht := d\<rparr>"
  | (mdns) d m where "d_poll_next dops (cd_dht s) = ret (d, Pending)"
      "d_poll_next mops (cd_mdns s) = ret (m, r)" "s' = s\<lparr>cd_dht := d, cd_mdns := m\<rparr>"
proof -
  from assms obtain d p where d: "d_poll_next dops (cd_dht s) = ret (d, p)"
    by (auto simp: combined_discovery_poll_next_def run_simps)
  show thesis
  proof (cases p)
    case (Ready x)
    with assms d have "s' = s\<lparr>cd_dht := d\<rparr>" and "r = p"
      by (simp_all add: combined_discovery_poll_next_def)
    with d Ready dht show thesis by simp
  next
    case Pending
    with assms d obtain m q where "d_poll_next mops (cd_mdns s) = ret (m, q)"
      and "s' = s\<lparr>cd_dht := d, cd_mdns := m\<rparr>" and "r = q"
      by (cases "\<exists>m q. d_poll_next mops (cd_mdns s) = ret (m, q)")
         (auto simp: combined_discovery_poll_next_def run_simps Let_def split: if_splits)
    with d Pending mdns show thesis by simp
  qed
qed

locale discovery_pair =
  d: discovery dops dinv dmethods + m: discovery mops minv mmethods
  for dops :: "'d discovery_ops" and dinv dmethods
    and mops :: "'m discovery_ops" and minv mmethods
begin

lemma call_ok:
  assumes "dinv (cd_dht s)" and "minv (cd_mdns s)"
  shows "\<exists>s'. discovery_apply (combined_discovery_ops dops mops) c s = ret s' \<and>
    dinv (cd_dht s') \<and> minv (cd_mdns s')"
  using d.apply_ok [OF assms(1), of c] m.apply_ok [OF assms(2), of c]
  by (auto simp: combined_apply_call)

lemma poll_keeps:
  assumes "dinv (cd_dht s)" and "minv (cd_mdns s)"
    and "combined_discovery_poll_next dops mops s = ret (s', r)"
  shows "dinv (cd_dht s') \<and> minv (cd_mdns s') \<and> r \<noteq> Ready None"
  using assms(3)
proof (cases rule: combined_discovery_poll_ret)
  case (dht d)
  with assms(1,2) d.poll_inv d.poll_not_end show ?thesis by auto
next
  case (mdns d m)
  with assms(1,2) d.poll_inv m.poll_inv m.poll_not_end show ?thesis by auto
qed

lemma poll_yields_peer:
  assumes "dinv (cd_dht s)" and "minv (cd_mdns s)"
    and "combined_discovery_poll_next dops mops s = ret (s', Ready (Some (Inr p)))"
  shows "pi_topic p \<noteq> None \<and> pi_discovery_method p \<in> dmethods \<union> mmethods"
  using assms(3)
proof (cases rule: combined_discovery_poll_ret)
  case (dht d)
  with assms(1) d.poll_peer show ?thesis by blast
next
  case (mdns d m)
  with assms(2) m.poll_peer show ?thesis by blast
qed

text \<open>
  A run of the combination is a run of the DHT with the same steps and a run of mDNS with the same
  calls and those polls in which the DHT was pending; the items are merged, each in its order.
\<close>

lemma run_projects:
  assumes "dinv (cd_dht s)" and "minv (cd_mdns s)"
    and "discovery_run (combined_discovery_ops dops mops) steps s = ret (s', items)"
  shows "\<exists>msteps ditems mitems.
    discovery_run dops steps (cd_dht s) = ret (cd_dht s', ditems) \<and>
    discovery_run mops msteps (cd_mdns s) = ret (cd_mdns s', mitems) \<and>
    items \<in> shuffles ditems mitems \<and> step_calls msteps = step_calls steps \<and>
    length msteps + length ditems = length steps"
  using assms
proof (induction steps arbitrary: s items)
  case (Cons step steps)
  show ?case
  proof (cases step)
    case (DCall c)
    from Cons.prems(3) DCall obtain s1
      where call: "discovery_apply (combined_discovery_ops dops mops) c s = ret s1"
        and run: "discovery_run (combined_discovery_ops dops mops) steps s1 = ret (s', items)"
      by (auto simp: run_simps)
    from call_ok [OF Cons.prems(1,2), of c] call have "dinv (cd_dht s1)" "minv (cd_mdns s1)" by auto
    from Cons.IH [OF this run] obtain msteps ditems mitems where
      IH: "discovery_run dops steps (cd_dht s1) = ret (cd_dht s', ditems)"
        "discovery_run mops msteps (cd_mdns s1) = ret (cd_mdns s', mitems)"
        "items \<in> shuffles ditems mitems" "step_calls msteps = step_calls steps"
        "length msteps + length ditems = length steps"
      by blast
    show ?thesis
      by (rule exI [of _ "DCall c # msteps"], rule exI [of _ ditems], rule exI [of _ mitems])
         (use call IH DCall in \<open>auto simp: combined_apply_call run_simps\<close>)
  next
    case DPoll
    from Cons.prems(3) DPoll obtain s1 r items1
      where poll: "combined_discovery_poll_next dops mops s = ret (s1, r)"
        and run: "discovery_run (combined_discovery_ops dops mops) steps s1 = ret (s', items1)"
        and items: "items = yielded r @ items1"
      by (auto simp: run_simps)
    from poll_keeps [OF Cons.prems(1,2) poll] have
      inv: "dinv (cd_dht s1)" "minv (cd_mdns s1)" and "r \<noteq> Ready None" by auto
    from Cons.IH [OF inv run] obtain msteps ditems mitems where
      IH: "discovery_run dops steps (cd_dht s1) = ret (cd_dht s', ditems)"
        "discovery_run mops msteps (cd_mdns s1) = ret (cd_mdns s', mitems)"
        "items1 \<in> shuffles ditems mitems" "step_calls msteps = step_calls steps"
        "length msteps + length ditems = length steps"
      by blast
    from poll show ?thesis
    proof (cases rule: combined_discovery_poll_ret)
      case (dht d)
      with \<open>r \<noteq> Ready None\<close> obtain x where x: "r = Ready (Some x)"
        by (cases r) auto
      show ?thesis
        by (rule exI [of _ msteps], rule exI [of _ "x # ditems"], rule exI [of _ mitems])
           (use dht x IH items DPoll in \<open>auto intro: Cons_in_shuffles_leftI\<close>)
    next
      case (mdns d m)
      then show ?thesis
        by (intro exI [of _ "DPoll # msteps"] exI [of _ ditems] exI [of _ "yielded r @ mitems"],
            cases r rule: yielded.cases)
           (use IH items DPoll in \<open>auto intro: Cons_in_shuffles_rightI\<close>)
    qed
  qed
qed simp

end

sublocale discovery_pair \<subseteq> both:
  discovery "combined_discovery_ops dops mops" "\<lambda>s. dinv (cd_dht s) \<and> minv (cd_mdns s)"
    "dmethods \<union> mmethods"
proof unfold_locales
  fix s :: "('d, 'm) combined_discovery" and t
  assume "dinv (cd_dht s) \<and> minv (cd_mdns s)"
  then show "\<exists>s'. d_lookup (combined_discovery_ops dops mops) t s = ret s' \<and>
      dinv (cd_dht s') \<and> minv (cd_mdns s')"
    and "\<exists>s'. d_announce (combined_discovery_ops dops mops) t s = ret s' \<and>
      dinv (cd_dht s') \<and> minv (cd_mdns s')"
    using call_ok [of s "Lookup t"] call_ok [of s "Announce t"] by simp_all
next
  fix s s' :: "('d, 'm) combined_discovery" and r p
  assume inv: "dinv (cd_dht s) \<and> minv (cd_mdns s)"
  show "d_poll_next (combined_discovery_ops dops mops) s = ret (s', r) \<Longrightarrow>
      dinv (cd_dht s') \<and> minv (cd_mdns s')"
    and "d_poll_next (combined_discovery_ops dops mops) s = ret (s', r) \<Longrightarrow> r \<noteq> Ready None"
    using inv poll_keeps [of s s' r] by simp_all
  show "d_poll_next (combined_discovery_ops dops mops) s = ret (s', Ready (Some (Inr p))) \<Longrightarrow>
      pi_topic p \<noteq> None \<and> pi_discovery_method p \<in> dmethods \<union> mmethods"
    using inv poll_yields_peer [of s s' p] by simp
qed

interpretation discoveries: discovery_pair "dht_ops denv" dht_inv "{Dht}"
    "mdns_ops menv" "mdns_inv menv contents closed" "{Mdns}"
  for denv :: "('w, 'c, 'd) dht_env" and menv :: "('v, 'm, 'a, 'l, 'f, 'q) mdns_env"
    and contents closed
  by unfold_locales

subsection \<open>Properties\<close>

lemmas mdns_eval =
  mdns_start_def mdns_lookup_def mdns_announce_def mdns_send_def mdns_poll_idle

text \<open>
  C8: A run of the combined discovery, over any sequence of lookups, announces and polls, is a
  merge of a run of the DHT discovery, with the same steps, and one of the mDNS discovery, with the
  same calls in the same order: both get every call, the items are those of the two, none lost or
  repeated, each side's in order. The DHT goes first: mDNS is polled exactly in the polls in which
  the DHT had nothing, so every item of the DHT takes one poll away from mDNS.
\<close>

theorem combined_discovery_merges:
  assumes "dht_inv (cd_dht s)" and "mdns_inv menv contents closed (cd_mdns s)"
    and "discovery_run (combined_discovery_ops (dht_ops denv) (mdns_ops menv)) steps s = ret (s', items)"
  shows "\<exists>msteps ditems mitems.
    discovery_run (dht_ops denv) steps (cd_dht s) = ret (cd_dht s', ditems) \<and>
    discovery_run (mdns_ops menv) msteps (cd_mdns s) = ret (cd_mdns s', mitems) \<and>
    items \<in> shuffles ditems mitems \<and> step_calls msteps = step_calls steps \<and>
    length msteps + length ditems = length steps"
  by (rule discoveries.run_projects [OF assms])

theorem combined_discovery_merges_witness:
  "\<exists>s' items. discovery_run (combined_discovery_ops (dht_ops dht_script) (mdns_ops mdns_script))
      [DCall (Lookup (array32_fill 1)), DPoll, DPoll]
      \<lparr>cd_dht = dht_start 4000 [LookupResult (IdBytes (array32_fill 1)) [SocketV4 (Ipv4Addr 10 0 0 1) 80]],
       cd_mdns = mdns_start [([7], SocketV4 (Ipv4Addr 10 0 0 2) 80)]\<rparr> = ret (s', items) \<and>
    (\<exists>(msteps :: discovery_step list) ditems mitems. items \<in> shuffles ditems mitems \<and> length msteps + length ditems = 3)"
proof -
  let ?s = "\<lparr>cd_dht = dht_start 4000 [LookupResult (IdBytes (array32_fill 1)) [SocketV4 (Ipv4Addr 10 0 0 1) 80]],
     cd_mdns = mdns_start [([7], SocketV4 (Ipv4Addr 10 0 0 2) 80)]\<rparr>"
  let ?steps = "[DCall (Lookup (array32_fill 1)), DPoll, DPoll]"
  obtain s' items where
    run: "discovery_run (combined_discovery_ops (dht_ops dht_script) (mdns_ops mdns_script)) ?steps ?s =
      ret (s', items)"
    by (simp add: combined_lookup_def combined_discovery_poll_next_def mdns_eval dht_lookup_def dht_eval)
  have inv: "dht_inv (cd_dht ?s)" "mdns_inv mdns_script fst snd (cd_mdns ?s)"
    by (simp_all add: mdns_start_inv) (simp add: dht_inv_def dht_start_def)
  from combined_discovery_merges [OF inv run] obtain msteps :: "discovery_step list" and ditems mitems
    where "items \<in> shuffles ditems mitems" "length msteps + length ditems = length ?steps"
    by blast
  then have "\<exists>(msteps :: discovery_step list) ditems mitems.
      items \<in> shuffles ditems mitems \<and> length msteps + length ditems = 3"
    by (intro exI [of _ msteps] exI [of _ ditems] exI [of _ mitems]) simp
  with run show ?thesis by blast
qed

end
