(* ===== verification/Swarm.thy ===== *)
theory Swarm
  imports Combined_Transport Combined_Discovery
begin

section \<open>The swarm (\<open>src/swarm.rs\<close>)\<close>

text \<open>
  \<open>Hyperswarm\<close> ties the combined discovery to the combined transport: \<open>configure\<close> asks the
  discovery for a topic, and each poll first runs the commands that handles have sent, then polls
  the discovery once, connects to the peer it found, and polls the transport once. The parts are
  reached through their operations, the fields of \<open>swarm_env\<close>; \<open>se_debug\<close> says whether the \<open>log\<close>
  crate's level lets \<open>debug!\<close> evaluate its arguments, which call \<open>pretty_hash\<close> and unwrap.
\<close>

record ('d, 't, 'a, 'q) swarm_env =
  se_discovery :: "'d discovery_ops"
  se_transport :: "('t, 'a) transport_ops"
  se_channel :: "('q, topic \<times> topic_config) channel_ops"
  se_debug :: bool
  se_pretty_hash :: "topic \<Rightarrow> unit + string"

text \<open>Both ends of the command channel share the state \<open>sw_commands\<close>.\<close>

record ('d, 't, 'q) hyperswarm =
  sw_topics :: "topic \<rightharpoonup> topic_config"
  sw_discovery :: 'd
  sw_transport :: 't
  sw_commands :: 'q

text \<open>
  \<open>Debug\<close> prints the table of topics, a \<open>HashMap\<close>, in no fixed order, so how its parts print is an
  argument.
\<close>

definition debug_hyperswarm ::
  "((topic \<rightharpoonup> topic_config) \<Rightarrow> string) \<Rightarrow> ('d \<Rightarrow> string) \<Rightarrow> ('t \<Rightarrow> string) \<Rightarrow> ('d, 't, 'q) hyperswarm \<Rightarrow> string" where
  "debug_hyperswarm debug_topics debug_discovery debug_transport s =
     debug_struct ''Hyperswarm''
       [(''topics'', debug_topics (sw_topics s)), (''discovery'', debug_discovery (sw_discovery s)),
        (''transport'', debug_transport (sw_transport s))]"

subsection \<open>Binding\<close>

definition swarm_bind ::
  "('w, 'l, 'ts, 'tf, 'tp) tcp_env \<Rightarrow> ('w, 'uc, 'ul, 'us, 'k, 'uf, 'up) utp_env \<Rightarrow>
     ('w, 'c, 'd) dht_env \<Rightarrow> ('w, 'c) dht_config_ops \<Rightarrow> ('w, 'ms, 'a, 'ml, 'f, 'mq) mdns_env \<Rightarrow>
     ('q, topic \<times> topic_config) channel_ops \<Rightarrow> 'c config \<Rightarrow>
     ('w, (('d dht_discovery, ('a, 'ml, 'f, 'mq) mdns_discovery) combined_discovery,
           (('l, 'tp) tcp_transport, ('uc, 'ul, 'up) utp_transport) combined_transport, 'q)
          hyperswarm io_result) action"
where
  "swarm_bind tenv uenv denv dc menv ch config =
     try_bind (combined_transport_bind tenv uenv socket_addr_resolver (cfg_local_addr config)) (\<lambda>transport.
     let announce_addr = combined_transport_local_addr transport;
         announce_port = sock_port announce_addr in
     try_bind (combined_discovery_bind denv dc menv config announce_port) (\<lambda>discovery.
     act_return (Inr \<lparr>sw_topics = Map.empty, sw_discovery = discovery, sw_transport = transport,
                      sw_commands = ch_unbounded ch\<rparr>)))"

subsection \<open>Configuring topics\<close>

definition debug_log :: "('d, 't, 'a, 'q) swarm_env \<Rightarrow> string run \<Rightarrow> unit run" where
  "debug_log env message = (if se_debug env then run_bind message (\<lambda>_. ret ()) else ret ())"

definition swarm_configure ::
  "('d, 't, 'a, 'q) swarm_env \<Rightarrow> topic \<Rightarrow> topic_config \<Rightarrow> ('d, 't, 'q) hyperswarm \<Rightarrow>
     ('d, 't, 'q) hyperswarm run" where
  "swarm_configure env topic config s =
     (let old = unwrap_or topic_config_default (sw_topics s topic);
          s1 = s\<lparr>sw_topics := (sw_topics s)(topic := None)\<rparr> in
      run_bind (debug_log env (run_bind (unwrap_res (se_pretty_hash env topic)) (\<lambda>hash.
        ret (''topic: '' @ hash @ '' announce '' @ show_bool (tc_announce config)
             @ '' lookup '' @ show_bool (tc_lookup config))))) (\<lambda>_.
      run_bind (if tc_announce config \<and> \<not> tc_announce old
                then run_bind (d_announce (se_discovery env) topic (sw_discovery s1))
                       (\<lambda>d. ret (s1\<lparr>sw_discovery := d\<rparr>))
                else ret s1) (\<lambda>s2.
      run_bind (if tc_lookup config \<and> \<not> tc_lookup old
                then run_bind (d_lookup (se_discovery env) topic (sw_discovery s2))
                       (\<lambda>d. ret (s2\<lparr>sw_discovery := d\<rparr>))
                else ret s2) (\<lambda>s3.
      ret (s3\<lparr>sw_topics := (sw_topics s3)(topic \<mapsto> config)\<rparr>)))))"

text \<open>\<open>SwarmHandle\<close>: a sender of the command channel, here the channel's state.\<close>

definition swarm_handle :: "('d, 't, 'q) hyperswarm \<Rightarrow> 'q" where
  "swarm_handle s = sw_commands s"

definition handle_configure ::
  "('d, 't, 'a, 'q) swarm_env \<Rightarrow> topic \<Rightarrow> topic_config \<Rightarrow> 'q \<Rightarrow> 'q run" where
  "handle_configure env topic config command_tx =
     (case ch_try_send (se_channel env) (topic, config) command_tx of
        (queue, r) \<Rightarrow> run_bind (unwrap_res r) (\<lambda>_. ret queue))"

subsection \<open>Polling\<close>

partial_function (option) drain_commands ::
  "('d, 't, 'a, 'q) swarm_env \<Rightarrow> ('d, 't, 'q) hyperswarm \<Rightarrow> ('d, 't, 'q) hyperswarm run" where
  "drain_commands env s =
     (case ch_poll_next (se_channel env) (sw_commands s) of
        (queue, p) \<Rightarrow>
          let s1 = s\<lparr>sw_commands := queue\<rparr> in
          (case p of
             Ready (Some (topic, config)) \<Rightarrow>
               run_bind (swarm_configure env topic config s1) (\<lambda>s2. drain_commands env s2)
           | Ready None \<Rightarrow> ret s1
           | Pending \<Rightarrow> ret s1))"

definition swarm_poll_next ::
  "('d, 't, 'a, 'q) swarm_env \<Rightarrow> ('d, 't, 'q) hyperswarm \<Rightarrow>
     (('d, 't, 'q) hyperswarm \<times> 'a connection io_result option poll) run" where
  "swarm_poll_next env s =
     run_bind (drain_commands env s) (\<lambda>s1.
     run_bind (d_poll_next (se_discovery env) (sw_discovery s1)) (\<lambda>(disc, discovery).
     let s2 = s1\<lparr>sw_discovery := disc\<rparr>;
         poll_transport = (\<lambda>s3.
           run_bind (t_poll_next (se_transport env) (sw_transport s3)) (\<lambda>(trans, res).
           let s4 = s3\<lparr>sw_transport := trans\<rparr> in
           (case res of
              Ready (Some (Inr conn)) \<Rightarrow>
                run_bind (debug_log env (ret (''new connection ''
                  @ (if connection_is_initiator conn then ''to'' else ''from'') @ '' ''
                  @ connection_protocol conn @ ''://'' @ show_socket_addr (connection_peer_addr conn)))) (\<lambda>_.
                ret (s4, Ready (Some (Inr conn))))
            | Ready (Some (Inl err)) \<Rightarrow> ret (s4, Pending)
            | Ready None \<Rightarrow> ret (s4, Pending)
            | Pending \<Rightarrow> ret (s4, Pending)))) in
     (case discovery of
        Pending \<Rightarrow> poll_transport s2
      | Ready None \<Rightarrow> poll_transport s2
      | Ready (Some (Inl e)) \<Rightarrow> ret (s2, Ready (Some (Inl e)))
      | Ready (Some (Inr peer_info)) \<Rightarrow>
          run_bind (debug_log env (run_bind (show_peer_info (se_pretty_hash env) peer_info) (\<lambda>text.
            ret (''new discovery: '' @ text)))) (\<lambda>_.
          poll_transport (s2\<lparr>sw_transport :=
            t_connect (se_transport env) (peer_info_addr peer_info) (sw_transport s2)\<rparr>)))))"

lemma drain_unfold:
  "drain_commands env s =
    (case ch_poll_next (se_channel env) (sw_commands s) of
       (queue, Ready (Some (t, c))) \<Rightarrow>
         run_bind (swarm_configure env t c (s\<lparr>sw_commands := queue\<rparr>)) (drain_commands env)
     | (queue, _) \<Rightarrow> ret (s\<lparr>sw_commands := queue\<rparr>))"
  by (subst drain_commands.simps) (simp split: prod.splits poll.splits option.splits)

subsection \<open>Executions\<close>

text \<open>
  What can happen to a swarm: its owner configures a topic or polls it, or a handle sends a
  configuration. A trace keeps the calls and the results of the polls.
\<close>

datatype 'a swarm_event =
    Configured topic topic_config
  | Sent topic topic_config
  | Polled "'a connection io_result option poll"

inductive swarm_step ::
  "('d, 't, 'a, 'q) swarm_env \<Rightarrow> ('d, 't, 'q) hyperswarm \<Rightarrow> 'a swarm_event \<Rightarrow>
     ('d, 't, 'q) hyperswarm \<Rightarrow> bool" for env where
  step_configure:
    "swarm_configure env t c s = ret s' \<Longrightarrow> swarm_step env s (Configured t c) s'"
| step_send:
    "handle_configure env t c (swarm_handle s) = ret queue \<Longrightarrow>
       swarm_step env s (Sent t c) (s\<lparr>sw_commands := queue\<rparr>)"
| step_poll:
    "swarm_poll_next env s = ret (s', r) \<Longrightarrow> swarm_step env s (Polled r) s'"

inductive swarm_exec ::
  "('d, 't, 'a, 'q) swarm_env \<Rightarrow> ('d, 't, 'q) hyperswarm \<Rightarrow> 'a swarm_event list \<Rightarrow>
     ('d, 't, 'q) hyperswarm \<Rightarrow> bool" for env where
  exec_nil: "swarm_exec env s [] s"
| exec_cons: "swarm_step env s e s1 \<Longrightarrow> swarm_exec env s1 es s2 \<Longrightarrow> swarm_exec env s (e # es) s2"

inductive_simps swarm_step_simps:
  "swarm_step env s (Configured t c) s'"
  "swarm_step env s (Sent t c) s'"
  "swarm_step env s (Polled r) s'"

inductive_simps swarm_exec_simps:
  "swarm_exec env s [] s'"
  "swarm_exec env s (e # es) s'"

text \<open>The connections and the errors that the polls of a trace returned.\<close>

fun poll_errors :: "'a connection io_result option poll \<Rightarrow> io_error list" where
  "poll_errors (Ready (Some (Inl e))) = [e]"
| "poll_errors r = []"

fun trace_conns :: "'a swarm_event list \<Rightarrow> 'a connection list" where
  "trace_conns [] = []"
| "trace_conns (Polled r # es) = delivered r @ trace_conns es"
| "trace_conns (_ # es) = trace_conns es"

fun trace_errors :: "'a swarm_event list \<Rightarrow> io_error list" where
  "trace_errors [] = []"
| "trace_errors (Polled r # es) = poll_errors r @ trace_errors es"
| "trace_errors (_ # es) = trace_errors es"

subsection \<open>The reference behaviour\<close>

text \<open>
  The configurations in the order they take effect, given the queue: one made directly at once,
  one sent by a handle at the next poll. Alongside, the queue that is left.
\<close>

type_synonym config_seq = "(topic \<times> topic_config) list"

fun event_configs :: "config_seq \<Rightarrow> 'a swarm_event \<Rightarrow> config_seq \<times> config_seq" where
  "event_configs q (Configured t c) = ([(t, c)], q)"
| "event_configs q (Sent t c) = ([], q @ [(t, c)])"
| "event_configs q (Polled r) = (q, [])"

fun trace_configs :: "config_seq \<Rightarrow> 'a swarm_event list \<Rightarrow> config_seq \<times> config_seq" where
  "trace_configs q [] = ([], q)"
| "trace_configs q (e # es) =
     (case event_configs q e of (ps, q1) \<Rightarrow>
        case trace_configs q1 es of (ps', q2) \<Rightarrow> (ps @ ps', q2))"

text \<open>
  What a configuration asks of the discovery: an announce, then a lookup, each only when the topic
  turns it on and had it off. And what a sequence of them asks, from a table of topics.
\<close>

definition configure_calls :: "topic_config option \<Rightarrow> topic \<Rightarrow> topic_config \<Rightarrow> discovery_call list" where
  "configure_calls old t c =
     (let old = unwrap_or topic_config_default old in
      (if tc_announce c \<and> \<not> tc_announce old then [Announce t] else []) @
      (if tc_lookup c \<and> \<not> tc_lookup old then [Lookup t] else []))"

fun rising_calls :: "(topic \<rightharpoonup> topic_config) \<Rightarrow> config_seq \<Rightarrow> discovery_call list" where
  "rising_calls m [] = []"
| "rising_calls m ((t, c) # ps) = configure_calls (m t) t c @ rising_calls (m(t \<mapsto> c)) ps"

fun apply_configs :: "(topic \<rightharpoonup> topic_config) \<Rightarrow> config_seq \<Rightarrow> topic \<rightharpoonup> topic_config" where
  "apply_configs m [] = m"
| "apply_configs m ((t, c) # ps) = apply_configs (m(t \<mapsto> c)) ps"

lemma apply_configs_append [simp]: "apply_configs m (ps @ qs) = apply_configs (apply_configs m ps) qs"
  by (induction m ps rule: apply_configs.induct) (simp_all del: fun_upd_apply)

lemma rising_calls_append [simp]:
  "rising_calls m (ps @ qs) = rising_calls m ps @ rising_calls (apply_configs m ps) qs"
  by (induction m ps rule: rising_calls.induct) (simp_all del: fun_upd_apply)

lemma rising_calls_sound:
  "Announce t \<in> set (rising_calls m ps) \<Longrightarrow> \<exists>c. (t, c) \<in> set ps \<and> tc_announce c"
  "Lookup t \<in> set (rising_calls m ps) \<Longrightarrow> \<exists>c. (t, c) \<in> set ps \<and> tc_lookup c"
  by (induction m ps rule: rising_calls.induct)
     (auto simp: configure_calls_def Let_def split: if_splits)

lemma rising_calls_complete:
  "apply_configs m ps t = Some c \<Longrightarrow>
     (tc_announce c \<longrightarrow> (\<exists>c'. m t = Some c' \<and> tc_announce c') \<or> Announce t \<in> set (rising_calls m ps)) \<and>
     (tc_lookup c \<longrightarrow> (\<exists>c'. m t = Some c' \<and> tc_lookup c') \<or> Lookup t \<in> set (rising_calls m ps))"
proof (induction m ps rule: rising_calls.induct)
  case (2 m t' c' ps)
  then show ?case
    by (cases "t' = t"; cases "m t")
       (auto simp: configure_calls_def Let_def fun_upd_same fun_upd_other simp del: fun_upd_apply
          split: if_splits)
qed auto

fun item_peers :: "peer_info io_result list \<Rightarrow> socket_addr list" where
  "item_peers [] = []"
| "item_peers (Inr p # items) = pi_addr p # item_peers items"
| "item_peers (Inl e # items) = item_peers items"

fun item_errors :: "peer_info io_result list \<Rightarrow> io_error list" where
  "item_errors [] = []"
| "item_errors (Inr p # items) = item_errors items"
| "item_errors (Inl e # items) = e # item_errors items"

lemma item_append [simp]:
  "item_peers (xs @ ys) = item_peers xs @ item_peers ys"
  "item_errors (xs @ ys) = item_errors xs @ item_errors ys"
  by (induction xs rule: item_peers.induct) simp_all

lemma io_poll_cases [case_names pending ended error item]:
  fixes p :: "'b io_result option poll"
  obtains "p = Pending" | "p = Ready None" | e where "p = Ready (Some (Inl e))"
    | x where "p = Ready (Some (Inr x))"
  by (metis poll.exhaust option.exhaust sum.exhaust)

lemma item_errors_yielded: "item_errors (yielded item) = e # es \<Longrightarrow> item = Ready (Some (Inl e))"
  by (cases item rule: io_poll_cases) auto

text \<open>
  The effect of part of an execution, as a relation between the states around it: the
  configurations \<open>ps\<close> took effect, the discovery went through a run with exactly the calls they
  ask for, the transport through a run that connects to exactly the peers found, in order, and
  delivered \<open>conns\<close>; \<open>errs\<close> are the errors the discovery reported.
\<close>

definition swarm_effect ::
  "('d, 't, 'a, 'q) swarm_env \<Rightarrow> ('d, 't, 'q) hyperswarm \<Rightarrow> config_seq \<Rightarrow> 'a connection list \<Rightarrow>
     io_error list \<Rightarrow> ('d, 't, 'q) hyperswarm \<Rightarrow> bool" where
  "swarm_effect env s ps conns errs s' \<longleftrightarrow>
     sw_topics s' = apply_configs (sw_topics s) ps \<and>
     (\<exists>steps items calls.
        discovery_run (se_discovery env) steps (sw_discovery s) = ret (sw_discovery s', items) \<and>
        step_calls steps = rising_calls (sw_topics s) ps \<and>
        transport_run (se_transport env) calls (sw_transport s) = ret (sw_transport s', conns) \<and>
        connects calls = item_peers items \<and> item_errors items = errs)"

lemma swarm_effectI:
  assumes "sw_topics s' = apply_configs (sw_topics s) ps"
    and "discovery_run (se_discovery env) steps (sw_discovery s) = ret (sw_discovery s', items)"
    and "step_calls steps = rising_calls (sw_topics s) ps"
    and "transport_run (se_transport env) calls (sw_transport s) = ret (sw_transport s', conns)"
    and "connects calls = item_peers items" and "item_errors items = errs"
  shows "swarm_effect env s ps conns errs s'"
  using assms unfolding swarm_effect_def by blast

lemma swarm_effect_refl: "swarm_effect env s [] [] [] s"
  by (rule swarm_effectI [where steps = "[]" and items = "[]" and calls = "[]"]) simp_all

lemma swarm_effect_trans:
  assumes "swarm_effect env s ps conns errs s1" and "swarm_effect env s1 qs conns' errs' s2"
  shows "swarm_effect env s (ps @ qs) (conns @ conns') (errs @ errs') s2"
proof -
  from assms(1) obtain steps items calls where 1:
    "sw_topics s1 = apply_configs (sw_topics s) ps"
    "discovery_run (se_discovery env) steps (sw_discovery s) = ret (sw_discovery s1, items)"
    "step_calls steps = rising_calls (sw_topics s) ps"
    "transport_run (se_transport env) calls (sw_transport s) = ret (sw_transport s1, conns)"
    "connects calls = item_peers items" "item_errors items = errs"
    unfolding swarm_effect_def by blast
  from assms(2) obtain steps' items' calls' where 2:
    "sw_topics s2 = apply_configs (sw_topics s1) qs"
    "discovery_run (se_discovery env) steps' (sw_discovery s1) = ret (sw_discovery s2, items')"
    "step_calls steps' = rising_calls (sw_topics s1) qs"
    "transport_run (se_transport env) calls' (sw_transport s1) = ret (sw_transport s2, conns')"
    "connects calls' = item_peers items'" "item_errors items' = errs'"
    unfolding swarm_effect_def by blast
  show ?thesis
    by (rule swarm_effectI [where steps = "steps @ steps'" and items = "items @ items'"
          and calls = "calls @ calls'"])
       (simp_all add: 1 2 discovery_run_append transport_run_append)
qed

text \<open>The result of a transport's poll, as the swarm passes it on.\<close>

definition swarm_reply ::
  "'a connection io_result option poll \<Rightarrow> 'a connection io_result option poll" where
  "swarm_reply conn = (case conn of Ready (Some (Inr c)) \<Rightarrow> Ready (Some (Inr c)) | _ \<Rightarrow> Pending)"

lemma swarm_reply_simps [simp]:
  "delivered (swarm_reply conn) = delivered conn"
  "poll_errors (swarm_reply conn) = []"
  "swarm_reply conn \<noteq> Ready None"
  by (cases conn rule: delivered.cases; simp add: swarm_reply_def)+

subsection \<open>The swarm over any discovery, transport and channel\<close>

text \<open>
  The client of the interfaces: a discovery and a transport that keep their contracts, an
  unbounded channel that is open, and, in the invariant because the environment decides it, a
  \<open>pretty_hash\<close> that prints every topic if it is asked to.
\<close>

definition log_prints :: "('d, 't, 'a, 'q) swarm_env \<Rightarrow> bool" where
  "log_prints env \<longleftrightarrow> (se_debug env \<longrightarrow> (\<forall>t. \<exists>h. se_pretty_hash env t = Inr h))"

definition swarm_inv ::
  "('d, 't, 'a, 'q) swarm_env \<Rightarrow> ('d \<Rightarrow> bool) \<Rightarrow> ('t \<Rightarrow> bool) \<Rightarrow> ('q \<Rightarrow> config_seq) \<Rightarrow>
     ('q \<Rightarrow> bool) \<Rightarrow> ('d, 't, 'q) hyperswarm \<Rightarrow> bool" where
  "swarm_inv env dinv tinv contents closed s \<longleftrightarrow>
     dinv (sw_discovery s) \<and> tinv (sw_transport s) \<and> \<not> closed (sw_commands s) \<and>
     channel_laws (se_channel env) contents closed \<and> log_prints env"

locale swarm_parts =
  disc: discovery "se_discovery env" dinv methods + trans: transport "se_transport env" tinv good
  for env :: "('d, 't, 'a, 'q) swarm_env" and dinv methods tinv good +
  fixes contents :: "'q \<Rightarrow> config_seq" and closed :: "'q \<Rightarrow> bool"
begin

abbreviation wf :: "('d, 't, 'q) hyperswarm \<Rightarrow> bool" where
  "wf \<equiv> swarm_inv env dinv tinv contents closed"

lemmas wf_def = swarm_inv_def [of env dinv tinv contents closed]

lemma wf_laws:
  assumes "wf s"
  shows "channel_laws (se_channel env) contents closed" and "log_prints env"
  using assms by (simp_all add: wf_def)

lemma debug_topic [simp]:
  "log_prints env \<Longrightarrow>
     debug_log env (run_bind (unwrap_res (se_pretty_hash env t)) (\<lambda>h. ret (f h))) = ret ()"
  by (auto simp: debug_log_def log_prints_def dest: spec [of _ t])

lemma debug_ret [simp]: "debug_log env (ret x) = ret ()"
  by (simp add: debug_log_def)

lemma debug_peer [simp]:
  assumes "log_prints env"
  shows "debug_log env (run_bind (show_peer_info (se_pretty_hash env) p) (\<lambda>h. ret (f h))) = ret ()"
proof (cases "pi_topic p")
  case (Some t)
  with assms show ?thesis
    by (auto simp: debug_log_def show_peer_info_def log_prints_def dest: spec [of _ t])
qed (simp add: debug_log_def show_peer_info_def)

lemma configure_ok:
  assumes "dinv (sw_discovery s)" and log: "log_prints env"
  shows "\<exists>d. swarm_configure env t c s =
      ret (s\<lparr>sw_topics := (sw_topics s)(t \<mapsto> c), sw_discovery := d\<rparr>) \<and> dinv d \<and>
    discovery_run (se_discovery env) (map DCall (configure_calls (sw_topics s t) t c)) (sw_discovery s) =
      ret (d, [])"
proof -
  let ?old = "unwrap_or topic_config_default (sw_topics s t)"
  have "\<exists>d1. (if b then d_announce (se_discovery env) t d else ret d) = ret d1 \<and> dinv d1"
    if "dinv d" for b d
    using disc.announce_ok [OF that, of t] that by (cases b) auto
  from this [OF assms(1), of "tc_announce c \<and> \<not> tc_announce ?old"]
  obtain d1 where a: "(if tc_announce c \<and> \<not> tc_announce ?old
      then d_announce (se_discovery env) t (sw_discovery s) else ret (sw_discovery s)) = ret d1"
    and inv1: "dinv d1" by blast
  have "\<exists>d2. (if b then d_lookup (se_discovery env) t d1 else ret d1) = ret d2 \<and> dinv d2" for b
    using disc.lookup_ok [OF inv1, of t] inv1 by (cases b) auto
  from this [of "tc_lookup c \<and> \<not> tc_lookup ?old"]
  obtain d2 where l: "(if tc_lookup c \<and> \<not> tc_lookup ?old
      then d_lookup (se_discovery env) t d1 else ret d1) = ret d2" and inv2: "dinv d2" by blast
  show ?thesis
    using a l inv2
    by (intro exI [of _ d2])
       (cases s; auto simp: swarm_configure_def configure_calls_def log split: if_splits)
qed

text \<open>The loop over the commands returns, with the queue empty and every command run in order.\<close>

lemma drain_ok:
  assumes "wf s"
  shows "\<exists>d q. drain_commands env s =
      ret (s\<lparr>sw_topics := apply_configs (sw_topics s) (contents (sw_commands s)),
             sw_discovery := d, sw_commands := q\<rparr>) \<and>
    contents q = [] \<and> \<not> closed q \<and> dinv d \<and>
    discovery_run (se_discovery env)
      (map DCall (rising_calls (sw_topics s) (contents (sw_commands s)))) (sw_discovery s) = ret (d, [])"
  using assms
proof (induction "contents (sw_commands s)" arbitrary: s)
  case Nil
  note channel = wf_laws(1) [OF Nil.prems]
  from Nil have "\<not> closed (sw_commands s)" by (simp add: wf_def)
  with Nil channel_lawsD(6) [OF channel, of "sw_commands s"]
  obtain q where "ch_poll_next (se_channel env) (sw_commands s) = (q, Pending)"
    and "contents q = []" and "\<not> closed q" by auto
  with Nil show ?case
    by (intro exI [of _ "sw_discovery s"] exI [of _ q]) (cases s; simp add: drain_unfold wf_def)
next
  case (Cons m ms)
  note channel = wf_laws(1) [OF Cons.prems] and log = wf_laws(2) [OF Cons.prems]
  obtain t c where m: "m = (t, c)" by fastforce
  from Cons.prems have open_s: "\<not> closed (sw_commands s)" and inv: "dinv (sw_discovery s)"
    and tinv: "tinv (sw_transport s)" by (simp_all add: wf_def)
  from channel_lawsD(5) [OF channel, of "sw_commands s"] Cons.hyps(2) [symmetric] open_s
  obtain q where poll: "ch_poll_next (se_channel env) (sw_commands s) = (q, Ready (Some (t, c)))"
    and q: "contents q = ms" "\<not> closed q" by (auto simp: m)
  obtain d where conf: "swarm_configure env t c (s\<lparr>sw_commands := q\<rparr>) =
      ret (s\<lparr>sw_commands := q, sw_topics := (sw_topics s)(t \<mapsto> c), sw_discovery := d\<rparr>)"
    and d: "dinv d" "discovery_run (se_discovery env)
      (map DCall (configure_calls (sw_topics s t) t c)) (sw_discovery s) = ret (d, [])"
    using configure_ok [of "s\<lparr>sw_commands := q\<rparr>" t c] inv log by auto
  let ?s = "s\<lparr>sw_commands := q, sw_topics := (sw_topics s)(t \<mapsto> c), sw_discovery := d\<rparr>"
  have "ms = contents (sw_commands ?s)" and "wf ?s" by (simp_all add: q d tinv wf_def channel log)
  from Cons.hyps(1) [OF this] obtain d' q' where drain: "drain_commands env ?s =
      ret (?s\<lparr>sw_topics := apply_configs (sw_topics ?s) ms, sw_discovery := d', sw_commands := q'\<rparr>)"
    and "contents q' = []" "\<not> closed q'" "dinv d'"
    and "discovery_run (se_discovery env) (map DCall (rising_calls (sw_topics ?s) ms)) d = ret (d', [])"
    by (auto simp: q)
  then show ?case
    by (intro exI [of _ d'] exI [of _ q'])
       (use d conf poll drain in \<open>simp add: Cons.hyps(2) [symmetric] m drain_unfold [of env s]
          discovery_run_append del: fun_upd_apply\<close>)
qed

lemma connects_inv: "tinv t \<Longrightarrow> tinv (fold (t_connect (se_transport env)) peers t)"
  by (induction peers arbitrary: t) (simp_all add: trans.connect_inv)

text \<open>What a poll does once the commands are run and the discovery was polled.\<close>

lemma swarm_tail:
  "run_bind (t_poll_next (se_transport env) t) (\<lambda>(trans, res).
     let s4 = s3\<lparr>sw_transport := trans\<rparr> in
     (case res of
        Ready (Some (Inr conn)) \<Rightarrow>
          run_bind (debug_log env (ret (text conn))) (\<lambda>_. ret (s4, Ready (Some (Inr conn))))
      | Ready (Some (Inl err)) \<Rightarrow> ret (s4, Pending)
      | Ready None \<Rightarrow> ret (s4, Pending)
      | Pending \<Rightarrow> ret (s4, Pending))) =
   run_bind (t_poll_next (se_transport env) t) (\<lambda>(trans, conn).
     ret (s3\<lparr>sw_transport := trans\<rparr>, swarm_reply conn))"
  by (rule run_bind_cong [OF refl])
     (auto simp: swarm_reply_def Let_def split: poll.split option.split sum.split)

lemma poll_after_drain:
  assumes log: "log_prints env"
    and "drain_commands env s = ret s1"
    and "d_poll_next (se_discovery env) (sw_discovery s1) = ret (disc, item)"
  shows "swarm_poll_next env s =
    (case item_errors (yielded item) of
       [] \<Rightarrow>
         run_bind (t_poll_next (se_transport env)
             (fold (t_connect (se_transport env)) (item_peers (yielded item)) (sw_transport s1)))
           (\<lambda>(trans, conn). ret (s1\<lparr>sw_discovery := disc, sw_transport := trans\<rparr>, swarm_reply conn))
     | e # _ \<Rightarrow> ret (s1\<lparr>sw_discovery := disc\<rparr>, Ready (Some (Inl e))))"
proof -
  show ?thesis
    unfolding swarm_poll_next_def assms(2) run_bind_simps Let_def [of "_\<lparr>sw_discovery := _\<rparr>"]
      Let_def [of "\<lambda>s3. _ s3"] assms(3) prod.case swarm_tail
    by (cases item rule: io_poll_cases) (simp_all add: log)
qed

text \<open>
  One poll, on a state whose discovery poll returns \<open>item\<close> and whose transport poll, if it comes
  to it, returns \<open>conn\<close>.
\<close>

lemma poll_cases:
  assumes "wf s" and "swarm_poll_next env s = ret (s', r)"
  obtains (error) d q disc e where
      "discovery_run (se_discovery env)
         (map DCall (rising_calls (sw_topics s) (contents (sw_commands s)))) (sw_discovery s) = ret (d, [])"
      "contents q = []" "\<not> closed q"
      "d_poll_next (se_discovery env) d = ret (disc, Ready (Some (Inl e)))" "dinv disc"
      "s' = s\<lparr>sw_topics := apply_configs (sw_topics s) (contents (sw_commands s)),
              sw_discovery := disc, sw_commands := q\<rparr>"
      "r = Ready (Some (Inl e))"
  | (transport) d q disc item trans conn where
      "discovery_run (se_discovery env)
         (map DCall (rising_calls (sw_topics s) (contents (sw_commands s)))) (sw_discovery s) = ret (d, [])"
      "contents q = []" "\<not> closed q"
      "d_poll_next (se_discovery env) d = ret (disc, item)" "dinv disc"
      "item_errors (yielded item) = []"
      "t_poll_next (se_transport env)
         (fold (t_connect (se_transport env)) (item_peers (yielded item)) (sw_transport s)) =
       ret (trans, conn)" "tinv trans"
      "s' = s\<lparr>sw_topics := apply_configs (sw_topics s) (contents (sw_commands s)),
              sw_discovery := disc, sw_transport := trans, sw_commands := q\<rparr>"
      "r = swarm_reply conn"
proof -
  from drain_ok [OF assms(1)] obtain d q where drain: "drain_commands env s =
      ret (s\<lparr>sw_topics := apply_configs (sw_topics s) (contents (sw_commands s)),
             sw_discovery := d, sw_commands := q\<rparr>)"
    and q: "contents q = []" "\<not> closed q" and inv: "dinv d"
    and calls: "discovery_run (se_discovery env)
      (map DCall (rising_calls (sw_topics s) (contents (sw_commands s)))) (sw_discovery s) = ret (d, [])"
    by blast
  let ?s = "s\<lparr>sw_topics := apply_configs (sw_topics s) (contents (sw_commands s)),
             sw_discovery := d, sw_commands := q\<rparr>"
  from assms(2) drain obtain disc item
    where poll: "d_poll_next (se_discovery env) (sw_discovery ?s) = ret (disc, item)"
    by (auto simp: swarm_poll_next_def run_simps)
  note eq = poll_after_drain [OF wf_laws(2) [OF assms(1)] drain poll]
  have disc: "dinv disc" using disc.poll_inv [OF inv] poll by simp
  show thesis
  proof (cases "item_errors (yielded item)")
    case (Cons e es)
    then have "item = Ready (Some (Inl e))" by (rule item_errors_yielded)
    with assms(2) eq poll disc calls q Cons show thesis
      by (intro error [of d q disc e]) auto
  next
    case Nil
    let ?t = "fold (t_connect (se_transport env)) (item_peers (yielded item)) (sw_transport s)"
    have "tinv ?t" by (rule connects_inv) (use assms(1) in \<open>simp add: wf_def\<close>)
    from assms(2) [unfolded eq] Nil obtain trans conn
      where conn: "t_poll_next (se_transport env) ?t = ret (trans, conn)"
      by (auto simp: run_simps)
    have "tinv trans" by (rule trans.poll_inv [OF \<open>tinv ?t\<close> conn])
    with Nil assms(2) [unfolded eq] calls q poll disc conn show thesis
      by (intro transport [of d q disc item trans conn]) auto
  qed
qed

lemma poll_effect:
  assumes "wf s" and "swarm_poll_next env s = ret (s', r)"
  shows "wf s' \<and> contents (sw_commands s') = [] \<and> r \<noteq> Ready None \<and>
    swarm_effect env s (contents (sw_commands s)) (delivered r) (poll_errors r) s'"
  using assms
proof (cases rule: poll_cases)
  case (error d q disc e)
  have "swarm_effect env s (contents (sw_commands s)) (delivered r) (poll_errors r) s'"
    by (rule swarm_effectI [where items = "[Inl e]" and calls = "[]" and
          steps = "map DCall (rising_calls (sw_topics s) (contents (sw_commands s))) @ [DPoll]"])
       (simp_all add: error discovery_run_append)
  with error assms(1) show ?thesis by (simp add: wf_def)
next
  case (transport d q disc item trans conn)
  have conns: "delivered r = delivered conn" "poll_errors r = []" "r \<noteq> Ready None"
    by (simp_all add: transport(10))
  have "transport_run (se_transport env) (map TConnect (item_peers (yielded item)) @ [TPoll])
      (sw_transport s) = ret (trans, delivered conn)"
    using transport(7) by (simp add: transport_run_connects)
  then have "swarm_effect env s (contents (sw_commands s)) (delivered r) (poll_errors r) s'"
    by (intro swarm_effectI [where items = "yielded item" and
          calls = "map TConnect (item_peers (yielded item)) @ [TPoll]" and
          steps = "map DCall (rising_calls (sw_topics s) (contents (sw_commands s))) @ [DPoll]"])
       (simp_all add: conns transport(1-6,8,9) discovery_run_append)
  with transport conns(3) assms(1) show ?thesis by (simp add: wf_def)
qed

lemma poll_returns:
  assumes "wf s" and "\<And>d. dinv d \<Longrightarrow> d_poll_next (se_discovery env) d \<noteq> None"
  shows "swarm_poll_next env s \<noteq> None"
proof -
  from drain_ok [OF assms(1)] obtain d q where drain: "drain_commands env s =
      ret (s\<lparr>sw_topics := apply_configs (sw_topics s) (contents (sw_commands s)),
             sw_discovery := d, sw_commands := q\<rparr>)" and inv: "dinv d"
    by blast
  have t: "tinv (fold (t_connect (se_transport env)) peers (sw_transport s))" for peers
    by (rule connects_inv) (use assms(1) in \<open>simp add: wf_def\<close>)
  show ?thesis
  proof (cases "\<exists>x. d_poll_next (se_discovery env) d = ret x")
    case True
    then obtain disc item where "d_poll_next (se_discovery env) d = ret (disc, item)" by auto
    then show ?thesis
      using trans.poll_returns [OF t, of "item_peers (yielded item)"]
      by (auto simp: poll_after_drain [OF wf_laws(2) [OF assms(1)] drain] run_bind_eq_None simp del: not_None_eq
          split: list.splits)
  next
    case False
    with assms(2) [OF inv] have "d_poll_next (se_discovery env) d = panic"
      by (metis exec.exhaust not_None_eq)
    with drain show ?thesis by (simp add: swarm_poll_next_def)
  qed
qed

text \<open>A step, and then an execution, has the effect of the configurations it makes.\<close>

lemma step_effect:
  assumes "swarm_step env s e s'" and "wf s"
    and "event_configs (contents (sw_commands s)) e = (ps, q)"
  shows "wf s' \<and> contents (sw_commands s') = q \<and>
    swarm_effect env s ps (trace_conns [e]) (trace_errors [e]) s'"
  using assms
proof (cases e)
  case (Configured t c)
  have "dinv (sw_discovery s)" using assms(2) by (simp add: wf_def)
  from configure_ok [OF this wf_laws(2) [OF assms(2)], of t c] obtain d where
    "swarm_configure env t c s = ret (s\<lparr>sw_topics := (sw_topics s)(t \<mapsto> c), sw_discovery := d\<rparr>)"
    and "dinv d" and "discovery_run (se_discovery env)
      (map DCall (configure_calls (sw_topics s t) t c)) (sw_discovery s) = ret (d, [])"
    by blast
  with assms Configured show ?thesis
    by (auto simp: swarm_step_simps wf_def
        intro!: swarm_effectI [where steps = "map DCall (configure_calls (sw_topics s t) t c)"
          and items = "[]" and calls = "[]"])
next
  case (Sent t c)
  from assms(2) channel_lawsD(3) [OF wf_laws(1) [OF assms(2)], of "sw_commands s" "(t, c)"]
  obtain q' where "ch_try_send (se_channel env) (t, c) (sw_commands s) = (q', Inr ())"
    and "contents q' = contents (sw_commands s) @ [(t, c)]" and "\<not> closed q'"
    by (auto simp: wf_def)
  with assms Sent show ?thesis
    by (auto simp: swarm_step_simps handle_configure_def swarm_handle_def wf_def
        intro!: swarm_effectI [where steps = "[]" and items = "[]" and calls = "[]"])
next
  case (Polled r)
  with assms poll_effect [OF assms(2), of s' r] show ?thesis by (auto simp: swarm_step_simps)
qed

lemma exec_effect:
  assumes "swarm_exec env s es s'" and "wf s"
    and "trace_configs (contents (sw_commands s)) es = (ps, q)"
  shows "wf s' \<and> contents (sw_commands s') = q \<and>
    swarm_effect env s ps (trace_conns es) (trace_errors es) s'"
  using assms
proof (induction arbitrary: ps q rule: swarm_exec.induct)
  case (exec_nil s)
  then show ?case by (simp add: swarm_effect_refl)
next
  case (exec_cons s e s1 es s2)
  obtain ps1 q1 where first: "event_configs (contents (sw_commands s)) e = (ps1, q1)" by fastforce
  obtain ps2 q2 where rest: "trace_configs q1 es = (ps2, q2)" by fastforce
  note step = step_effect [OF exec_cons.hyps(1) exec_cons.prems(1) first]
  with rest exec_cons.IH [of ps2 q2] have IH: "wf s2 \<and> contents (sw_commands s2) = q2 \<and>
      swarm_effect env s1 ps2 (trace_conns es) (trace_errors es) s2" by simp
  have parts: "trace_conns (e # es) = trace_conns [e] @ trace_conns es"
    "trace_errors (e # es) = trace_errors [e] @ trace_errors es"
    by (cases e; simp)+
  from swarm_effect_trans [OF conjunct2 [OF conjunct2 [OF step]] conjunct2 [OF conjunct2 [OF IH]]]
  show ?case
    using IH exec_cons.prems(2) by (simp only: parts) (simp add: first rest)
qed

text \<open>Two states that the commands drain to the same parts are polled alike.\<close>

lemma poll_drained_alike:
  assumes "log_prints env" and "drain_commands env a = ret a1" and "drain_commands env b = ret b1"
    and "sw_topics b1 = sw_topics a1" "sw_discovery b1 = sw_discovery a1" "sw_transport b1 = sw_transport a1"
    and "swarm_poll_next env a = ret (a2, r)"
  shows "\<exists>b2. swarm_poll_next env b = ret (b2, r) \<and>
    sw_topics b2 = sw_topics a2 \<and> sw_discovery b2 = sw_discovery a2 \<and> sw_transport b2 = sw_transport a2 \<and>
    sw_commands a2 = sw_commands a1 \<and> sw_commands b2 = sw_commands b1"
proof -
  from assms(2,7) obtain disc item
    where poll: "d_poll_next (se_discovery env) (sw_discovery a1) = ret (disc, item)"
    by (auto simp: swarm_poll_next_def run_simps)
  note eqs = poll_after_drain [OF assms(1,2), of disc item] poll_after_drain [OF assms(1,3), of disc item]
  show ?thesis
    using assms(4-7) poll eqs
    by (cases "item_errors (yielded item)") (auto simp: run_simps)
qed

text \<open>
  A configuration sent by a handle, then a poll, against the same made directly once the commands
  queued before it have taken effect, which leaves the state \<open>s0\<close>.
\<close>

lemma sent_then_poll:
  assumes "wf s" and "handle_configure env t c (swarm_handle s) = ret queue"
    and "swarm_poll_next env (s\<lparr>sw_commands := queue\<rparr>) = ret (s1, r)"
    and "wf s0" and "contents (sw_commands s0) = []"
    and "sw_topics s0 = apply_configs (sw_topics s) (contents (sw_commands s))"
    and "sw_transport s0 = sw_transport s"
    and "discovery_run (se_discovery env)
      (map DCall (rising_calls (sw_topics s) (contents (sw_commands s)))) (sw_discovery s) =
      ret (sw_discovery s0, [])"
  shows "\<exists>d s2. swarm_configure env t c s0 = ret d \<and> swarm_poll_next env d = ret (s2, r) \<and>
    sw_topics s2 = sw_topics s1 \<and> sw_discovery s2 = sw_discovery s1 \<and>
    sw_transport s2 = sw_transport s1 \<and> contents (sw_commands s1) = [] \<and> contents (sw_commands s2) = []"
proof -
  note log = wf_laws(2) [OF assms(1)]
  let ?sent = "s\<lparr>sw_commands := queue\<rparr>"
  from assms(1,2) channel_lawsD(3) [OF wf_laws(1) [OF assms(1)], of "sw_commands s" "(t, c)"]
  have queue: "contents queue = contents (sw_commands s) @ [(t, c)]" and "wf ?sent"
    by (auto simp: handle_configure_def swarm_handle_def wf_def)
  from drain_ok [OF this(2)] obtain d1 q1 where
    drain1: "drain_commands env ?sent =
      ret (?sent\<lparr>sw_topics := (sw_topics s0)(t \<mapsto> c), sw_discovery := d1, sw_commands := q1\<rparr>)"
    and q1: "contents q1 = []"
    and d1: "discovery_run (se_discovery env) (map DCall (configure_calls (sw_topics s0 t) t c))
      (sw_discovery s0) = ret (d1, [])"
    using assms(8) by (auto simp: queue assms(6) discovery_run_append run_simps)
  have "dinv (sw_discovery s0)" using assms(4) by (simp add: wf_def)
  from configure_ok [OF this log, of t c] d1
  have conf: "swarm_configure env t c s0 = ret (s0\<lparr>sw_topics := (sw_topics s0)(t \<mapsto> c), sw_discovery := d1\<rparr>)"
    and "dinv d1" by auto
  let ?d = "s0\<lparr>sw_topics := (sw_topics s0)(t \<mapsto> c), sw_discovery := d1\<rparr>"
  from \<open>dinv d1\<close> assms(4) have "wf ?d" by (simp add: wf_def)
  from drain_ok [OF this] assms(5) obtain q2 where
    drain2: "drain_commands env ?d = ret (?d\<lparr>sw_commands := q2\<rparr>)" and q2: "contents q2 = []"
    by auto
  from poll_drained_alike [OF log drain1 drain2 _ _ _ assms(3)] conf q1 q2 show ?thesis
    by (simp add: assms(7)) blast
qed

text \<open>The state that the commands queued in \<open>s\<close> leave, as the loop over them computes it.\<close>

lemma sent_behind_queue:
  assumes "wf s" and "handle_configure env t c (swarm_handle s) = ret queue"
    and "swarm_poll_next env (s\<lparr>sw_commands := queue\<rparr>) = ret (s1, r)"
  shows "\<exists>s0 d s2. drain_commands env s = ret s0 \<and> swarm_configure env t c s0 = ret d \<and>
    swarm_poll_next env d = ret (s2, r) \<and>
    sw_topics s2 = sw_topics s1 \<and> sw_discovery s2 = sw_discovery s1 \<and>
    sw_transport s2 = sw_transport s1 \<and> contents (sw_commands s1) = [] \<and> contents (sw_commands s2) = []"
proof -
  from drain_ok [OF assms(1)] obtain d0 q0 where drain: "drain_commands env s =
      ret (s\<lparr>sw_topics := apply_configs (sw_topics s) (contents (sw_commands s)),
             sw_discovery := d0, sw_commands := q0\<rparr>)"
    and q0: "contents q0 = []" "\<not> closed q0" "dinv d0"
    and run: "discovery_run (se_discovery env)
      (map DCall (rising_calls (sw_topics s) (contents (sw_commands s)))) (sw_discovery s) = ret (d0, [])"
    by blast
  let ?s0 = "s\<lparr>sw_topics := apply_configs (sw_topics s) (contents (sw_commands s)),
             sw_discovery := d0, sw_commands := q0\<rparr>"
  have "wf ?s0" using assms(1) q0 by (simp add: wf_def)
  from sent_then_poll [OF assms this] drain q0 run show ?thesis by simp
qed

end

end
