(* ===== verification/Hyperswarm.thy ===== *)
theory Hyperswarm
  imports Swarm
begin

section \<open>The swarm over its own discovery and transport\<close>

text \<open>
  \<open>Hyperswarm\<close> as \<open>src/swarm.rs\<close> instantiates it: the combined discovery over the DHT and mDNS, the
  combined transport over TCP and uTP. The interface theory of the swarm is interpreted here on
  these, and the properties of the whole program follow.
\<close>

definition hyperswarm_env ::
  "('w, 'l, 'ts, 'tf, 'tp) tcp_env \<Rightarrow> ('w, 'uc, 'ul, 'us, 'k, 'uf, 'up) utp_env \<Rightarrow>
     ('w, 'c, 'd) dht_env \<Rightarrow> ('w, 'ms, 'a, 'ml, 'f, 'mq) mdns_env \<Rightarrow>
     ('q, topic \<times> topic_config) channel_ops \<Rightarrow> bool \<Rightarrow> (topic \<Rightarrow> unit + string) \<Rightarrow>
     (('d dht_discovery, ('a, 'ml, 'f, 'mq) mdns_discovery) combined_discovery,
      (('l, 'tp) tcp_transport, ('uc, 'ul, 'up) utp_transport) combined_transport,
      ('ts, 'k utp_stream) combined_stream, 'q) swarm_env" where
  "hyperswarm_env tenv uenv denv menv ch debug pretty_hash =
     \<lparr>se_discovery = combined_discovery_ops (dht_ops denv) (mdns_ops menv),
      se_transport = combined_transport_ops (tcp_ops tenv) (utp_ops uenv),
      se_channel = ch, se_debug = debug, se_pretty_hash = pretty_hash\<rparr>"

lemma hyperswarm_env_simps [simp]:
  "se_discovery (hyperswarm_env tenv uenv denv menv ch debug ph) =
     combined_discovery_ops (dht_ops denv) (mdns_ops menv)"
  "se_transport (hyperswarm_env tenv uenv denv menv ch debug ph) =
     combined_transport_ops (tcp_ops tenv) (utp_ops uenv)"
  "se_channel (hyperswarm_env tenv uenv denv menv ch debug ph) = ch"
  by (simp_all add: hyperswarm_env_def)

text \<open>
  The invariant of the whole swarm, for a way \<open>mcontents\<close>, \<open>mclosed\<close> to read the channel of the mDNS
  discovery and a way \<open>contents\<close>, \<open>closed\<close> to read the swarm's own.
\<close>

definition hyperswarm_inv where
  "hyperswarm_inv env menv mcontents mclosed contents closed s \<longleftrightarrow>
     swarm_inv env (\<lambda>d. dht_inv (cd_dht d) \<and> mdns_inv menv mcontents mclosed (cd_mdns d))
       (\<lambda>ct. tcp_inv (ct_tcp ct) \<and> True) contents closed s"

interpretation whole:
  swarm_parts "hyperswarm_env tenv uenv denv menv ch debug ph"
    "\<lambda>d. dht_inv (cd_dht d) \<and> mdns_inv menv mcontents mclosed (cd_mdns d)" "{Dht} \<union> {Mdns}"
    "\<lambda>ct. tcp_inv (ct_tcp ct) \<and> True" "combined_good (tcp_good tenv) (utp_good uenv)" contents closed
  for tenv :: "('w, 'l, 'ts, 'tf, 'tp) tcp_env"
    and uenv :: "('w, 'uc, 'ul, 'us, 'k, 'uf, 'up) utp_env"
    and denv :: "('w, 'c, 'd) dht_env" and menv :: "('w, 'ms, 'a, 'ml, 'f, 'mq) mdns_env"
    and ch :: "('q, topic \<times> topic_config) channel_ops" and debug ph mcontents mclosed contents closed
  unfolding swarm_parts_def hyperswarm_env_simps
  by (intro conjI discoveries.both.discovery_axioms stack.both.transport_axioms)

lemmas hyperswarm_effect = whole.exec_effect [folded hyperswarm_inv_def]

subsection \<open>A scripted swarm\<close>

text \<open>
  The scripted networks of the parts put together: the DHT node yields \<open>events\<close>, the locator
  \<open>responses\<close>, the listener \<open>accepts\<close>.
\<close>

abbreviation script_env where
  "script_env lost denv \<equiv>
     hyperswarm_env (tcp_script lost) utp_script denv mdns_script list_channel True
       (\<lambda>t. Inr (concat (map (\<lambda>b. show_hex (unat b)) (array32_list t))))"

definition script_swarm where
  "script_swarm accepts d responses =
     \<lparr>sw_topics = Map.empty,
      sw_discovery = \<lparr>cd_dht = dht_start 4000 d, cd_mdns = mdns_start responses\<rparr>,
      sw_transport = script_stack accepts, sw_commands = ([] :: config_seq, False)\<rparr>"

lemma script_swarm_inv:
  "hyperswarm_inv (hyperswarm_env tenv uenv denv mdns_script list_channel debug (\<lambda>t. Inr (text t)))
     mdns_script fst snd fst snd (script_swarm accepts d responses)"
  by (simp add: hyperswarm_inv_def swarm_inv_def script_swarm_def mdns_start_inv dht_inv_def
      dht_start_def script_stack_def tcp_inv_def list_channel_laws log_prints_def hyperswarm_env_def)

text \<open>Printing a topic for the log never fails here, so the log has no effect on an evaluation.\<close>

lemma script_log [simp]:
  "debug_log (script_env lost denv) (run_bind (unwrap_res (se_pretty_hash (script_env lost denv) t)) (\<lambda>h. ret (f h))) = ret ()"
  "debug_log (script_env lost denv) (ret text) = ret ()"
  "debug_log (script_env lost denv)
     (run_bind (show_peer_info (se_pretty_hash (script_env lost denv)) p) (\<lambda>h. ret (g h))) = ret ()"
  by (intro whole.debug_topic whole.debug_ret whole.debug_peer;
      simp add: log_prints_def hyperswarm_env_def)+

lemmas swarm_eval =
  script_swarm_def script_stack_def swarm_poll_next_def drain_unfold swarm_configure_def
  handle_configure_def swarm_handle_def
  combined_announce_def combined_lookup_def combined_discovery_poll_next_def mdns_eval
  dht_lookup_def dht_announce_def dht_eval tcp_defs utp_defs combined_defs

subsection \<open>Properties\<close>

text \<open>
  C1: The swarm refines its reference behaviour. Over any execution, with configurations made
  directly and through handles and with polls in any order: the table of topics is what the
  configurations, in the order they take effect, make of it; the discovery got exactly the calls
  for which they ask, in order (an announce or a lookup when a topic turns it on and had it off);
  the transport was asked to connect to exactly the peers that the discovery reported, in order;
  and the polls returned exactly the connections of the transport and the errors of the discovery.
\<close>

theorem swarm_refines_reference:
  assumes "hyperswarm_inv (hyperswarm_env tenv uenv denv menv ch debug ph) menv mcontents mclosed
      contents closed s"
    and "swarm_exec (hyperswarm_env tenv uenv denv menv ch debug ph) s es s'"
    and "trace_configs (contents (sw_commands s)) es = (ps, q)"
  shows "sw_topics s' = apply_configs (sw_topics s) ps \<and> contents (sw_commands s') = q \<and>
    (\<exists>steps items calls.
       discovery_run (combined_discovery_ops (dht_ops denv) (mdns_ops menv)) steps (sw_discovery s) =
         ret (sw_discovery s', items) \<and>
       step_calls steps = rising_calls (sw_topics s) ps \<and>
       transport_run (combined_transport_ops (tcp_ops tenv) (utp_ops uenv)) calls (sw_transport s) =
         ret (sw_transport s', trace_conns es) \<and>
       connects calls = item_peers items \<and> item_errors items = trace_errors es)"
  using hyperswarm_effect [OF assms(2,1,3)] by (simp add: swarm_effect_def)

theorem swarm_refines_reference_witness:
  "\<exists>s' c. swarm_exec (script_env [] dht_script)
      (script_swarm [] [LookupResult (IdBytes (array32_fill 1)) [SocketV4 (Ipv4Addr 10 0 0 1) 80]] [])
      [Sent (array32_fill 1) topic_config_both, Polled (Ready (Some (Inr c)))] s' \<and>
    sw_topics s' = [array32_fill 1 \<mapsto> topic_config_both] \<and>
    conn_peer_addr c = SocketV4 (Ipv4Addr 10 0 0 1) 80"
proof -
  let ?env = "script_env [] dht_script"
  let ?s = "script_swarm [] [LookupResult (IdBytes (array32_fill 1)) [SocketV4 (Ipv4Addr 10 0 0 1) 80]] []"
  let ?t = "array32_fill 1 :: topic"
  have send: "handle_configure ?env ?t topic_config_both (swarm_handle ?s) =
      ret ([(?t, topic_config_both)], False)"
    by (simp add: swarm_eval)
  obtain s' c where poll: "swarm_poll_next ?env (?s\<lparr>sw_commands := ([(?t, topic_config_both)], False)\<rparr>) =
      ret (s', Ready (Some (Inr c)))" and peer: "conn_peer_addr c = SocketV4 (Ipv4Addr 10 0 0 1) 80"
    by (simp add: swarm_eval)
  have exec: "swarm_exec ?env ?s [Sent ?t topic_config_both, Polled (Ready (Some (Inr c)))] s'"
    by (rule exec_cons [OF step_send [OF send] exec_cons [OF step_poll [OF poll] exec_nil]])
  have "trace_configs (fst (sw_commands ?s)) [Sent ?t topic_config_both, Polled (Ready (Some (Inr c)))] =
      ([(?t, topic_config_both)], [])"
    by (simp add: script_swarm_def)
  from swarm_refines_reference [OF script_swarm_inv exec this] exec peer show ?thesis
    by (auto simp: script_swarm_def)
qed

text \<open>
  C2: No peer address gets two outgoing connections from a swarm: over any execution, whatever is
  configured and however often a peer is discovered, the peers of the outgoing connections that
  the polls return are distinct, and none of them was connected to before.
\<close>

theorem swarm_outgoing_once:
  assumes "hyperswarm_inv (hyperswarm_env tenv uenv denv menv ch debug ph) menv mcontents mclosed
      contents closed s"
    and "swarm_exec (hyperswarm_env tenv uenv denv menv ch debug ph) s es s'"
  shows "distinct (outgoing (trace_conns es)) \<and>
         ct_connected (sw_transport s) \<inter> set (outgoing (trace_conns es)) = {} \<and>
         ct_connected (sw_transport s') =
           ct_connected (sw_transport s) \<union> set (outgoing (trace_conns es))"
proof -
  obtain ps q where "trace_configs (contents (sw_commands s)) es = (ps, q)" by fastforce
  from hyperswarm_effect [OF assms(2,1) this] obtain calls where
    "transport_run (combined_transport_ops (tcp_ops tenv) (utp_ops uenv)) calls (sw_transport s) =
      ret (sw_transport s', trace_conns es)"
    by (auto simp: swarm_effect_def)
  then show ?thesis by (rule combined_run_connected)
qed

theorem swarm_outgoing_once_witness:
  "\<exists>s' c. swarm_exec (script_env [] dht_script)
      (script_swarm [] [LookupResult (IdBytes (array32_fill 1)) [SocketV4 (Ipv4Addr 10 0 0 1) 80]] [])
      [Polled (Ready (Some (Inr c))), Polled Pending] s' \<and>
    conn_is_initiator c \<and> ct_connected (sw_transport s') = {SocketV4 (Ipv4Addr 10 0 0 1) 80}"
proof -
  let ?env = "script_env [] dht_script"
  let ?s = "script_swarm [] [LookupResult (IdBytes (array32_fill 1)) [SocketV4 (Ipv4Addr 10 0 0 1) 80]] []"
  obtain s1 s' c where poll: "swarm_poll_next ?env ?s = ret (s1, Ready (Some (Inr c)))"
    and poll': "swarm_poll_next ?env s1 = ret (s', Pending)"
    and c: "conn_is_initiator c" "conn_peer_addr c = SocketV4 (Ipv4Addr 10 0 0 1) 80"
    by (simp add: swarm_eval)
  have exec: "swarm_exec ?env ?s [Polled (Ready (Some (Inr c))), Polled Pending] s'"
    by (rule exec_cons [OF step_poll [OF poll] exec_cons [OF step_poll [OF poll'] exec_nil]])
  from swarm_outgoing_once [OF script_swarm_inv exec] exec c show ?thesis
    by (auto simp: script_swarm_def script_stack_def)
qed

lemma dht_commands_of_exec:
  assumes "hyperswarm_inv (hyperswarm_env tenv uenv (dht_logging denv) menv ch debug ph) menv
      mcontents mclosed contents closed s"
    and "swarm_exec (hyperswarm_env tenv uenv (dht_logging denv) menv ch debug ph) s es s'"
    and "trace_configs (contents (sw_commands s)) es = (ps, q)"
  shows "forwarded (cd_dht (sw_discovery s')) @ dht_pending_commands (cd_dht (sw_discovery s')) =
    forwarded (cd_dht (sw_discovery s)) @ dht_pending_commands (cd_dht (sw_discovery s)) @
    map (dht_command_for (dht_announce_port (cd_dht (sw_discovery s))))
      (rising_calls (sw_topics s) ps) \<and>
    dht_announce_port (cd_dht (sw_discovery s')) = dht_announce_port (cd_dht (sw_discovery s))"
proof -
  from hyperswarm_effect [OF assms(2,1,3)] obtain steps items where
    run: "discovery_run (combined_discovery_ops (dht_ops (dht_logging denv)) (mdns_ops menv)) steps
      (sw_discovery s) = ret (sw_discovery s', items)"
    and calls: "step_calls steps = rising_calls (sw_topics s) ps"
    by (auto simp: swarm_effect_def)
  from assms(1) have "dht_inv (cd_dht (sw_discovery s))"
    and "mdns_inv menv mcontents mclosed (cd_mdns (sw_discovery s))"
    by (simp_all add: hyperswarm_inv_def swarm_inv_def)
  from discoveries.run_projects [OF this run] obtain ditems where
    "discovery_run (dht_ops (dht_logging denv)) steps (cd_dht (sw_discovery s)) =
      ret (cd_dht (sw_discovery s'), ditems)"
    by blast
  from dht_run_commands [OF this] calls show ?thesis by simp
qed

lemma dht_of_poll:
  assumes "hyperswarm_inv (hyperswarm_env tenv uenv denv menv ch debug ph) menv mcontents mclosed
      contents closed s"
    and "swarm_poll_next (hyperswarm_env tenv uenv denv menv ch debug ph) s = ret (s', r)"
  shows "\<exists>items. discovery_run (dht_ops denv)
      (map DCall (rising_calls (sw_topics s) (contents (sw_commands s))) @ [DPoll])
      (cd_dht (sw_discovery s)) = ret (cd_dht (sw_discovery s'), items)"
proof -
  note inv = assms(1) [unfolded hyperswarm_inv_def]
  from inv assms(2) have "\<exists>items. discovery_run (combined_discovery_ops (dht_ops denv) (mdns_ops menv))
      (map DCall (rising_calls (sw_topics s) (contents (sw_commands s))) @ [DPoll]) (sw_discovery s) =
      ret (sw_discovery s', items)"
    by (cases rule: whole.poll_cases) (auto simp: discovery_run_append run_simps)
  moreover from assms(1) have "dht_inv (cd_dht (sw_discovery s))"
    and "mdns_inv menv mcontents mclosed (cd_mdns (sw_discovery s))"
    by (simp_all add: hyperswarm_inv_def swarm_inv_def)
  ultimately show ?thesis using discoveries.run_projects by blast
qed

text \<open>
  A poll of the swarm calls the DHT discovery with what the queued configurations ask for, then
  polls it once; and so do several polls in a row.
\<close>

lemma polls_reach_dht:
  assumes "hyperswarm_inv (hyperswarm_env tenv uenv denv menv ch debug ph) menv mcontents mclosed
      contents closed s"
    and "swarm_exec (hyperswarm_env tenv uenv denv menv ch debug ph) s (map Polled (r # rs)) s'"
  shows "\<exists>items. discovery_run (dht_ops denv)
      (map DCall (rising_calls (sw_topics s) (contents (sw_commands s))) @ replicate (Suc (length rs)) DPoll)
      (cd_dht (sw_discovery s)) = ret (cd_dht (sw_discovery s'), items)"
  using assms
proof (induction rs arbitrary: s r)
  case first: Nil
  then have poll: "swarm_poll_next (hyperswarm_env tenv uenv denv menv ch debug ph) s = ret (s', r)"
    by (simp add: swarm_exec_simps swarm_step_simps)
  from dht_of_poll [OF first.prems(1) poll] show ?case by simp
next
  case (Cons r' rs)
  let ?env = "hyperswarm_env tenv uenv denv menv ch debug ph"
  from Cons.prems(2) obtain s1 where poll: "swarm_poll_next ?env s = ret (s1, r)"
    and rest: "swarm_exec ?env s1 (map Polled (r' # rs)) s'"
    by (auto simp: swarm_exec_simps swarm_step_simps)
  from whole.poll_effect [OF Cons.prems(1) [unfolded hyperswarm_inv_def] poll]
  have "hyperswarm_inv ?env menv mcontents mclosed contents closed s1" and "contents (sw_commands s1) = []"
    by (simp_all add: hyperswarm_inv_def)
  with Cons.IH [OF this(1) rest] dht_of_poll [OF Cons.prems(1) poll] show ?case
    by (auto simp: discovery_run_append replicate_Suc run_simps simp flip: replicate_append_same)
qed

lemma dht_polls_of_exec:
  assumes "hyperswarm_inv (hyperswarm_env tenv uenv (dht_logging denv) menv ch debug ph) menv
      mcontents mclosed contents closed s"
    and "swarm_exec (hyperswarm_env tenv uenv (dht_logging denv) menv ch debug ph) s es s'"
    and "trace_configs (contents (sw_commands s)) es = (ps, q)"
    and "swarm_exec (hyperswarm_env tenv uenv (dht_logging denv) menv ch debug ph) s' (map Polled rs) s2"
    and "length (dht_pending_events (cd_dht (sw_discovery s'))) < length rs"
    and "dht_bootstrapped (cd_dht (sw_discovery s2))"
  shows "forwarded (cd_dht (sw_discovery s2)) =
    forwarded (cd_dht (sw_discovery s)) @ dht_pending_commands (cd_dht (sw_discovery s)) @
    map (dht_command_for (dht_announce_port (cd_dht (sw_discovery s))))
      (rising_calls (sw_topics s) (ps @ q))"
proof -
  from hyperswarm_effect [OF assms(2,1,3)]
  have inv: "hyperswarm_inv (hyperswarm_env tenv uenv (dht_logging denv) menv ch debug ph) menv
      mcontents mclosed contents closed s'"
    and queue: "contents (sw_commands s') = q" and topics: "sw_topics s' = apply_configs (sw_topics s) ps"
    by (simp_all add: swarm_effect_def)
  from assms(5) obtain r rs' where rs: "rs = r # rs'" by (cases rs) auto
  from polls_reach_dht [OF inv assms(4) [unfolded rs]] obtain items where
    "discovery_run (dht_ops (dht_logging denv))
      (map DCall (rising_calls (sw_topics s') (contents (sw_commands s'))) @ replicate (length rs) DPoll)
      (cd_dht (sw_discovery s')) = ret (cd_dht (sw_discovery s2), items)"
    by (auto simp: rs)
  from dht_commands_flushed [OF this assms(5,6)] dht_commands_of_exec [OF assms(1-3)]
  show ?thesis by (simp add: queue topics)
qed

text \<open>
  C3: From the topics to the DHT. Over any execution, what the DHT node was given, followed by
  the commands still queued for it, grows by exactly one command per announce or lookup that a
  configuration turned on, in the order in which the configurations took effect, with the announce
  port: none is lost or made twice, and none is made for a topic that was not configured. And the
  queue is flushed: after more further polls than the DHT discovery holds found peers, if the node
  is bootstrapped by then, all these commands, with those of the configurations still queued from
  handles, have reached the node, each exactly once.
\<close>

theorem configurations_reach_dht:
  assumes "hyperswarm_inv (hyperswarm_env tenv uenv (dht_logging denv) menv ch debug ph) menv
      mcontents mclosed contents closed s"
    and "swarm_exec (hyperswarm_env tenv uenv (dht_logging denv) menv ch debug ph) s es s'"
    and "trace_configs (contents (sw_commands s)) es = (ps, q)"
  shows "forwarded (cd_dht (sw_discovery s')) @ dht_pending_commands (cd_dht (sw_discovery s')) =
    forwarded (cd_dht (sw_discovery s)) @ dht_pending_commands (cd_dht (sw_discovery s)) @
    map (dht_command_for (dht_announce_port (cd_dht (sw_discovery s))))
      (rising_calls (sw_topics s) ps) \<and>
    (\<forall>rs s2. swarm_exec (hyperswarm_env tenv uenv (dht_logging denv) menv ch debug ph) s' (map Polled rs) s2 \<and>
       length (dht_pending_events (cd_dht (sw_discovery s'))) < length rs \<and>
       dht_bootstrapped (cd_dht (sw_discovery s2)) \<longrightarrow>
       forwarded (cd_dht (sw_discovery s2)) =
         forwarded (cd_dht (sw_discovery s)) @ dht_pending_commands (cd_dht (sw_discovery s)) @
         map (dht_command_for (dht_announce_port (cd_dht (sw_discovery s))))
           (rising_calls (sw_topics s) (ps @ q)))"
proof (intro conjI allI impI)
  show all: "forwarded (cd_dht (sw_discovery s')) @ dht_pending_commands (cd_dht (sw_discovery s')) =
    forwarded (cd_dht (sw_discovery s)) @ dht_pending_commands (cd_dht (sw_discovery s)) @
    map (dht_command_for (dht_announce_port (cd_dht (sw_discovery s))))
      (rising_calls (sw_topics s) ps)"
    using dht_commands_of_exec [OF assms] by blast
  fix rs s2
  assume "swarm_exec (hyperswarm_env tenv uenv (dht_logging denv) menv ch debug ph) s' (map Polled rs) s2 \<and>
       length (dht_pending_events (cd_dht (sw_discovery s'))) < length rs \<and>
       dht_bootstrapped (cd_dht (sw_discovery s2))"
  then show "forwarded (cd_dht (sw_discovery s2)) =
         forwarded (cd_dht (sw_discovery s)) @ dht_pending_commands (cd_dht (sw_discovery s)) @
         map (dht_command_for (dht_announce_port (cd_dht (sw_discovery s))))
           (rising_calls (sw_topics s) (ps @ q))"
    using dht_polls_of_exec [OF assms, of rs s2] all by simp
qed

theorem configurations_reach_dht_witness:
  "\<exists>s' s2. swarm_exec (script_env [] (dht_logging dht_script))
      (script_swarm [] ([Bootstrapped], [], []) [])
      [Configured (array32_fill 1) \<lparr>tc_announce = True, tc_lookup = False\<rparr>,
       Sent (array32_fill 1) topic_config_both] s' \<and>
    swarm_exec (script_env [] (dht_logging dht_script)) s' [Polled Pending] s2 \<and>
    forwarded (cd_dht (sw_discovery s2)) =
      [dht_command_for 4000 (Announce (array32_fill 1)), dht_command_for 4000 (Lookup (array32_fill 1))]"
proof -
  let ?env = "script_env [] (dht_logging dht_script)"
  let ?s = "script_swarm [] ([Bootstrapped], [], []) []"
  let ?a = "\<lparr>tc_announce = True, tc_lookup = False\<rparr>"
  let ?t = "array32_fill 1 :: topic"
  let ?es = "[Configured ?t ?a, Sent ?t topic_config_both]"
  obtain s1 queue s2 where "swarm_configure ?env ?t ?a ?s = ret s1"
    and "handle_configure ?env ?t topic_config_both (swarm_handle s1) = ret queue"
    and held: "dht_pending_events (cd_dht (sw_discovery (s1\<lparr>sw_commands := queue\<rparr>))) = []"
    and "swarm_poll_next ?env (s1\<lparr>sw_commands := queue\<rparr>) = ret (s2, Pending)"
    and booted: "dht_bootstrapped (cd_dht (sw_discovery s2))"
    by (simp add: swarm_eval)
  then have exec: "swarm_exec ?env ?s ?es (s1\<lparr>sw_commands := queue\<rparr>)"
    and polls: "swarm_exec ?env (s1\<lparr>sw_commands := queue\<rparr>) (map Polled [Pending]) s2"
    by (auto intro: exec_cons exec_nil step_configure step_send step_poll)
  have "trace_configs (fst (sw_commands ?s)) ?es = ([(?t, ?a)], [(?t, topic_config_both)])"
    by (simp add: script_swarm_def)
  note flushed = configurations_reach_dht [OF script_swarm_inv exec this, THEN conjunct2, rule_format,
      OF conjI [OF polls conjI [OF _ booted]]]
  from flushed held have "forwarded (cd_dht (sw_discovery s2)) =
      [dht_command_for 4000 (Announce ?t), dht_command_for 4000 (Lookup ?t)]"
    by (simp add: script_swarm_def dht_start_def configure_calls_def)
  with exec polls show ?thesis by auto
qed

text \<open>
  C4: In every state reachable from a swarm with no topics, every topic whose configuration says
  \<open>announce\<close> has an announce command that was forwarded to the DHT node or waits for it, and
  likewise for lookups; and every command there is for a topic that some configuration turned on.
\<close>

theorem configured_topics_are_announced:
  assumes "hyperswarm_inv (hyperswarm_env tenv uenv (dht_logging denv) menv ch debug ph) menv
      mcontents mclosed contents closed s"
    and "sw_topics s = Map.empty"
    and "forwarded (cd_dht (sw_discovery s)) @ dht_pending_commands (cd_dht (sw_discovery s)) = []"
    and "swarm_exec (hyperswarm_env tenv uenv (dht_logging denv) menv ch debug ph) s es s'"
    and "cmds = forwarded (cd_dht (sw_discovery s')) @ dht_pending_commands (cd_dht (sw_discovery s'))"
    and "port = dht_announce_port (cd_dht (sw_discovery s))"
  shows "(\<forall>t c. sw_topics s' t = Some c \<longrightarrow>
            (tc_announce c \<longrightarrow> dht_command_for port (Announce t) \<in> set cmds) \<and>
            (tc_lookup c \<longrightarrow> dht_command_for port (Lookup t) \<in> set cmds)) \<and>
         (\<forall>cmd \<in> set cmds. \<exists>t c. (t, c) \<in> set (fst (trace_configs (contents (sw_commands s)) es)) \<and>
            (cmd = dht_command_for port (Announce t) \<and> tc_announce c \<or>
             cmd = dht_command_for port (Lookup t) \<and> tc_lookup c))"
proof -
  obtain ps q where order: "trace_configs (contents (sw_commands s)) es = (ps, q)" by fastforce
  from hyperswarm_effect [OF assms(4,1) order]
  have topics: "sw_topics s' = apply_configs Map.empty ps"
    by (simp add: swarm_effect_def assms(2))
  have cmds: "cmds = map (dht_command_for port) (rising_calls Map.empty ps)"
    using hyperswarm_effect [OF assms(4,1) order] dht_commands_of_exec [OF assms(1,4) order] assms(3)
    by (simp add: assms(2,5,6))
  have "\<exists>t c. (t, c) \<in> set ps \<and>
      (cmd = dht_command_for port (Announce t) \<and> tc_announce c \<or>
       cmd = dht_command_for port (Lookup t) \<and> tc_lookup c)" if "cmd \<in> set cmds" for cmd
  proof -
    from that obtain call where call: "call \<in> set (rising_calls Map.empty ps)"
      and cmd: "cmd = dht_command_for port call" by (auto simp: cmds)
    show ?thesis
    proof (cases call)
      case (Lookup t)
      from rising_calls_sound(2) [OF call [unfolded Lookup]] show ?thesis unfolding cmd Lookup by blast
    next
      case (Announce t)
      from rising_calls_sound(1) [OF call [unfolded Announce]] show ?thesis
        unfolding cmd Announce by blast
    qed
  qed
  moreover have "(tc_announce c \<longrightarrow> dht_command_for port (Announce t) \<in> set cmds) \<and>
      (tc_lookup c \<longrightarrow> dht_command_for port (Lookup t) \<in> set cmds)"
    if "sw_topics s' t = Some c" for t c
    using rising_calls_complete [of Map.empty ps t c] that
    by (auto simp: topics cmds simp del: dht_command_for.simps)
  ultimately show ?thesis unfolding order fst_conv by blast
qed

theorem configured_topics_are_announced_witness:
  "\<exists>s'. swarm_exec (script_env [] (dht_logging dht_script)) (script_swarm [] ([], [], []) [])
      [Configured (array32_fill 1) \<lparr>tc_announce = True, tc_lookup = False\<rparr>] s' \<and>
    dht_command_for 4000 (Announce (array32_fill 1)) \<in>
      set (forwarded (cd_dht (sw_discovery s')) @ dht_pending_commands (cd_dht (sw_discovery s')))"
proof -
  let ?env = "script_env [] (dht_logging dht_script)"
  let ?s = "script_swarm [] ([], [], []) []"
  let ?t = "array32_fill 1 :: topic" and ?c = "\<lparr>tc_announce = True, tc_lookup = False\<rparr>"
  obtain s' where "swarm_configure ?env ?t ?c ?s = ret s'" and "sw_topics s' ?t = Some ?c"
    by (simp add: swarm_eval)
  then have exec: "swarm_exec ?env ?s [Configured ?t ?c] s'"
    by (blast intro: exec_cons exec_nil step_configure)
  have start: "sw_topics ?s = Map.empty"
    "forwarded (cd_dht (sw_discovery ?s)) @ dht_pending_commands (cd_dht (sw_discovery ?s)) = []"
    "4000 = dht_announce_port (cd_dht (sw_discovery ?s))"
    by (simp_all add: script_swarm_def dht_start_def)
  have "tc_announce ?c" by simp
  with configured_topics_are_announced [OF script_swarm_inv start(1,2) exec refl start(3)]
    exec \<open>sw_topics s' ?t = Some ?c\<close>
  show ?thesis by blast
qed

text \<open>
  Configuring a topic again with the configuration it has does nothing: no call reaches the
  discovery and the swarm is the same.
\<close>

lemma configure_idempotent:
  assumes "swarm_configure env t c s = ret s'"
  shows "swarm_configure env t c s' = ret s'"
proof -
  from assms have topics: "sw_topics s' t = Some c" "sw_topics s' = (sw_topics s')(t \<mapsto> c)"
    by (auto simp: swarm_configure_def Let_def run_simps split: if_splits)
  from assms have "debug_log env (run_bind (unwrap_res (se_pretty_hash env t)) (\<lambda>hash.
        ret (''topic: '' @ hash @ '' announce '' @ show_bool (tc_announce c)
             @ '' lookup '' @ show_bool (tc_lookup c)))) = ret ()"
    by (auto simp: swarm_configure_def Let_def run_simps)
  with topics show ?thesis
    by (cases s') (simp add: swarm_configure_def)
qed

lemma configure_idempotent_example:
  "\<exists>s'. swarm_configure (script_env [] dht_script) (array32_fill 1) topic_config_both
      (script_swarm [] [] []) = ret s' \<and>
    swarm_configure (script_env [] dht_script) (array32_fill 1) topic_config_both s' = ret s'"
proof -
  obtain s' where s': "swarm_configure (script_env [] dht_script) (array32_fill 1) topic_config_both
      (script_swarm [] [] []) = ret s'"
    by (simp add: swarm_eval)
  with configure_idempotent [OF s'] show ?thesis by blast
qed

text \<open>
  C33: A configuration sent by a handle is delayed, not changed. Sending it and then polling is, in
  what the poll returns and in the topics, the discovery and the transport it leaves, the same as
  this: run the commands that were queued before it, configure directly, and poll. With nothing
  queued before it, it is the same as configuring directly and polling. In both cases the queue is
  empty after the poll.
\<close>

theorem handle_same_as_direct:
  assumes "hyperswarm_inv (hyperswarm_env tenv uenv denv menv ch debug ph) menv mcontents mclosed
      contents closed s"
    and "env = hyperswarm_env tenv uenv denv menv ch debug ph"
    and "handle_configure env t c (swarm_handle s) = ret queue"
    and "swarm_poll_next env (s\<lparr>sw_commands := queue\<rparr>) = ret (s1, r)"
  shows "(\<exists>s0 d s2. drain_commands env s = ret s0 \<and> swarm_configure env t c s0 = ret d \<and>
      swarm_poll_next env d = ret (s2, r) \<and>
      sw_topics s2 = sw_topics s1 \<and> sw_discovery s2 = sw_discovery s1 \<and>
      sw_transport s2 = sw_transport s1 \<and> contents (sw_commands s1) = [] \<and> contents (sw_commands s2) = []) \<and>
    (contents (sw_commands s) = [] \<longrightarrow>
      (\<exists>d s2. swarm_configure env t c s = ret d \<and> swarm_poll_next env d = ret (s2, r) \<and>
        sw_topics s2 = sw_topics s1 \<and> sw_discovery s2 = sw_discovery s1 \<and>
        sw_transport s2 = sw_transport s1 \<and> contents (sw_commands s1) = [] \<and> contents (sw_commands s2) = []))"
proof (intro conjI impI)
  note inv = assms(1) [unfolded hyperswarm_inv_def] and calls = assms(3,4) [unfolded assms(2)]
  from whole.sent_behind_queue [OF inv calls]
  show "\<exists>s0 d s2. drain_commands env s = ret s0 \<and> swarm_configure env t c s0 = ret d \<and>
      swarm_poll_next env d = ret (s2, r) \<and>
      sw_topics s2 = sw_topics s1 \<and> sw_discovery s2 = sw_discovery s1 \<and>
      sw_transport s2 = sw_transport s1 \<and> contents (sw_commands s1) = [] \<and> contents (sw_commands s2) = []"
    unfolding assms(2) .
  assume "contents (sw_commands s) = []"
  with whole.sent_then_poll [OF inv calls inv]
  show "\<exists>d s2. swarm_configure env t c s = ret d \<and> swarm_poll_next env d = ret (s2, r) \<and>
      sw_topics s2 = sw_topics s1 \<and> sw_discovery s2 = sw_discovery s1 \<and>
      sw_transport s2 = sw_transport s1 \<and> contents (sw_commands s1) = [] \<and> contents (sw_commands s2) = []"
    unfolding assms(2) by simp
qed

theorem handle_same_as_direct_witness:
  "\<exists>s1 r s0 d s2.
    swarm_poll_next (script_env [] dht_script)
      ((script_swarm [] [Bootstrapped] [])\<lparr>sw_commands :=
        ([(array32_fill 1, topic_config_both), (array32_fill 1, \<lparr>tc_announce = True, tc_lookup = False\<rparr>)], False)\<rparr>) =
      ret (s1, r) \<and>
    drain_commands (script_env [] dht_script)
      ((script_swarm [] [Bootstrapped] [])\<lparr>sw_commands := ([(array32_fill 1, topic_config_both)], False)\<rparr>) = ret s0 \<and>
    swarm_configure (script_env [] dht_script) (array32_fill 1) \<lparr>tc_announce = True, tc_lookup = False\<rparr> s0 = ret d \<and>
    swarm_poll_next (script_env [] dht_script) d = ret (s2, r) \<and> sw_topics s2 = sw_topics s1"
proof -
  let ?env = "script_env [] dht_script" and ?t = "array32_fill 1 :: topic"
  let ?c = "\<lparr>tc_announce = True, tc_lookup = False\<rparr>"
  let ?s = "(script_swarm [] [Bootstrapped] [])\<lparr>sw_commands := ([(?t, topic_config_both)], False)\<rparr>"
  let ?queue = "([(?t, topic_config_both), (?t, ?c)], False)"
  have send: "handle_configure ?env ?t ?c (swarm_handle ?s) = ret ?queue"
    by (simp add: handle_configure_def swarm_handle_def)
  obtain s1 r where poll: "swarm_poll_next ?env (?s\<lparr>sw_commands := ?queue\<rparr>) = ret (s1, r)"
    by (simp add: swarm_eval)
  have inv: "hyperswarm_inv ?env mdns_script fst snd fst snd ?s"
    using script_swarm_inv [of "tcp_script []" utp_script dht_script True _ "[]" "[Bootstrapped]" "[]"]
    by (simp add: hyperswarm_inv_def swarm_inv_def)
  from handle_same_as_direct [OF inv refl send poll] poll show ?thesis by auto
qed

text \<open>
  The stream of connections never ends, and an error it returns comes from the discovery: the
  poll that returns one has left the transport as it was, neither connecting nor polling it.
\<close>

lemma swarm_poll_errors:
  assumes "hyperswarm_inv (hyperswarm_env tenv uenv denv menv ch debug ph) menv mcontents mclosed
      contents closed s"
    and "swarm_poll_next (hyperswarm_env tenv uenv denv menv ch debug ph) s = ret (s', r)"
  shows "r \<noteq> Ready None \<and> (\<forall>e. r = Ready (Some (Inl e)) \<longrightarrow> sw_transport s' = sw_transport s)"
  using assms(1) [unfolded hyperswarm_inv_def] assms(2)
proof (cases rule: whole.poll_cases)
  case (transport d q disc item trans conn)
  then show ?thesis
    by (cases conn rule: delivered.cases) (auto simp: swarm_reply_def)
qed simp

lemma swarm_poll_errors_example:
  "\<exists>s'. swarm_poll_next (script_env [] dht_script)
      (script_swarm [] [] [([7], SocketV4 (Ipv4Addr 10 0 0 1) 80)]) =
      ret (s', Ready (Some (Inl (IoError OtherKind ''Received invalid topic'')))) \<and>
    sw_transport s' = script_stack []"
proof -
  let ?s = "script_swarm [] [] [([7], SocketV4 (Ipv4Addr 10 0 0 1) 80)]"
  obtain s' where poll: "swarm_poll_next (script_env [] dht_script) ?s =
      ret (s', Ready (Some (Inl (IoError OtherKind ''Received invalid topic''))))"
    by (simp add: swarm_eval)
  from swarm_poll_errors [OF script_swarm_inv poll] poll show ?thesis
    by (auto simp: script_swarm_def)
qed

text \<open>An mDNS response whose topic has the wrong length is an error of the swarm.\<close>

lemma poll_bad_topic:
  assumes "hyperswarm_inv (hyperswarm_env tenv uenv denv menv ch debug ph) menv mcontents mclosed
      contents closed s"
    and "contents (sw_commands s) = []"
    and "dht_poll_next denv (cd_dht (sw_discovery s)) = ret (d, Pending)"
    and "me_locator_poll menv (mdns_locator (cd_mdns (sw_discovery s))) = (l, Ready (Some (bs, addr)))"
    and "length bs \<noteq> 32"
  shows "\<exists>s'. swarm_poll_next (hyperswarm_env tenv uenv denv menv ch debug ph) s =
    ret (s', Ready (Some (Inl (IoError OtherKind ''Received invalid topic''))))"
proof -
  let ?env = "hyperswarm_env tenv uenv denv menv ch debug ph"
  from whole.drain_ok [OF assms(1) [unfolded hyperswarm_inv_def]] assms(2) obtain q
    where drain: "drain_commands ?env s = ret (s\<lparr>sw_commands := q\<rparr>)"
    by auto
  have log: "log_prints ?env" and idle: "mdns_pending_future (cd_mdns (sw_discovery s)) = None"
    using assms(1) by (simp_all add: hyperswarm_inv_def swarm_inv_def mdns_inv_def)
  obtain disc where "combined_discovery_poll_next (dht_ops denv) (mdns_ops menv) (sw_discovery s) =
      ret (disc, Ready (Some (Inl (IoError OtherKind ''Received invalid topic''))))"
    using assms(3-5) by (simp add: combined_discovery_poll_next_def mdns_poll_idle [OF idle] Let_def)
  with whole.poll_after_drain [OF log drain, of disc] show ?thesis by simp
qed

text \<open>
  C38: An error of the transport is dropped: with no command queued and no peer discovered, a poll
  in which the transport reports an error is pending, although the transport said it was ready, so
  the failure of a connection cannot be told from silence.
\<close>

theorem transport_errors_dropped:
  assumes "hyperswarm_inv (hyperswarm_env tenv uenv denv menv ch debug ph) menv mcontents mclosed
      contents closed s"
    and "contents (sw_commands s) = []"
    and "combined_discovery_poll_next (dht_ops denv) (mdns_ops menv) (sw_discovery s) = ret (disc, Pending)"
    and "combined_poll_next (tcp_ops tenv) (utp_ops uenv) (sw_transport s) =
           ret (ct, Ready (Some (Inl e)))"
  shows "\<exists>s'. swarm_poll_next (hyperswarm_env tenv uenv denv menv ch debug ph) s = ret (s', Pending) \<and>
    sw_discovery s' = disc \<and> sw_transport s' = ct"
proof -
  let ?env = "hyperswarm_env tenv uenv denv menv ch debug ph"
  from whole.drain_ok [OF assms(1) [unfolded hyperswarm_inv_def]] assms(2) obtain q
    where drain: "drain_commands ?env s = ret (s\<lparr>sw_commands := q\<rparr>)"
    by auto
  have log: "log_prints ?env" using assms(1) by (simp add: hyperswarm_inv_def swarm_inv_def)
  from whole.poll_after_drain [OF log drain, of disc Pending] assms(3,4) show ?thesis
    by (simp add: swarm_reply_def)
qed

theorem transport_errors_dropped_witness:
  "\<exists>s'. swarm_poll_next (script_env [] dht_script)
      (script_swarm [Inl (IoError ConnectionAborted ''aborted'')] [] []) = ret (s', Pending)"
proof -
  let ?s = "script_swarm [Inl (IoError ConnectionAborted ''aborted'')] ([] :: hyper_dht_event list) []"
  have empty: "fst (sw_commands ?s) = []" by (simp add: script_swarm_def)
  obtain disc where disc: "combined_discovery_poll_next (dht_ops dht_script) (mdns_ops mdns_script)
      (sw_discovery ?s) = ret (disc, Pending)"
    by (simp add: swarm_eval)
  obtain ct where ct: "combined_poll_next (tcp_ops (tcp_script [])) (utp_ops utp_script)
      (sw_transport ?s) = ret (ct, Ready (Some (Inl (IoError ConnectionAborted ''aborted''))))"
    by (simp add: swarm_eval)
  have inv: "hyperswarm_inv (script_env [] dht_script) mdns_script fst snd fst snd ?s"
    by (rule script_swarm_inv)
  from transport_errors_dropped [OF inv empty disc ct] show ?thesis by blast
qed

text \<open>While the DHT discovery holds peers, a poll only takes the first one and connects to it.\<close>

lemma poll_held_peer:
  assumes "hyperswarm_inv (hyperswarm_env tenv uenv denv menv ch debug ph) menv mcontents mclosed
      contents closed s"
    and "contents (sw_commands s) = []"
    and "dht_pending_events (cd_dht (sw_discovery s)) = p # peers"
  shows "\<exists>q. swarm_poll_next (hyperswarm_env tenv uenv denv menv ch debug ph) s =
    run_bind (combined_poll_next (tcp_ops tenv) (utp_ops uenv)
        (combined_connect (tcp_ops tenv) (utp_ops uenv) (pi_addr p) (sw_transport s)))
      (\<lambda>(trans, conn). ret (s\<lparr>sw_commands := q, sw_discovery :=
          (sw_discovery s)\<lparr>cd_dht := (cd_dht (sw_discovery s))\<lparr>dht_pending_events := peers\<rparr>\<rparr>,
          sw_transport := trans\<rparr>, swarm_reply conn))"
proof -
  let ?env = "hyperswarm_env tenv uenv denv menv ch debug ph"
  from whole.drain_ok [OF assms(1) [unfolded hyperswarm_inv_def]] assms(2) obtain q
    where drain: "drain_commands ?env s = ret (s\<lparr>sw_commands := q\<rparr>)"
    by auto
  have log: "log_prints ?env" using assms(1) by (simp add: hyperswarm_inv_def swarm_inv_def)
  have "combined_discovery_poll_next (dht_ops denv) (mdns_ops menv) (sw_discovery s) =
      ret ((sw_discovery s)\<lparr>cd_dht := (cd_dht (sw_discovery s))\<lparr>dht_pending_events := peers\<rparr>\<rparr>,
           Ready (Some (Inr p)))"
    by (simp add: combined_discovery_poll_next_def dht_poll_unfold assms(3))
  with whole.poll_after_drain [OF log drain, of _ "Ready (Some (Inr p))"] show ?thesis
    by (intro exI [of _ q]) simp
qed

text \<open>
  C37: One peer per poll. When the DHT discovery holds several peers, a poll takes the first one
  and connects to it; if the transport then has nothing to return, the poll is pending although
  the others are still held, and neither the DHT node nor mDNS was polled, so nothing of the
  discovery will wake the task for them.
\<close>

theorem peers_wait_while_pending:
  assumes "hyperswarm_inv (hyperswarm_env tenv uenv denv menv ch debug ph) menv mcontents mclosed
      contents closed s"
    and "contents (sw_commands s) = []"
    and "dht_pending_events (cd_dht (sw_discovery s)) = p # peers"
    and "combined_poll_next (tcp_ops tenv) (utp_ops uenv)
           (combined_connect (tcp_ops tenv) (utp_ops uenv) (pi_addr p) (sw_transport s)) =
         ret (ct, Pending)"
  shows "\<exists>s'. swarm_poll_next (hyperswarm_env tenv uenv denv menv ch debug ph) s = ret (s', Pending) \<and>
    sw_transport s' = ct \<and>
    sw_discovery s' = (sw_discovery s)\<lparr>cd_dht := (cd_dht (sw_discovery s))\<lparr>dht_pending_events := peers\<rparr>\<rparr>"
  using poll_held_peer [OF assms(1-3)] assms(4) by (auto simp: swarm_reply_def)

theorem peers_wait_while_pending_witness:
  "\<exists>s'. swarm_poll_next
      (hyperswarm_env ((tcp_script [])\<lparr>te_pending_poll := (\<lambda>p. (p, Pending))\<rparr>)
        (utp_script\<lparr>ue_pending_poll := (\<lambda>p. (p, Pending))\<rparr>) dht_script mdns_script list_channel False (\<lambda>t. Inr []))
      (script_swarm [] [] []
        \<lparr>sw_discovery := \<lparr>cd_dht = (dht_start 4000 [])\<lparr>dht_pending_events :=
            [peer_info_new (SocketV4 (Ipv4Addr 10 0 0 1) 80) (Some (array32_fill 1)) Dht,
             peer_info_new (SocketV4 (Ipv4Addr 10 0 0 2) 80) (Some (array32_fill 1)) Dht]\<rparr>,
          cd_mdns = mdns_start []\<rparr>\<rparr>) = ret (s', Pending) \<and>
    map pi_addr (dht_pending_events (cd_dht (sw_discovery s'))) = [SocketV4 (Ipv4Addr 10 0 0 2) 80]"
proof -
  let ?tenv = "(tcp_script [])\<lparr>te_pending_poll := (\<lambda>p. (p, Pending))\<rparr>"
  let ?uenv = "utp_script\<lparr>ue_pending_poll := (\<lambda>p. (p, Pending))\<rparr>"
  let ?p = "peer_info_new (SocketV4 (Ipv4Addr 10 0 0 1) 80) (Some (array32_fill 1)) Dht"
  let ?q = "peer_info_new (SocketV4 (Ipv4Addr 10 0 0 2) 80) (Some (array32_fill 1)) Dht"
  let ?s = "script_swarm [] [] []
        \<lparr>sw_discovery := \<lparr>cd_dht = (dht_start 4000 ([] :: hyper_dht_event list))\<lparr>dht_pending_events := [?p, ?q]\<rparr>,
          cd_mdns = mdns_start []\<rparr>\<rparr>"
  have inv: "hyperswarm_inv (hyperswarm_env ?tenv ?uenv dht_script mdns_script list_channel False
      (\<lambda>t. Inr [])) mdns_script fst snd fst snd ?s"
    using script_swarm_inv [of ?tenv ?uenv dht_script False "\<lambda>t. []" "[]" "[]" "[]"]
    by (simp add: hyperswarm_inv_def swarm_inv_def script_swarm_def dht_inv_def)
  have empty: "fst (sw_commands ?s) = []" by (simp add: script_swarm_def)
  have held: "dht_pending_events (cd_dht (sw_discovery ?s)) = ?p # [?q]" by simp
  obtain ct where ct: "combined_poll_next (tcp_ops ?tenv) (utp_ops ?uenv)
      (combined_connect (tcp_ops ?tenv) (utp_ops ?uenv) (pi_addr ?p) (sw_transport ?s)) = ret (ct, Pending)"
    by (simp add: swarm_eval)
  from peers_wait_while_pending [OF inv empty held ct] show ?thesis by auto
qed

text \<open>
  C16: No held peer is skipped. While nothing is configured, the polls connect to the peers that the
  DHT discovery holds one after another, in order: after as many polls as it holds peers none is
  left, and the transport went through a connect and a poll for each, with the connections that
  the polls returned.
\<close>

theorem held_peers_connected:
  assumes "hyperswarm_inv (hyperswarm_env tenv uenv denv menv ch debug ph) menv mcontents mclosed
      contents closed s"
    and "contents (sw_commands s) = []"
    and "swarm_exec (hyperswarm_env tenv uenv denv menv ch debug ph) s (map Polled rs) s'"
    and "length rs \<le> length (dht_pending_events (cd_dht (sw_discovery s)))"
  shows "dht_pending_events (cd_dht (sw_discovery s')) =
      drop (length rs) (dht_pending_events (cd_dht (sw_discovery s))) \<and>
    transport_run (combined_transport_ops (tcp_ops tenv) (utp_ops uenv))
      (concat (map (\<lambda>p. [TConnect (pi_addr p), TPoll])
        (take (length rs) (dht_pending_events (cd_dht (sw_discovery s))))))
      (sw_transport s) = ret (sw_transport s', concat (map delivered rs))"
  using assms
proof (induction rs arbitrary: s)
  case Nil
  then show ?case by (simp add: swarm_exec_simps)
next
  case (Cons r rs)
  let ?env = "hyperswarm_env tenv uenv denv menv ch debug ph"
  from Cons.prems(3) obtain s1 where poll: "swarm_poll_next ?env s = ret (s1, r)"
    and rest: "swarm_exec ?env s1 (map Polled rs) s'"
    by (auto simp: swarm_exec_simps swarm_step_simps)
  from Cons.prems(4) obtain p peers where held: "dht_pending_events (cd_dht (sw_discovery s)) = p # peers"
    by (cases "dht_pending_events (cd_dht (sw_discovery s))") auto
  from poll_held_peer [OF Cons.prems(1,2) held] obtain q where polled: "swarm_poll_next ?env s =
      run_bind (combined_poll_next (tcp_ops tenv) (utp_ops uenv)
          (combined_connect (tcp_ops tenv) (utp_ops uenv) (pi_addr p) (sw_transport s)))
        (\<lambda>(trans, conn). ret (s\<lparr>sw_commands := q, sw_discovery :=
            (sw_discovery s)\<lparr>cd_dht := (cd_dht (sw_discovery s))\<lparr>dht_pending_events := peers\<rparr>\<rparr>,
            sw_transport := trans\<rparr>, swarm_reply conn))" by blast
  from poll [unfolded polled] obtain ct conn where
    ct: "combined_poll_next (tcp_ops tenv) (utp_ops uenv)
        (combined_connect (tcp_ops tenv) (utp_ops uenv) (pi_addr p) (sw_transport s)) = ret (ct, conn)"
    and s1: "sw_transport s1 = ct" "dht_pending_events (cd_dht (sw_discovery s1)) = peers" "r = swarm_reply conn"
    by (auto simp: run_simps)
  from whole.poll_effect [OF Cons.prems(1) [unfolded hyperswarm_inv_def] poll]
  have "hyperswarm_inv ?env menv mcontents mclosed contents closed s1" "contents (sw_commands s1) = []"
    by (simp_all add: hyperswarm_inv_def)
  from Cons.IH [OF this rest] Cons.prems(4) held s1 ct show ?case by simp
qed

theorem held_peers_connected_witness:
  "\<exists>rs s'. swarm_exec (script_env [] dht_script)
      (script_swarm [] [] []
        \<lparr>sw_discovery := \<lparr>cd_dht = (dht_start 4000 [])\<lparr>dht_pending_events :=
            [peer_info_new (SocketV4 (Ipv4Addr 10 0 0 1) 80) (Some (array32_fill 1)) Dht,
             peer_info_new (SocketV4 (Ipv4Addr 10 0 0 2) 80) (Some (array32_fill 1)) Dht]\<rparr>,
          cd_mdns = mdns_start []\<rparr>\<rparr>) (map Polled rs) s' \<and>
    length rs = 2 \<and> dht_pending_events (cd_dht (sw_discovery s')) = []"
proof -
  let ?env = "script_env [] dht_script"
  let ?s = "script_swarm [] [] []
        \<lparr>sw_discovery := \<lparr>cd_dht = (dht_start 4000 ([] :: hyper_dht_event list))\<lparr>dht_pending_events :=
            [peer_info_new (SocketV4 (Ipv4Addr 10 0 0 1) 80) (Some (array32_fill 1)) Dht,
             peer_info_new (SocketV4 (Ipv4Addr 10 0 0 2) 80) (Some (array32_fill 1)) Dht]\<rparr>,
          cd_mdns = mdns_start []\<rparr>\<rparr>"
  obtain s1 r1 s2 r2 where polls: "swarm_poll_next ?env ?s = ret (s1, r1)" "swarm_poll_next ?env s1 = ret (s2, r2)"
    by (simp add: swarm_eval)
  have exec: "swarm_exec ?env ?s (map Polled [r1, r2]) s2"
    using exec_cons [OF step_poll [OF polls(1)] exec_cons [OF step_poll [OF polls(2)] exec_nil]] by simp
  have inv: "hyperswarm_inv ?env mdns_script fst snd fst snd ?s"
    using script_swarm_inv [of "tcp_script []" utp_script dht_script True _ "[]" "[]" "[]"]
    by (simp add: hyperswarm_inv_def swarm_inv_def script_swarm_def dht_inv_def)
  have "fst (sw_commands ?s) = []" "length [r1, r2] \<le> length (dht_pending_events (cd_dht (sw_discovery ?s)))"
    by (simp_all add: script_swarm_def)
  from held_peers_connected [OF inv this(1) exec this(2)] exec show ?thesis by (intro exI [of _ "[r1, r2]"] exI [of _ s2]) simp
qed

text \<open>
  C31: A poll of the swarm returns or panics, whatever is queued, when bursts of events of the DHT
  node are finite: neither the loop over the commands nor the one over the events runs forever.
\<close>

theorem swarm_poll_terminates:
  fixes burst :: "'d \<Rightarrow> nat"
  assumes "hyperswarm_inv (hyperswarm_env tenv uenv denv menv ch debug ph) menv mcontents mclosed
      contents closed s"
    and "\<And>d d' event. he_poll denv d = (d', Ready (Some event)) \<Longrightarrow> burst d' < burst d"
  shows "swarm_poll_next (hyperswarm_env tenv uenv denv menv ch debug ph) s \<noteq> None"
proof (rule whole.poll_returns [OF assms(1) [unfolded hyperswarm_inv_def]])
  fix d
  show "d_poll_next (se_discovery (hyperswarm_env tenv uenv denv menv ch debug ph)) d \<noteq> None"
    using dht_poll_returns [where burst = burst and env = denv and s = "cd_dht d"] assms(2)
    by (simp add: combined_discovery_poll_next_def run_bind_eq_None Let_def del: not_None_eq
        split: prod.split)
qed

theorem swarm_poll_terminates_witness:
  "swarm_poll_next (script_env [] dht_script) (script_swarm [] [Bootstrapped, AnnounceResult] []) \<noteq> None"
proof (rule swarm_poll_terminates [OF script_swarm_inv, of dht_script length])
  fix d d' event
  show "he_poll dht_script d = (d', Ready (Some event)) \<Longrightarrow> length d' < length d"
    by (cases d) auto
qed

text \<open>Binding over the scripts, with no address and no mDNS section in the configuration.\<close>

lemma script_bind:
  assumes "cfg_local_addr config = None" and "cfg_mdns config = None" and "cfg_dht config \<in> {None, Some []}"
  shows "\<exists>s. swarm_bind (tcp_script []) utp_script dht_script dht_config_script
      mdns_script list_channel config () = ret (Inr s, ()) \<and>
    combined_transport_local_addr (sw_transport s) = SocketV4 (Ipv4Addr 127 0 0 1) 4000"
proof -
  from assms(3) have "unwrap_or [] (cfg_dht config) = []" by auto
  then show ?thesis
    by (simp add: assms(1,2) swarm_bind_def combined_transport_bind_def unwrap_socket_addr_def
        default_socket_addr tcp_bind_def utp_bind_def tcp_incoming_new_def act_bind_def try_bind_def
        socket_addr_resolver_def Let_def combined_discovery_bind_def dht_bind_def mdns_bind_def
        mdns_config_default_def mdns_socket_create_def mdns_script_def
        combined_transport_local_addr_def tcp_local_addr_def)
qed

lemma swarm_bind_parts:
  assumes "swarm_bind tenv uenv denv dc menv ch config w = ret (Inr s, w')"
  obtains transport w1 mdns w2 dht where
    "combined_transport_bind tenv uenv socket_addr_resolver (cfg_local_addr config) w = ret (Inr transport, w1)"
    "mdns_bind menv (unwrap_or mdns_config_default (cfg_mdns config))
      (sock_port (combined_transport_local_addr transport)) w1 = ret (Inr mdns, w2)"
    "dht_bind denv (unwrap_or (dc_default dc) (cfg_dht config))
      (sock_port (combined_transport_local_addr transport)) w2 = ret (Inr dht, w')"
    "s = \<lparr>sw_topics = Map.empty, sw_discovery = \<lparr>cd_dht = dht, cd_mdns = mdns\<rparr>,
      sw_transport = transport, sw_commands = ch_unbounded ch\<rparr>"
  using assms by (auto simp: swarm_bind_def combined_discovery_bind_def Let_def run_simps)

lemma swarm_bind_started:
  assumes "swarm_bind tenv uenv denv dc menv ch config w = ret (Inr s, w')"
    and "channel_laws ch contents closed" and "channel_laws (me_channel menv) mcontents mclosed"
    and "log_prints (hyperswarm_env tenv uenv denv menv ch debug ph)"
  shows "hyperswarm_inv (hyperswarm_env tenv uenv denv menv ch debug ph) menv mcontents mclosed
      contents closed s \<and>
    sw_topics s = Map.empty \<and> sw_commands s = ch_unbounded ch"
proof -
  from assms(1) obtain transport w1 mdns w2 dht where
    t: "combined_transport_bind tenv uenv socket_addr_resolver (cfg_local_addr config) w =
      ret (Inr transport, w1)"
    and m: "mdns_bind menv (unwrap_or mdns_config_default (cfg_mdns config))
      (sock_port (combined_transport_local_addr transport)) w1 = ret (Inr mdns, w2)"
    and d: "dht_bind denv (unwrap_or (dc_default dc) (cfg_dht config))
      (sock_port (combined_transport_local_addr transport)) w2 = ret (Inr dht, w')"
    and s: "s = \<lparr>sw_topics = Map.empty, sw_discovery = \<lparr>cd_dht = dht, cd_mdns = mdns\<rparr>,
      sw_transport = transport, sw_commands = ch_unbounded ch\<rparr>" by (rule swarm_bind_parts)
  from d have "dht_inv dht" by (auto simp: dht_bind_def dht_inv_def run_simps)
  with combined_bind_result [OF t] mdns_bind_ok [OF m assms(3)] channel_lawsD(1,2) [OF assms(2)] assms(2,4)
  show ?thesis by (auto simp: s hyperswarm_inv_def swarm_inv_def)
qed

text \<open>
  C7: A swarm that was bound satisfies the invariant of the other properties, has no topic and no
  command, and announces the port on which it listens: the TCP listener it accepts on was bound to
  the configured address (to \<open>0.0.0.0:0\<close> when there is none), the address the listener then
  reports, which need not be the one asked for, is the transport's local address, the uTP context
  was bound to it, and its port is the one that the DHT discovery announces and that the mDNS
  announcer was started with.
\<close>

theorem swarm_bind_ok:
  assumes "swarm_bind tenv uenv denv dc menv ch config w = ret (Inr s, w')"
    and "channel_laws ch contents closed" and "channel_laws (me_channel menv) mcontents mclosed"
    and "log_prints (hyperswarm_env tenv uenv denv menv ch debug ph)"
  shows "hyperswarm_inv (hyperswarm_env tenv uenv denv menv ch debug ph) menv mcontents mclosed
      contents closed s \<and>
    sw_topics s = Map.empty \<and> contents (sw_commands s) = [] \<and>
    ct_connected (sw_transport s) = {} \<and>
    (\<exists>requested listener w1 context w2.
       (case cfg_local_addr config of
          None \<Rightarrow> requested = SocketV4 (Ipv4Addr 0 0 0 0) 0
        | Some a \<Rightarrow> to_socket_addr socket_addr_resolver a = Inr requested) \<and>
       te_bind tenv requested w = ret (Inr listener, w1) \<and>
       inc_accept (tcp_inc (ct_tcp (sw_transport s))) = Accepting listener \<and>
       te_listener_addr tenv listener = Inr (combined_transport_local_addr (sw_transport s)) \<and>
       ue_bind uenv (combined_transport_local_addr (sw_transport s)) w1 = ret (Inr context, w2)) \<and>
    dht_pending_commands (cd_dht (sw_discovery s)) = [] \<and>
    dht_announce_port (cd_dht (sw_discovery s)) =
      sock_port (combined_transport_local_addr (sw_transport s)) \<and>
    (\<exists>socket name. mdns_announcer (cd_mdns (sw_discovery s)) =
       me_announcer_listen menv socket (sock_port (combined_transport_local_addr (sw_transport s))) name)"
proof -
  from assms(1) obtain transport w1 mdns w2 dht where
    t: "combined_transport_bind tenv uenv socket_addr_resolver (cfg_local_addr config) w =
      ret (Inr transport, w1)"
    and m: "mdns_bind menv (unwrap_or mdns_config_default (cfg_mdns config))
      (sock_port (combined_transport_local_addr transport)) w1 = ret (Inr mdns, w2)"
    and d: "dht_bind denv (unwrap_or (dc_default dc) (cfg_dht config))
      (sock_port (combined_transport_local_addr transport)) w2 = ret (Inr dht, w')"
    and s: "s = \<lparr>sw_topics = Map.empty, sw_discovery = \<lparr>cd_dht = dht, cd_mdns = mdns\<rparr>,
      sw_transport = transport, sw_commands = ch_unbounded ch\<rparr>" by (rule swarm_bind_parts)
  from d have "dht_pending_commands dht = []"
    "dht_announce_port dht = sock_port (combined_transport_local_addr transport)"
    by (auto simp: dht_bind_def run_simps)
  moreover from m have "\<exists>socket name. mdns_announcer mdns =
      me_announcer_listen menv socket (sock_port (combined_transport_local_addr transport)) name"
    by (auto simp: mdns_bind_def act_bind_def Let_def run_simps) blast
  ultimately show ?thesis
    using swarm_bind_started [OF assms] combined_bind_result [OF t] channel_lawsD(1) [OF assms(2)]
    by (simp add: s) blast
qed

theorem swarm_bind_ok_witness:
  "\<exists>s. swarm_bind (tcp_script []) utp_script dht_script dht_config_script
      mdns_script list_channel config_new () = ret (Inr s, ()) \<and>
    dht_announce_port (cd_dht (sw_discovery s)) = 4000"
proof -
  obtain s where bind: "swarm_bind (tcp_script []) utp_script dht_script dht_config_script
      mdns_script list_channel config_new () = ret (Inr s, ())"
    and addr: "combined_transport_local_addr (sw_transport s) = SocketV4 (Ipv4Addr 127 0 0 1) 4000"
    using script_bind [of config_new] by (auto simp: config_new_def config_default_def)
  have "log_prints (script_env [] dht_script)" by (simp add: log_prints_def hyperswarm_env_def)
  moreover have "channel_laws (me_channel mdns_script) fst snd"
    by (simp add: list_channel_laws)
  ultimately have "dht_announce_port (cd_dht (sw_discovery s)) =
      sock_port (combined_transport_local_addr (sw_transport s))"
    using swarm_bind_ok [OF bind list_channel_laws] by blast
  with addr bind show ?thesis by auto
qed

end
