(* ===== verification/Bootstrap.thy ===== *)
theory Bootstrap
  imports Config Dht_Discovery
begin

section \<open>Bootstrap nodes (\<open>src/bootstrap.rs\<close>, \<open>hyperswarm-bootstrap/src/main.rs\<close>)\<close>

text \<open>
  A node of the DHT that only answers, and the addresses that the command line of the bootstrap
  binary is turned into. The node is \<open>HyperDht\<close> again, with the fields of \<open>dht_env\<close>, and its
  \<open>local_addr\<close> is an argument; \<open>other\<close> resolves what is not an address literal.
\<close>

subsection \<open>Building a node\<close>

definition default_dht_bind_addr :: string where
  "default_dht_bind_addr = ''0.0.0.0:49737''"

record 'c bootstrap_node =
  bn_config :: 'c
  bn_addr :: "socket_addr option"

definition bootstrap_node_new :: "'c \<Rightarrow> socket_addr option \<Rightarrow> 'c bootstrap_node" where
  "bootstrap_node_new config addr = \<lparr>bn_config = config, bn_addr = addr\<rparr>"

definition bootstrap_with_addr ::
  "('w, 'c) dht_config_ops \<Rightarrow> 'a resolver \<Rightarrow> 'a \<Rightarrow> 'c bootstrap_node io_result" where
  "bootstrap_with_addr dc resolve addr =
     res_bind (to_socket_addr resolve addr) (\<lambda>addr.
     let config = dc_set_ephemeral dc False (dc_empty_bootstrap_nodes dc (dc_default dc)) in
     Inr (bootstrap_node_new config (Some addr)))"

definition bootstrap_default ::
  "('w, 'c) dht_config_ops \<Rightarrow> string resolver \<Rightarrow> 'c bootstrap_node run" where
  "bootstrap_default dc other =
     unwrap_res (bootstrap_with_addr dc (str_resolver other) default_dht_bind_addr)"

definition bootstrap_with_config ::
  "string resolver \<Rightarrow> 'a resolver \<Rightarrow> 'c \<Rightarrow> 'a option \<Rightarrow> 'c bootstrap_node io_result" where
  "bootstrap_with_config other resolve config addr =
     res_bind (case addr of
         Some a \<Rightarrow> to_socket_addr resolve a
       | None \<Rightarrow> to_socket_addr (str_resolver other) default_dht_bind_addr) (\<lambda>addr.
     Inr (bootstrap_node_new config (Some addr)))"

subsection \<open>Running it\<close>

text \<open>
  The spawned task owns the node and loops over its events without looking at them; one poll of
  the task runs until the node has nothing. The loop has no exit, so the task is never ready.
\<close>

partial_function (option) bootstrap_task ::
  "('w, 'c, 'd) dht_env \<Rightarrow> 'd \<Rightarrow> ('d \<times> unit io_result poll) run" where
  "bootstrap_task env bs =
     (case he_poll env bs of
        (bs', Pending) \<Rightarrow> ret (bs', Pending)
      | (bs', Ready event) \<Rightarrow> bootstrap_task env bs')"

definition bootstrap_run ::
  "('w, 'c) dht_config_ops \<Rightarrow> ('w, 'c, 'd) dht_env \<Rightarrow> ('d \<Rightarrow> socket_addr io_result) \<Rightarrow>
     'c bootstrap_node \<Rightarrow> ('w, (socket_addr \<times> 'd) io_result) action" where
  "bootstrap_run dc env local_addr node =
     (let addr = unwrap_or (SocketV4 (Ipv4Addr 0 0 0 0) 49737) (bn_addr node) in
      try_bind (act_bind (dc_bind dc addr (bn_config node)) (\<lambda>r.
        act_return (case r of Inl (_, e) \<Rightarrow> Inl e | Inr config \<Rightarrow> Inr config))) (\<lambda>config.
      try_bind (he_with_config env config) (\<lambda>bs.
      try_bind (act_return (local_addr bs)) (\<lambda>addr.
      act_return (Inr (addr, bs))))))"

definition run_bootstrap_node ::
  "('w, 'c) dht_config_ops \<Rightarrow> ('w, 'c, 'd) dht_env \<Rightarrow> ('d \<Rightarrow> socket_addr io_result) \<Rightarrow>
     string resolver \<Rightarrow> 'a resolver \<Rightarrow> 'a option \<Rightarrow> ('w, (socket_addr \<times> 'd) io_result) action" where
  "run_bootstrap_node dc env local_addr other resolve addr =
     try_bind (case addr of
         Some addr \<Rightarrow> act_return (bootstrap_with_addr dc resolve addr)
       | None \<Rightarrow> act_bind (act_run (bootstrap_default dc other)) (\<lambda>node. act_return (Inr node)))
     (\<lambda>node. bootstrap_run dc env local_addr node)"

subsection \<open>The bootstrap binary\<close>

text \<open>An \<open>anyhow\<close> error with the context that the binary attaches to a failed resolution.\<close>

datatype context_error = ContextError string io_error

fun push_ipv4 :: "socket_addr list \<Rightarrow> socket_addr list \<Rightarrow> socket_addr list" where
  "push_ipv4 addrs [] = addrs"
| "push_ipv4 addrs (addr # rest) =
     push_ipv4 (if is_ipv4 addr then addrs @ [addr] else addrs) rest"

fun collect_addrs ::
  "string resolver \<Rightarrow> socket_addr list \<Rightarrow> string list \<Rightarrow> context_error + socket_addr list" where
  "collect_addrs resolve addrs [] = Inr addrs"
| "collect_addrs resolve addrs (addr # rest) =
     (case resolve addr of
        Inl e \<Rightarrow> Inl (ContextError (''Invalid socket address \"'' @ addr @ ''\"'') e)
      | Inr resolved \<Rightarrow> collect_addrs resolve (push_ipv4 addrs resolved) rest)"

definition bootstrap_main_config ::
  "('w, 'c) dht_config_ops \<Rightarrow> string resolver \<Rightarrow> string list \<Rightarrow> context_error + 'c" where
  "bootstrap_main_config dc resolve bootstrap =
     (let config = dc_set_ephemeral dc False
                     (dc_set_bootstrap_nodes dc (map resolve bootstrap) (dc_default dc)) in
      if 0 < length bootstrap
      then (case collect_addrs resolve [] bootstrap of
              Inl e \<Rightarrow> Inl e
            | Inr addrs \<Rightarrow> Inr (dc_set_bootstrap_nodes dc (map socket_addr_resolver addrs) config))
      else Inr config)"

text \<open>
  The nodes of a configuration, for the log: those it has, or the default ones of the DHT crate, which
  are the argument \<open>defaults\<close>.
\<close>

definition bootstrap_addrs :: "('c \<Rightarrow> socket_addr list option) \<Rightarrow> string list \<Rightarrow> 'c \<Rightarrow> string list" where
  "bootstrap_addrs bootstrap_nodes defaults config =
     (case bootstrap_nodes config of Some v \<Rightarrow> map show_socket_addr v | None \<Rightarrow> defaults)"

fun join_comma :: "string list \<Rightarrow> string" where
  "join_comma [] = []"
| "join_comma [x] = x"
| "join_comma (x # xs) = x @ '', '' @ join_comma xs"

datatype main_error = MainContext context_error | MainIo io_error

text \<open>The binary up to the wait for the node's task, with the two lines it prints or logs.\<close>

definition bootstrap_async_main ::
  "('w, 'c) dht_config_ops \<Rightarrow> ('w, 'c, 'd) dht_env \<Rightarrow> ('d \<Rightarrow> socket_addr io_result) \<Rightarrow> string resolver \<Rightarrow>
     ('c \<Rightarrow> socket_addr list option) \<Rightarrow> string list \<Rightarrow> socket_addr \<Rightarrow> string list \<Rightarrow>
     ('w, main_error + socket_addr \<times> 'd \<times> string list) action" where
  "bootstrap_async_main dc env local_addr resolve bootstrap_nodes defaults address bootstrap =
     (case bootstrap_main_config dc resolve bootstrap of
        Inl e \<Rightarrow> act_return (Inl (MainContext e))
      | Inr config \<Rightarrow>
          let addrs = bootstrap_addrs bootstrap_nodes defaults config;
              node = bootstrap_node_new config (Some address) in
          act_bind (bootstrap_run dc env local_addr node) (\<lambda>r.
          case r of
            Inl e \<Rightarrow> act_return (Inl (MainIo e))
          | Inr (addr, task) \<Rightarrow>
              act_return (Inr (addr, task,
                [''DHT listening on '' @ show_socket_addr addr,
                 ''Bootstrapping DHT via nodes: '' @ join_comma addrs]))))"

text \<open>
  The binary itself: the parsed options go to \<open>async_main\<close>, and an error is printed with exit code 1.
  \<open>show_io\<close> is the display form of an I/O error.
\<close>

record bootstrap_options =
  bo_address :: socket_addr
  bo_bootstrap :: "string list"

fun show_main_error :: "(io_error \<Rightarrow> string) \<Rightarrow> main_error \<Rightarrow> string" where
  "show_main_error show_io (MainContext (ContextError context e)) = context"
| "show_main_error show_io (MainIo e) = show_io e"

datatype 'a main_result = ExitWith nat string | Waiting 'a

definition bootstrap_main ::
  "('w, 'c) dht_config_ops \<Rightarrow> ('w, 'c, 'd) dht_env \<Rightarrow> ('d \<Rightarrow> socket_addr io_result) \<Rightarrow> string resolver \<Rightarrow>
     ('c \<Rightarrow> socket_addr list option) \<Rightarrow> string list \<Rightarrow> (io_error \<Rightarrow> string) \<Rightarrow> bootstrap_options \<Rightarrow>
     ('w, (socket_addr \<times> 'd \<times> string list) main_result) action" where
  "bootstrap_main dc env local_addr resolve bootstrap_nodes defaults show_io opts =
     act_bind (bootstrap_async_main dc env local_addr resolve bootstrap_nodes defaults
                 (bo_address opts) (bo_bootstrap opts)) (\<lambda>r.
     act_return (case r of
         Inl e \<Rightarrow> ExitWith 1 (''Error: '' @ show_main_error show_io e)
       | Inr node \<Rightarrow> Waiting node))"

subsection \<open>Properties\<close>

lemma parse_default_addr:
  "str_resolver other default_dht_bind_addr = Inr [SocketV4 (Ipv4Addr 0 0 0 0) 49737]"
  by (simp add: default_dht_bind_addr_def str_resolver_def parse_socket_v4_def parse_ipv4_def
      parse_octet_def parse_dec_def is_dec_digit_def read_base_def digit_value_def)

text \<open>
  The default bootstrap node never panics: its address literal parses, to port 49737 on all
  interfaces, and its configuration is the default one with no bootstrap nodes and not ephemeral.
  \<open>with_config\<close> with no address gives the same address, and it is the one that \<open>run\<close> falls back to
  for a node built with none.
\<close>

lemma bootstrap_default_ok:
  "bootstrap_default dc other =
     ret \<lparr>bn_config = dc_set_ephemeral dc False (dc_empty_bootstrap_nodes dc (dc_default dc)),
          bn_addr = Some (SocketV4 (Ipv4Addr 0 0 0 0) 49737)\<rparr> \<and>
   bootstrap_with_config other resolve config None =
     Inr (bootstrap_node_new config (Some (SocketV4 (Ipv4Addr 0 0 0 0) 49737))) \<and>
   bootstrap_run dc env local_addr (bootstrap_node_new config None) =
     bootstrap_run dc env local_addr
       (bootstrap_node_new config (Some (SocketV4 (Ipv4Addr 0 0 0 0) 49737)))"
  by (simp add: bootstrap_default_def bootstrap_with_addr_def bootstrap_with_config_def
      bootstrap_run_def bootstrap_node_new_def to_socket_addr_def parse_default_addr)

lemma push_ipv4_filter: "push_ipv4 addrs resolved = addrs @ filter is_ipv4 resolved"
  by (induction resolved arbitrary: addrs) simp_all

text \<open>
  The addresses of the bootstrap binary are the IPv4 addresses among what its arguments
  resolve to, in order; when an argument does not resolve, the first such one is reported, with
  its text, and the later ones do not matter.
\<close>

lemma collect_addrs_spec:
  "collect_addrs resolve [] args =
     (case dropWhile (\<lambda>a. \<exists>rs. resolve a = Inr rs) args of
        [] \<Rightarrow> Inr (concat (map (\<lambda>a. case resolve a of Inr rs \<Rightarrow> filter is_ipv4 rs | Inl e \<Rightarrow> []) args))
      | a # _ \<Rightarrow>
          Inl (ContextError (''Invalid socket address \"'' @ a @ ''\"'')
                 (case resolve a of Inl e \<Rightarrow> e | Inr rs \<Rightarrow> IoError OtherKind [])))"
proof -
  have "collect_addrs resolve addrs args =
     (case dropWhile (\<lambda>a. \<exists>rs. resolve a = Inr rs) args of
        [] \<Rightarrow> Inr (addrs @ concat (map (\<lambda>a. case resolve a of Inr rs \<Rightarrow> filter is_ipv4 rs | Inl e \<Rightarrow> []) args))
      | a # _ \<Rightarrow>
          Inl (ContextError (''Invalid socket address \"'' @ a @ ''\"'')
                 (case resolve a of Inl e \<Rightarrow> e | Inr rs \<Rightarrow> IoError OtherKind [])))" for addrs
  proof (induction args arbitrary: addrs)
    case (Cons a args)
    then show ?case
      by (cases "resolve a"; cases "dropWhile (\<lambda>a. \<exists>rs. resolve a = Inr rs) args")
         (simp_all add: push_ipv4_filter del: dropWhile_eq_Nil_conv)
  qed simp
  from this [of "[]"] show ?thesis by (simp only: append_Nil)
qed

lemma bootstrap_task_turn:
  "he_poll env bs = (bs', Pending) \<Longrightarrow> bootstrap_task env bs = ret (bs', Pending)"
  "he_poll env bs = (bs', Ready event) \<Longrightarrow> bootstrap_task env bs = bootstrap_task env bs'"
  by (subst bootstrap_task.simps, simp)+

text \<open>What holds of a poll of the task that returns, by induction over its turns.\<close>

lemma bootstrap_task_induct:
  assumes "bootstrap_task env bs = Some y"
  shows "he_poll env bs \<noteq> (bs, Ready None) \<and> (\<exists>bs' d. y = Ret (bs', Pending) \<and> he_poll env d = (bs', Pending))"
proof (rule bootstrap_task.raw_induct [where P = "\<lambda>env' bs y. env' = env \<longrightarrow>
      he_poll env bs \<noteq> (bs, Ready None) \<and> (\<exists>bs' d. y = Ret (bs', Pending) \<and> he_poll env d = (bs', Pending))",
      OF _ assms, THEN mp, OF _ refl])
  fix task env' bs y
  assume IH: "\<And>env' bs y. task env' bs = Some y \<Longrightarrow> env' = env \<longrightarrow>
      he_poll env bs \<noteq> (bs, Ready None) \<and> (\<exists>bs' d. y = Ret (bs', Pending) \<and> he_poll env d = (bs', Pending))"
    and eq: "(case he_poll env' bs of
        (bs', Pending) \<Rightarrow> ret (bs', Pending) | (bs', Ready event) \<Rightarrow> task env' bs') = Some y"
  show "env' = env \<longrightarrow>
      he_poll env bs \<noteq> (bs, Ready None) \<and> (\<exists>bs' d. y = Ret (bs', Pending) \<and> he_poll env d = (bs', Pending))"
  proof
    assume env: "env' = env"
    obtain bs' p where poll: "he_poll env bs = (bs', p)" by fastforce
    with eq env IH [of env bs' y] show "he_poll env bs \<noteq> (bs, Ready None) \<and>
        (\<exists>bs' d. y = Ret (bs', Pending) \<and> he_poll env d = (bs', Pending))"
      by (cases p) auto
  qed
qed

text \<open>
  C40: The task of a bootstrap node has no way to end: a poll of it that returns is pending, and
  leaves the DHT node as it was when it last had no event. When the node's stream has ended, which
  it signals to every later poll, the poll never returns: the loop spins on the end of the stream
  instead of stopping.
\<close>

theorem bootstrap_task_never_ends:
  "(bootstrap_task env bs = ret (bs', r) \<longrightarrow>
      r = Pending \<and> (\<exists>d. he_poll env d = (bs', Pending))) \<and>
   (he_poll env bs = (bs, Ready None) \<longrightarrow> bootstrap_task env bs = None)"
proof (rule conjI; rule impI)
  assume "bootstrap_task env bs = ret (bs', r)"
  from bootstrap_task_induct [OF this] show "r = Pending \<and> (\<exists>d. he_poll env d = (bs', Pending))"
    by blast
next
  assume "he_poll env bs = (bs, Ready None)"
  with bootstrap_task_induct [of env bs] show "bootstrap_task env bs = None"
    by (cases "bootstrap_task env bs") auto
qed

theorem bootstrap_task_never_ends_witness:
  "bootstrap_task (dht_script\<lparr>he_poll := (\<lambda>d. (d, Ready None))\<rparr>) [Bootstrapped] = None \<and>
   (\<exists>bs'. bootstrap_task dht_script [Bootstrapped, OtherEvent] = ret (bs', Pending))"
proof
  show "bootstrap_task (dht_script\<lparr>he_poll := (\<lambda>d. (d, Ready None))\<rparr>) [Bootstrapped] = None"
    using bootstrap_task_never_ends [of "dht_script\<lparr>he_poll := (\<lambda>d. (d, Ready None))\<rparr>"
        "[Bootstrapped]"] by simp
  show "\<exists>bs'. bootstrap_task dht_script [Bootstrapped, OtherEvent] = ret (bs', Pending)"
    by (simp add: bootstrap_task_turn [of dht_script])
qed

end
