(* ===== verification/Hyperchat.thy ===== *)
theory Hyperchat
  imports Chat_Connection Utf8 Hyperswarm Bootstrap
begin

section \<open>The chat (\<open>examples/hyperchat.rs\<close>)\<close>

text \<open>
  The program around the connections: what its command line becomes, the peers to broadcast to, and
  the tasks that run side by side. A task is a sequence of steps between two points where it waits;
  the tasks of one program interleave by the steps of \<open>chat_step\<close>. The mutex around the peers is held
  within a step only. A peer's sender and its connection's receiver share a channel: the peer holds
  the number of the connection's task, whose state has the channel.
\<close>

subsection \<open>The command line\<close>

definition discovery_ns_buf :: bytes where
  "discovery_ns_buf = string_bytes ''hyperchat:v0''"

definition chat_bootstrap ::
  "('w, 'c) dht_config_ops \<Rightarrow> ('w, 'c, 'd) dht_env \<Rightarrow> ('d \<Rightarrow> socket_addr io_result) \<Rightarrow>
     socket_addr list \<Rightarrow> socket_addr option \<Rightarrow> ('w, (socket_addr \<times> 'd) io_result) action" where
  "chat_bootstrap dc env local_addr bootstrap addr =
     (let config = dc_default dc;
          config = (if bootstrap \<noteq> []
                    then dc_set_bootstrap_nodes dc (map socket_addr_resolver bootstrap) config
                    else dc_empty_bootstrap_nodes dc config);
          node = bootstrap_node_new config addr in
      bootstrap_run dc env local_addr node)"

definition chat_join_config ::
  "('w, 'c) dht_config_ops \<Rightarrow> string resolver \<Rightarrow> socket_addr list \<Rightarrow> 'c config" where
  "chat_join_config dc other bootstrap =
     (let config = config_default in
      if bootstrap \<noteq> [] then set_bootstrap_nodes dc socket_addr_resolver bootstrap config
      else set_bootstrap_nodes dc (str_resolver other) [''127.0.0.1:49737''] config)"

text \<open>Four random bytes, printed by the crate \<open>hex\<close>.\<close>

definition random_name :: "(bytes \<Rightarrow> string) \<Rightarrow> bytes \<Rightarrow> string" where
  "random_name hex_encode random = hex_encode random"

fun join_topics ::
  "'h blake2b \<Rightarrow> ('d, 't, 'a, 'q) swarm_env \<Rightarrow> string list \<Rightarrow> 'q \<Rightarrow> 'q run" where
  "join_topics b2 env [] handle = ret handle"
| "join_topics b2 env (topic # topics) handle =
     run_bind (hash_topic b2 discovery_ns_buf (string_bytes topic)) (\<lambda>hash.
     run_bind (handle_configure env hash announce_and_lookup handle) (\<lambda>handle.
     join_topics b2 env topics handle))"

subsection \<open>Peers and messages\<close>

record peer =
  peer_outbound_tx :: nat
  peer_addr :: socket_addr
  peer_protocol :: string

definition peer_id :: "peer \<Rightarrow> string" where
  "peer_id p = peer_protocol p @ '':'' @ show_socket_addr (peer_addr p)"

record incoming_message =
  im_from :: string
  im_content :: bytes

text \<open>The task of a connection: in its loop, out of it with the peer still to remove, or over.\<close>

datatype task_state = Running | Failing | Ended

record ('a, 'r, 'x, 'q) chat_task =
  ct_peer_id :: string
  ct_loop :: "('a connection, 'r, 'x, 'q) chat_loop"
  ct_state :: task_state

text \<open>The task of \<open>run\<close>: at the swarm, at the lock to save a peer, or at its end.\<close>

datatype run_state = Accepting | Saving peer | Finished "chat_error + unit"

record ('a, 'r, 'x, 'q, 'i) hyper_broadcast =
  hb_initial_message :: bytes
  hb_peers :: "peer list"
  hb_run :: run_state
  hb_tasks :: "('a, 'r, 'x, 'q) chat_task list"
  hb_incoming :: 'i

record ('a, 'r, 'x, 'q, 'i) hyperchat_env =
  hc_chat :: "('a connection, 'r, 'x, 'q) chat_env"
  hc_incoming :: "('i, incoming_message) channel_ops"

definition broadcast_new ::
  "('a, 'r, 'x, 'q, 'i) hyperchat_env \<Rightarrow> bytes \<Rightarrow> ('a, 'r, 'x, 'q, 'i) hyper_broadcast" where
  "broadcast_new env initial_message =
     \<lparr>hb_initial_message = initial_message, hb_peers = [], hb_run = Accepting, hb_tasks = [],
      hb_incoming = ch_unbounded (hc_incoming env)\<rparr>"

abbreviation set_outbound ::
  "'q \<Rightarrow> ('a, 'r, 'x, 'q) chat_task \<Rightarrow> ('a, 'r, 'x, 'q) chat_task" where
  "set_outbound q t \<equiv> t\<lparr>ct_loop := (ct_loop t)\<lparr>cl_outbound := q\<rparr>\<rparr>"

abbreviation set_inbound ::
  "'q \<Rightarrow> ('a, 'r, 'x, 'q) chat_task \<Rightarrow> ('a, 'r, 'x, 'q) chat_task" where
  "set_inbound q t \<equiv> t\<lparr>ct_loop := (ct_loop t)\<lparr>cl_inbound := q\<rparr>\<rparr>"

definition send_message ::
  "('a, 'r, 'x, 'q, 'i) hyperchat_env \<Rightarrow> string \<Rightarrow> peer \<Rightarrow> ('a, 'r, 'x, 'q) chat_task list \<Rightarrow>
     ('a, 'r, 'x, 'q) chat_task list \<times> (chat_error + unit)" where
  "send_message env message peer tasks =
     (let message = string_bytes message; i = peer_outbound_tx peer; t = tasks ! i in
      case ch_try_send (ce_channel (hc_chat env)) message (cl_outbound (ct_loop t)) of
        (outbound, r) \<Rightarrow>
          (tasks[i := set_outbound outbound t], case r of Inl _ \<Rightarrow> Inl ChatSend | Inr _ \<Rightarrow> Inr ()))"

text \<open>Whether a message could be sent is only logged.\<close>

fun broadcast_loop ::
  "('a, 'r, 'x, 'q, 'i) hyperchat_env \<Rightarrow> string \<Rightarrow> peer list \<Rightarrow> ('a, 'r, 'x, 'q) chat_task list \<Rightarrow>
     ('a, 'r, 'x, 'q) chat_task list" where
  "broadcast_loop env message [] tasks = tasks"
| "broadcast_loop env message (peer # peers) tasks =
     (case send_message env message peer tasks of
        (tasks, _) \<Rightarrow> broadcast_loop env message peers tasks)"

definition broadcast ::
  "('a, 'r, 'x, 'q, 'i) hyperchat_env \<Rightarrow> string \<Rightarrow> ('a, 'r, 'x, 'q, 'i) hyper_broadcast \<Rightarrow>
     ('a, 'r, 'x, 'q, 'i) hyper_broadcast" where
  "broadcast env message s = s\<lparr>hb_tasks := broadcast_loop env message (hb_peers s) (hb_tasks s)\<rparr>"

text \<open>One turn of the loop over the standard input; at its end \<open>read_line\<close> gives an empty line.\<close>

definition stdin_turn ::
  "('a, 'r, 'x, 'q, 'i) hyperchat_env \<Rightarrow> string io_result \<Rightarrow> ('a, 'r, 'x, 'q, 'i) hyper_broadcast \<Rightarrow>
     ('a, 'r, 'x, 'q, 'i) hyper_broadcast run" where
  "stdin_turn env read_line s = run_bind (unwrap_res read_line) (\<lambda>line. ret (broadcast env line s))"

subsection \<open>The task of \<open>run\<close>\<close>

text \<open>From an item of the swarm to the point where the new peer is to be saved.\<close>

definition accept_stream ::
  "('a, 'r, 'x, 'q, 'i) hyperchat_env \<Rightarrow> 'a connection io_result option \<Rightarrow>
     ('a, 'r, 'x, 'q, 'i) hyper_broadcast \<Rightarrow> ('a, 'r, 'x, 'q, 'i) hyper_broadcast" where
  "accept_stream env item s =
     (case item of
        None \<Rightarrow> s\<lparr>hb_run := Finished (Inr ())\<rparr>
      | Some (Inl e) \<Rightarrow> s\<lparr>hb_run := Finished (Inl (ChatIo e))\<rparr>
      | Some (Inr stream) \<Rightarrow>
          let outbound = ch_unbounded (ce_channel (hc_chat env));
              inbound = ch_unbounded (ce_channel (hc_chat env)) in
          (case ch_try_send (ce_channel (hc_chat env)) (hb_initial_message s) outbound of
             (outbound, Inl _) \<Rightarrow> s\<lparr>hb_run := Finished (Inl ChatSend)\<rparr>
           | (outbound, Inr _) \<Rightarrow>
               let peer = \<lparr>peer_outbound_tx = length (hb_tasks s), peer_addr = connection_peer_addr stream,
                           peer_protocol = connection_protocol stream\<rparr>;
                   task = \<lparr>ct_peer_id = peer_id peer,
                           ct_loop = chat_start (hc_chat env) stream inbound outbound,
                           ct_state = Running\<rparr> in
               s\<lparr>hb_tasks := hb_tasks s @ [task], hb_run := Saving peer\<rparr>))"

definition save_peer ::
  "peer \<Rightarrow> ('a, 'r, 'x, 'q, 'i) hyper_broadcast \<Rightarrow> ('a, 'r, 'x, 'q, 'i) hyper_broadcast" where
  "save_peer peer s = s\<lparr>hb_peers := hb_peers s @ [peer], hb_run := Accepting\<rparr>"

subsection \<open>The tasks of a connection\<close>

text \<open>The end of a connection's loop drops its ends of the two channels, before it removes the peer.\<close>

definition drop_ends ::
  "('a, 'r, 'x, 'q, 'i) hyperchat_env \<Rightarrow> ('a connection, 'r, 'x, 'q) chat_loop \<Rightarrow>
     ('a connection, 'r, 'x, 'q) chat_loop" where
  "drop_ends env l =
     l\<lparr>cl_outbound := ch_close (ce_channel (hc_chat env)) (cl_outbound l),
       cl_inbound := ch_close (ce_channel (hc_chat env)) (cl_inbound l)\<rparr>"

fun after_poll ::
  "('a, 'r, 'x, 'q, 'i) hyperchat_env \<Rightarrow> ('a, 'r, 'x, 'q) chat_task \<Rightarrow> ('a connection, 'r, 'x, 'q) chat_loop \<Rightarrow>
     (chat_error + unit) poll \<Rightarrow> ('a, 'r, 'x, 'q) chat_task" where
  "after_poll env t l Pending = t\<lparr>ct_loop := l\<rparr>"
| "after_poll env t l (Ready (Inl err)) = t\<lparr>ct_loop := drop_ends env l, ct_state := Failing\<rparr>"
| "after_poll env t l (Ready (Inr _)) = t\<lparr>ct_loop := drop_ends env l, ct_state := Ended\<rparr>"

definition poll_connection ::
  "('a, 'r, 'x, 'q, 'i) hyperchat_env \<Rightarrow> nat \<Rightarrow> ('a, 'r, 'x, 'q, 'i) hyper_broadcast \<Rightarrow>
     ('a, 'r, 'x, 'q, 'i) hyper_broadcast run" where
  "poll_connection env i s =
     (let t = hb_tasks s ! i in
      run_bind (connection_loop (hc_chat env) (ct_loop t)) (\<lambda>(l, result).
      ret (s\<lparr>hb_tasks := (hb_tasks s)[i := after_poll env t l result]\<rparr>)))"

text \<open>A peer that \<open>retain\<close> drops had the only sender of its channel.\<close>

definition drop_sender ::
  "('a, 'r, 'x, 'q, 'i) hyperchat_env \<Rightarrow> peer \<Rightarrow> ('a, 'r, 'x, 'q) chat_task list \<Rightarrow>
     ('a, 'r, 'x, 'q) chat_task list" where
  "drop_sender env peer tasks =
     (let i = peer_outbound_tx peer; t = tasks ! i in
      tasks[i := set_outbound (ch_close (ce_channel (hc_chat env)) (cl_outbound (ct_loop t))) t])"

definition remove_peer ::
  "('a, 'r, 'x, 'q, 'i) hyperchat_env \<Rightarrow> nat \<Rightarrow> ('a, 'r, 'x, 'q, 'i) hyper_broadcast \<Rightarrow>
     ('a, 'r, 'x, 'q, 'i) hyper_broadcast" where
  "remove_peer env i s =
     (let gone = ct_peer_id (hb_tasks s ! i);
          tasks = fold (drop_sender env) (filter (\<lambda>p. peer_id p = gone) (hb_peers s)) (hb_tasks s) in
      s\<lparr>hb_peers := filter (\<lambda>p. peer_id p \<noteq> gone) (hb_peers s),
        hb_tasks := tasks[i := (tasks ! i)\<lparr>ct_state := Ended\<rparr>]\<rparr>)"

text \<open>One turn of the loop that forwards what a connection received.\<close>

definition forward_message ::
  "('a, 'r, 'x, 'q, 'i) hyperchat_env \<Rightarrow> nat \<Rightarrow> ('a, 'r, 'x, 'q, 'i) hyper_broadcast \<Rightarrow>
     ('a, 'r, 'x, 'q, 'i) hyper_broadcast run" where
  "forward_message env i s =
     (let t = hb_tasks s ! i in
      case ch_poll_next (ce_channel (hc_chat env)) (cl_inbound (ct_loop t)) of
        (inbound, next) \<Rightarrow>
          let s = s\<lparr>hb_tasks := (hb_tasks s)[i := set_inbound inbound t]\<rparr> in
          (case next of
             Ready (Some message) \<Rightarrow>
               (case ch_try_send (hc_incoming env) \<lparr>im_from = ct_peer_id t, im_content = message\<rparr>
                       (hb_incoming s) of
                  (incoming, r) \<Rightarrow>
                    run_bind (unwrap_res r) (\<lambda>_. ret (s\<lparr>hb_incoming := incoming\<rparr>)))
           | _ \<Rightarrow> ret s))"

subsection \<open>The loop that prints\<close>

definition print_message :: "string option \<Rightarrow> incoming_message \<Rightarrow> string option \<times> string" where
  "print_message name message =
     (let content = unwrap_or ''<invalid utf8>'' (string_from_utf8 (im_content message)) in
      case name of
        None \<Rightarrow> (Some content, ''['' @ im_from message @ ''] is now known as `'' @ content @ ''`'')
      | Some name \<Rightarrow> (Some name, ''['' @ im_from message @ ''] <'' @ name @ ''> '' @ content))"

fun print_loop :: "string option \<Rightarrow> incoming_message list \<Rightarrow> string option \<times> string list" where
  "print_loop name [] = (name, [])"
| "print_loop name (message # messages) =
     (case print_message name message of
        (name, line) \<Rightarrow> (case print_loop name messages of (name, lines) \<Rightarrow> (name, line # lines)))"

subsection \<open>Joining\<close>

text \<open>
  From the options of \<open>Join\<close> to the swarm and the broadcaster that the tasks start with. \<open>name\<close> is the
  option's, or made of the four bytes \<open>random\<close>.
\<close>

definition chat_join where
  "chat_join tenv uenv denv dc menv b2 senv chat other hex_encode random bootstrap topics name =
     (let config = chat_join_config dc other bootstrap;
          name = (case name of Some n \<Rightarrow> n | None \<Rightarrow> random_name hex_encode random) in
      try_bind (swarm_bind tenv uenv denv dc menv (se_channel senv) config) (\<lambda>swarm.
      act_bind (act_run (join_topics b2 senv topics (swarm_handle swarm))) (\<lambda>handle.
      let initial_message = string_bytes name in
      act_return (Inr (swarm\<lparr>sw_commands := handle\<rparr>, broadcast_new chat initial_message)))))"

subsection \<open>The program\<close>

text \<open>The options that clap parses, and what each command starts.\<close>

record join_opts =
  jo_topics :: "string list"
  jo_name :: "string option"

datatype chat_command = BootstrapCommand | JoinCommand join_opts

record chat_opts =
  co_bootstrap :: "socket_addr list"
  co_bind :: "socket_addr option"
  co_command :: chat_command

datatype ('n, 'j) chat_program = BootstrapNode 'n | Joined 'j

definition chat_main where
  "chat_main tenv uenv denv dc menv b2 senv chat local_addr other hex_encode random opts =
     (case co_command opts of
        BootstrapCommand \<Rightarrow>
          try_bind (chat_bootstrap dc denv local_addr (co_bootstrap opts) (co_bind opts)) (\<lambda>node.
          act_return (Inr (BootstrapNode node)))
      | JoinCommand join_opts \<Rightarrow>
          try_bind (chat_join tenv uenv denv dc menv b2 senv chat other hex_encode random
              (co_bootstrap opts) (jo_topics join_opts) (jo_name join_opts)) (\<lambda>joined.
          act_return (Inr (Joined joined))))"

subsection \<open>Steps of the program\<close>

datatype 'a chat_event =
    SwarmItem "'a connection io_result option" | Saved | Polled nat | RemovedPeer nat
  | Forwarded nat | Line string

inductive chat_step ::
  "('a, 'r, 'x, 'q, 'i) hyperchat_env \<Rightarrow> ('a, 'r, 'x, 'q, 'i) hyper_broadcast \<Rightarrow> 'a chat_event \<Rightarrow>
     ('a, 'r, 'x, 'q, 'i) hyper_broadcast \<Rightarrow> bool"
  for env where
  swarm_item: "hb_run s = Accepting \<Longrightarrow> chat_step env s (SwarmItem item) (accept_stream env item s)"
| saved: "hb_run s = Saving p \<Longrightarrow> chat_step env s Saved (save_peer p s)"
| polled: "i < length (hb_tasks s) \<Longrightarrow> ct_state (hb_tasks s ! i) = Running \<Longrightarrow>
    poll_connection env i s = ret s' \<Longrightarrow> chat_step env s (Polled i) s'"
| removed: "i < length (hb_tasks s) \<Longrightarrow> ct_state (hb_tasks s ! i) = Failing \<Longrightarrow>
    chat_step env s (RemovedPeer i) (remove_peer env i s)"
| forwarded: "i < length (hb_tasks s) \<Longrightarrow> forward_message env i s = ret s' \<Longrightarrow>
    chat_step env s (Forwarded i) s'"
| line: "stdin_turn env (Inr l) s = ret s' \<Longrightarrow> chat_step env s (Line l) s'"

inductive_cases chat_stepE [elim!]:
  "chat_step env s (SwarmItem item) s'" "chat_step env s Saved s'" "chat_step env s (Polled i) s'"
  "chat_step env s (RemovedPeer i) s'" "chat_step env s (Forwarded i) s'" "chat_step env s (Line l) s'"

inductive chat_exec ::
  "('a, 'r, 'x, 'q, 'i) hyperchat_env \<Rightarrow> ('a, 'r, 'x, 'q, 'i) hyper_broadcast \<Rightarrow> 'a chat_event list \<Rightarrow>
     ('a, 'r, 'x, 'q, 'i) hyper_broadcast \<Rightarrow> bool"
  for env s where
  start: "chat_exec env s [] s"
| step: "chat_exec env s events s1 \<Longrightarrow> chat_step env s1 e s2 \<Longrightarrow> chat_exec env s (events @ [e]) s2"

text \<open>The lines read after the \<open>i\<close>-th connection was saved, in order.\<close>

fun lines_after :: "nat \<Rightarrow> 'a chat_event list \<Rightarrow> string list" where
  "lines_after i [] = []"
| "lines_after i (Saved # events) =
     (case i of
        0 \<Rightarrow> concat (map (\<lambda>e. case e of Line l \<Rightarrow> [l] | _ \<Rightarrow> []) events)
      | Suc j \<Rightarrow> lines_after j events)"
| "lines_after i (_ # events) = lines_after i events"

end
