(* ===== verification/Chat_Execution.thy ===== *)
theory Chat_Execution
  imports Hyperchat
begin

section \<open>Executions of the chat\<close>

text \<open>
  What holds in every execution of \<open>Hyperchat\<close>: what sending and removing do to the tasks, the
  invariant \<open>chat_wf\<close> with one lemma per kind of step, the tasks that are over, and the properties of
  the chat, its command line and its printing included.
\<close>

lemma lines_after_none: "count_list events Saved \<le> i \<Longrightarrow> lines_after i events = []"
  by (induction i events rule: lines_after.induct) (auto split: nat.splits)

lemma lines_after_snoc:
  "lines_after i (events @ [e]) =
     lines_after i events @ (case e of Line l \<Rightarrow> if i < count_list events Saved then [l] else [] | _ \<Rightarrow> [])"
  by (induction i events rule: lines_after.induct) (auto split: nat.splits chat_event.splits)

lemma count_list_snoc: "count_list (xs @ [x]) y = count_list xs y + (if x = y then 1 else 0)"
  by simp

subsection \<open>What sending and removing do to the tasks\<close>

lemma send_message_task:
  assumes "channel_laws (ce_channel (hc_chat env)) contents closed" and "peer_outbound_tx p < length tasks"
    and "\<not> closed (cl_outbound (ct_loop (tasks ! peer_outbound_tx p)))"
  shows "\<exists>q. send_message env m p tasks =
      (tasks[peer_outbound_tx p := set_outbound q (tasks ! peer_outbound_tx p)], Inr ()) \<and>
    contents q = contents (cl_outbound (ct_loop (tasks ! peer_outbound_tx p))) @ [string_bytes m] \<and> \<not> closed q"
  using channel_lawsD(3) [OF assms(1,3), of "string_bytes m"] by (auto simp: send_message_def Let_def)

lemma send_message_closed:
  assumes "channel_laws (ce_channel (hc_chat env)) contents closed"
    and "closed (cl_outbound (ct_loop (tasks ! peer_outbound_tx p)))"
  shows "send_message env m p tasks = (tasks, Inl ChatSend)"
  using channel_lawsD(4) [OF assms, of "string_bytes m"] by (simp add: send_message_def Let_def)

text \<open>A send keeps the rest of a task, and a task that it is not for.\<close>

definition same_task :: "('a, 'r, 'x, 'q) chat_task \<Rightarrow> ('a, 'r, 'x, 'q) chat_task \<Rightarrow> bool" where
  "same_task t t' \<longleftrightarrow> (\<exists>q. t' = set_outbound q t)"

lemma same_task_simps:
  assumes "same_task t t'"
  shows "ct_peer_id t' = ct_peer_id t" "ct_state t' = ct_state t"
    "cl_inbound (ct_loop t') = cl_inbound (ct_loop t)"
  using assms by (auto simp: same_task_def)

lemma same_task_refl: "same_task t t"
  unfolding same_task_def by (rule exI [of _ "cl_outbound (ct_loop t)"]) simp

lemma same_task_trans: "same_task t t' \<Longrightarrow> same_task t' t'' \<Longrightarrow> same_task t t''"
  by (auto simp: same_task_def)

lemma same_task_update: "i < length ts \<Longrightarrow> same_task (ts ! i) (ts[j := set_outbound q (ts ! j)] ! i)"
  using same_task_refl by (cases "i = j") (auto simp: same_task_def)

lemma send_message_rest:
  "length (fst (send_message env m p tasks)) = length tasks"
  "i \<noteq> peer_outbound_tx p \<Longrightarrow> fst (send_message env m p tasks) ! i = tasks ! i"
  "i < length tasks \<Longrightarrow> same_task (tasks ! i) (fst (send_message env m p tasks) ! i)"
  by (simp_all add: send_message_def Let_def same_task_update case_prod_unfold)

lemma drop_sender_rest:
  "length (drop_sender env p tasks) = length tasks"
  "i \<noteq> peer_outbound_tx p \<Longrightarrow> drop_sender env p tasks ! i = tasks ! i"
  "i < length tasks \<Longrightarrow> same_task (tasks ! i) (drop_sender env p tasks ! i)"
  by (simp_all add: drop_sender_def Let_def same_task_update)

lemma broadcast_loop_rest:
  "length (broadcast_loop env m ps tasks) = length tasks"
  "i \<notin> set (map peer_outbound_tx ps) \<Longrightarrow> broadcast_loop env m ps tasks ! i = tasks ! i"
  "i < length tasks \<Longrightarrow> same_task (tasks ! i) (broadcast_loop env m ps tasks ! i)"
proof -
  show "length (broadcast_loop env m ps tasks) = length tasks"
    by (induction ps arbitrary: tasks) (simp_all add: case_prod_unfold send_message_rest)
  show "i \<notin> set (map peer_outbound_tx ps) \<Longrightarrow> broadcast_loop env m ps tasks ! i = tasks ! i"
    by (induction ps arbitrary: tasks) (simp_all add: case_prod_unfold send_message_rest)
  show "i < length tasks \<Longrightarrow> same_task (tasks ! i) (broadcast_loop env m ps tasks ! i)"
    by (induction ps arbitrary: tasks)
       (simp_all add: case_prod_unfold same_task_refl, metis same_task_trans send_message_rest(1,3))
qed

lemma drop_senders_rest:
  "length (fold (drop_sender env) ps tasks) = length tasks"
  "i \<notin> set (map peer_outbound_tx ps) \<Longrightarrow> fold (drop_sender env) ps tasks ! i = tasks ! i"
  "i < length tasks \<Longrightarrow> same_task (tasks ! i) (fold (drop_sender env) ps tasks ! i)"
proof -
  show "length (fold (drop_sender env) ps tasks) = length tasks"
    by (induction ps arbitrary: tasks) (simp_all add: drop_sender_rest)
  show "i \<notin> set (map peer_outbound_tx ps) \<Longrightarrow> fold (drop_sender env) ps tasks ! i = tasks ! i"
    by (induction ps arbitrary: tasks) (simp_all add: drop_sender_rest)
  show "i < length tasks \<Longrightarrow> same_task (tasks ! i) (fold (drop_sender env) ps tasks ! i)"
    by (induction ps arbitrary: tasks)
       (simp_all add: same_task_refl, metis same_task_trans drop_sender_rest(1,3))
qed

lemmas same_tasks =
  broadcast_loop_rest(3) [THEN same_task_simps(1)] broadcast_loop_rest(3) [THEN same_task_simps(2)]
  drop_senders_rest(3) [THEN same_task_simps(1)] drop_senders_rest(3) [THEN same_task_simps(2)]

text \<open>A broadcast reaches each open connection among its peers once, if they have one each.\<close>

lemma broadcast_loop_task:
  assumes "channel_laws (ce_channel (hc_chat env)) contents closed" and "distinct (map peer_outbound_tx ps)"
    and "p \<in> set ps" and "peer_outbound_tx p < length tasks"
    and "\<not> closed (cl_outbound (ct_loop (tasks ! peer_outbound_tx p)))"
  shows "\<exists>q. broadcast_loop env m ps tasks ! peer_outbound_tx p = set_outbound q (tasks ! peer_outbound_tx p) \<and>
    contents q = contents (cl_outbound (ct_loop (tasks ! peer_outbound_tx p))) @ [string_bytes m] \<and> \<not> closed q"
  using assms(2-)
proof (induction ps arbitrary: tasks)
  case (Cons p' ps)
  show ?case
  proof (cases "p' = p")
    case True
    with Cons.prems have "peer_outbound_tx p \<notin> set (map peer_outbound_tx ps)" by simp
    with True send_message_task [OF assms(1) Cons.prems(3,4), of m] Cons.prems(3) show ?thesis
      by (auto simp: case_prod_unfold broadcast_loop_rest)
  next
    case False
    with Cons.prems(2) have "p \<in> set ps" by simp
    with Cons.prems(1) have "peer_outbound_tx p \<noteq> peer_outbound_tx p'" by (auto simp: rev_image_eqI)
    with \<open>p \<in> set ps\<close> Cons.IH [of "fst (send_message env m p' tasks)"] Cons.prems show ?thesis
      by (simp add: case_prod_unfold send_message_rest)
  qed
qed simp

subsection \<open>The invariant of an execution\<close>

definition active_peers :: "('a, 'r, 'x, 'q, 'i) hyper_broadcast \<Rightarrow> peer list" where
  "active_peers s = hb_peers s @ (case hb_run s of Saving p \<Rightarrow> [p] | _ \<Rightarrow> [])"

text \<open>
  What is promised of a peer, in terms of its task: it has the peer's name, and while it runs its
  channel is open and it has been given the initial message and the lines since the peer was saved.
\<close>

definition task_ok ::
  "('a connection \<Rightarrow> bytes) \<Rightarrow> ('x \<Rightarrow> bytes) \<Rightarrow> ('q \<Rightarrow> bytes list) \<Rightarrow> ('q \<Rightarrow> bool) \<Rightarrow> bytes list \<Rightarrow> string \<Rightarrow>
     ('a, 'r, 'x, 'q) chat_task \<Rightarrow> bool" where
  "task_ok output left contents closed messages name t \<longleftrightarrow>
     ct_peer_id t = name \<and>
     (ct_state t = Running \<longrightarrow> \<not> closed (cl_outbound (ct_loop t)) \<and>
        to_send output left contents (ct_loop t) = concat (map frame messages))"

definition peer_ok ::
  "('a connection \<Rightarrow> bytes) \<Rightarrow> ('x \<Rightarrow> bytes) \<Rightarrow> ('q \<Rightarrow> bytes list) \<Rightarrow> ('q \<Rightarrow> bool) \<Rightarrow> bytes \<Rightarrow>
     'a chat_event list \<Rightarrow> ('a, 'r, 'x, 'q) chat_task list \<Rightarrow> peer \<Rightarrow> bool" where
  "peer_ok output left contents closed initial events tasks p \<longleftrightarrow>
     peer_outbound_tx p < length tasks \<and>
     task_ok output left contents closed
       (initial # map string_bytes (lines_after (peer_outbound_tx p) events)) (peer_id p)
       (tasks ! peer_outbound_tx p)"

definition chat_wf ::
  "('a connection \<Rightarrow> bytes) \<Rightarrow> ('x \<Rightarrow> bytes) \<Rightarrow> ('q \<Rightarrow> bytes list) \<Rightarrow> ('q \<Rightarrow> bool) \<Rightarrow> ('i \<Rightarrow> bool) \<Rightarrow> bytes \<Rightarrow>
     'a chat_event list \<Rightarrow> ('a, 'r, 'x, 'q, 'i) hyper_broadcast \<Rightarrow> bool" where
  "chat_wf output left contents closed iclosed initial events s \<longleftrightarrow>
     hb_initial_message s = initial \<and> \<not> iclosed (hb_incoming s) \<and>
     distinct (map peer_outbound_tx (active_peers s)) \<and>
     (\<forall>p \<in> set (active_peers s). peer_ok output left contents closed initial events (hb_tasks s) p) \<and>
     (case hb_run s of
        Saving p \<Rightarrow> peer_outbound_tx p = count_list events Saved \<and>
          length (hb_tasks s) = Suc (count_list events Saved)
      | _ \<Rightarrow> length (hb_tasks s) = count_list events Saved)"

definition hyperchat_laws ::
  "('a, 'r, 'x, 'q, 'i) hyperchat_env \<Rightarrow> ('a connection \<Rightarrow> bytes) \<Rightarrow> ('x \<Rightarrow> bytes) \<Rightarrow> ('q \<Rightarrow> bytes list) \<Rightarrow>
     ('q \<Rightarrow> bool) \<Rightarrow> ('i \<Rightarrow> incoming_message list) \<Rightarrow> ('i \<Rightarrow> bool) \<Rightarrow> bool" where
  "hyperchat_laws env output left contents closed icontents iclosed \<longleftrightarrow>
     chat_write_laws (hc_chat env) output left \<and>
     channel_laws (ce_channel (hc_chat env)) contents closed \<and>
     channel_laws (hc_incoming env) icontents iclosed"

lemma hyperchat_lawsD:
  assumes "hyperchat_laws env output left contents closed icontents iclosed"
  shows "chat_write_laws (hc_chat env) output left"
    and "channel_laws (ce_channel (hc_chat env)) contents closed"
    and "channel_laws (hc_incoming env) icontents iclosed"
  using assms by (simp_all add: hyperchat_laws_def)

lemma task_ok_same_task:
  assumes "same_task t t'" and "ct_state t \<noteq> Running"
    and "task_ok output left contents closed messages name t"
  shows "task_ok output left contents closed messages' name t'"
  using assms same_task_simps [OF assms(1)] by (simp add: task_ok_def)

lemma task_ok_sent:
  assumes "task_ok output left contents closed messages name t"
    and "\<not> closed (cl_outbound (ct_loop t))" and "\<not> closed q" and "contents q = contents (cl_outbound (ct_loop t)) @ [m]"
  shows "task_ok output left contents closed (messages @ [m]) name (set_outbound q t)"
  using assms by (auto simp: task_ok_def to_send_def)

lemma distinct_map_other:
  "distinct (map f xs) \<Longrightarrow> x \<in> set xs \<Longrightarrow> set ys \<subseteq> set xs \<Longrightarrow> x \<notin> set ys \<Longrightarrow> f x \<notin> set (map f ys)"
  by (auto simp: distinct_map inj_on_def)

text \<open>One lemma per kind of step.\<close>

lemma chat_wf_accept:
  assumes laws: "hyperchat_laws env output left contents closed icontents iclosed"
    and wf: "chat_wf output left contents closed iclosed initial events s"
    and run: "hb_run s = Accepting" and fresh: "\<And>c. item = Some (Inr c) \<Longrightarrow> output c = []"
  shows "chat_wf output left contents closed iclosed initial (events @ [SwarmItem item]) (accept_stream env item s)"
proof -
  note chan = hyperchat_lawsD(2) [OF laws]
  consider "item = None" | e where "item = Some (Inl e)" | c where "item = Some (Inr c)"
    by (metis option.exhaust sum.exhaust)
  then show ?thesis
  proof cases
    case 3
    let ?ch = "ce_channel (hc_chat env)"
    from channel_lawsD(3) [OF chan channel_lawsD(2) [OF chan], of initial] channel_lawsD(1) [OF chan]
    obtain q where q: "ch_try_send ?ch initial (ch_unbounded ?ch) = (q, Inr ())"
      "contents q = [initial]" "\<not> closed q" by auto
    let ?p = "\<lparr>peer_outbound_tx = length (hb_tasks s), peer_addr = conn_peer_addr c, peer_protocol = conn_protocol c\<rparr>"
    from wf q run 3 have s': "accept_stream env item s =
        s\<lparr>hb_tasks := hb_tasks s @ [\<lparr>ct_peer_id = peer_id ?p,
            ct_loop = chat_start (hc_chat env) c (ch_unbounded ?ch) q, ct_state = Running\<rparr>],
          hb_run := Saving ?p\<rparr>"
      by (simp add: accept_stream_def chat_wf_def Let_def)
    from wf run have count: "length (hb_tasks s) = count_list events Saved" by (simp add: chat_wf_def)
    have old: "peer_ok output left contents closed initial (events @ [SwarmItem item]) (hb_tasks s @ ts) p"
      if "p \<in> set (hb_peers s)" for p ts
      using wf run that by (auto simp: chat_wf_def active_peers_def peer_ok_def lines_after_snoc nth_append)
    have new: "peer_ok output left contents closed initial (events @ [SwarmItem item]) (hb_tasks (accept_stream env item s)) ?p"
      using fresh [OF 3] q lines_after_none [of events "length (hb_tasks s)"] count [symmetric]
      by (simp add: s' peer_ok_def task_ok_def lines_after_snoc to_send_def chat_start_def)
    have refs: "length (hb_tasks s) \<noteq> peer_outbound_tx p" if "p \<in> set (hb_peers s)" for p
      using wf that by (auto simp: chat_wf_def active_peers_def peer_ok_def)
    show ?thesis
      using wf run count new old refs by (auto simp: chat_wf_def active_peers_def s')
  qed (use wf run in \<open>auto simp: chat_wf_def active_peers_def accept_stream_def peer_ok_def lines_after_snoc\<close>)
qed

lemma chat_wf_save:
  assumes "chat_wf output left contents closed iclosed initial events s" and "hb_run s = Saving p"
  shows "chat_wf output left contents closed iclosed initial (events @ [Saved]) (save_peer p s)"
  using assms by (auto simp: chat_wf_def active_peers_def save_peer_def peer_ok_def lines_after_snoc)

text \<open>A step that only changes one task, and keeps what is promised of it.\<close>

lemma chat_wf_task:
  assumes wf: "chat_wf output left contents closed iclosed initial events s" and "i < length (hb_tasks s)"
    and "\<And>messages name. task_ok output left contents closed messages name (hb_tasks s ! i) \<Longrightarrow>
      task_ok output left contents closed messages name t"
    and "\<And>k. lines_after k (events @ [e]) = lines_after k events" and "e \<noteq> Saved" and "\<not> iclosed q"
  shows "chat_wf output left contents closed iclosed initial (events @ [e])
    (s\<lparr>hb_tasks := (hb_tasks s)[i := t], hb_incoming := q\<rparr>)"
  using assms by (auto simp: chat_wf_def active_peers_def peer_ok_def nth_list_update split: run_state.splits)

lemma chat_wf_poll:
  assumes laws: "hyperchat_laws env output left contents closed icontents iclosed"
    and wf: "chat_wf output left contents closed iclosed initial events s"
    and "i < length (hb_tasks s)" and "ct_state (hb_tasks s ! i) = Running" and "poll_connection env i s = ret s'"
  shows "chat_wf output left contents closed iclosed initial (events @ [Polled i]) s'"
proof -
  from assms(5) obtain l result where loop: "connection_loop (hc_chat env) (ct_loop (hb_tasks s ! i)) = ret (l, result)"
    by (auto simp: poll_connection_def Let_def run_simps)
  let ?t = "after_poll env (hb_tasks s ! i) l result"
  have "s' = s\<lparr>hb_tasks := (hb_tasks s)[i := ?t]\<rparr>"
    using assms(5) loop by (auto simp: poll_connection_def Let_def)
  also have "\<dots> = s\<lparr>hb_tasks := (hb_tasks s)[i := ?t], hb_incoming := hb_incoming s\<rparr>"
    by (rule hyper_broadcast.equality) simp_all
  finally have s': "s' = s\<lparr>hb_tasks := (hb_tasks s)[i := ?t], hb_incoming := hb_incoming s\<rparr>" .
  have "task_ok output left contents closed messages name ?t"
    if ok: "task_ok output left contents closed messages name (hb_tasks s ! i)" for messages name
  proof (cases result)
    case Pending
    with loop have "connection_loop (hc_chat env) (ct_loop (hb_tasks s ! i)) = ret (l, Pending)" by simp
    from connection_loop_to_send [OF this hyperchat_lawsD(1,2) [OF laws]] ok assms(4) Pending
    show ?thesis by (simp add: task_ok_def)
  next
    case (Ready r)
    with ok show ?thesis by (cases r) (simp_all add: task_ok_def)
  qed
  moreover have "\<not> iclosed (hb_incoming s)" using wf by (simp add: chat_wf_def)
  ultimately show ?thesis
    unfolding s' using wf assms(3) by (intro chat_wf_task) (simp_all add: lines_after_snoc)
qed

lemma chat_wf_remove:
  assumes wf: "chat_wf output left contents closed iclosed initial events s"
    and "i < length (hb_tasks s)" and "ct_state (hb_tasks s ! i) = Failing"
  shows "chat_wf output left contents closed iclosed initial (events @ [RemovedPeer i]) (remove_peer env i s)"
proof -
  let ?gone = "filter (\<lambda>p. peer_id p = ct_peer_id (hb_tasks s ! i)) (hb_peers s)"
  let ?tasks = "fold (drop_sender env) ?gone (hb_tasks s)"
  let ?s' = "remove_peer env i s"
  have s': "hb_peers ?s' = filter (\<lambda>p. peer_id p \<noteq> ct_peer_id (hb_tasks s ! i)) (hb_peers s)"
    "hb_tasks ?s' = ?tasks[i := (?tasks ! i)\<lparr>ct_state := Ended\<rparr>]" "hb_run ?s' = hb_run s"
    "hb_initial_message ?s' = hb_initial_message s" "hb_incoming ?s' = hb_incoming s"
    by (simp_all add: remove_peer_def Let_def)
  have dist: "distinct (map peer_outbound_tx (active_peers s))" using wf by (simp add: chat_wf_def)
  have "peer_ok output left contents closed initial (events @ [RemovedPeer i]) (hb_tasks ?s') p"
    if p: "p \<in> set (active_peers ?s')" for p
  proof -
    have active: "p \<in> set (active_peers s)" using p by (auto simp: active_peers_def s' split: run_state.splits)
    have "p \<notin> set ?gone"
      using p dist by (auto simp: active_peers_def s' split: run_state.splits)
    moreover have "set ?gone \<subseteq> set (active_peers s)" by (auto simp: active_peers_def)
    ultimately have other: "peer_outbound_tx p \<notin> set (map peer_outbound_tx ?gone)"
      using distinct_map_other [OF dist active] by blast
    from active wf have ok: "peer_ok output left contents closed initial events (hb_tasks s) p"
      by (simp add: chat_wf_def)
    with drop_senders_rest(1) [of env ?gone "hb_tasks s"] drop_senders_rest(2) [OF other, of env "hb_tasks s"]
      assms(3)
    show ?thesis
      by (cases "peer_outbound_tx p = i") (auto simp: peer_ok_def s' lines_after_snoc task_ok_def)
  qed
  moreover have "distinct (map peer_outbound_tx (active_peers ?s'))"
    using dist by (auto simp: active_peers_def s' distinct_map_filter split: run_state.splits)
  ultimately show ?thesis
    using wf by (auto simp: chat_wf_def s' drop_senders_rest split: run_state.splits)
qed

lemma forward_message_cases:
  assumes laws: "hyperchat_laws env output left contents closed icontents iclosed"
    and "\<not> iclosed (hb_incoming s)"
  shows "\<exists>inbound incoming. forward_message env i s =
      ret (s\<lparr>hb_tasks := (hb_tasks s)[i := set_inbound inbound (hb_tasks s ! i)], hb_incoming := incoming\<rparr>) \<and>
    \<not> iclosed incoming \<and>
    (case contents (cl_inbound (ct_loop (hb_tasks s ! i))) of
       [] \<Rightarrow> contents inbound = [] \<and> icontents incoming = icontents (hb_incoming s)
     | m # ms \<Rightarrow> contents inbound = ms \<and> icontents incoming =
         icontents (hb_incoming s) @ [\<lparr>im_from = ct_peer_id (hb_tasks s ! i), im_content = m\<rparr>])"
proof (cases "contents (cl_inbound (ct_loop (hb_tasks s ! i)))")
  case Nil
  from channel_lawsD(6) [OF hyperchat_lawsD(2) [OF laws] Nil] obtain q p where
    q: "ch_poll_next (ce_channel (hc_chat env)) (cl_inbound (ct_loop (hb_tasks s ! i))) = (q, p)"
      "contents q = []" "p = Pending \<or> p = Ready None" by (auto split: if_splits)
  then have "forward_message env i s =
      ret (s\<lparr>hb_tasks := (hb_tasks s)[i := set_inbound q (hb_tasks s ! i)], hb_incoming := hb_incoming s\<rparr>)"
    by (auto simp: forward_message_def Let_def)
  with Nil q assms(2) show ?thesis by (intro exI [of _ q] exI [of _ "hb_incoming s"]) simp
next
  case (Cons m ms)
  from channel_lawsD(5) [OF hyperchat_lawsD(2) [OF laws] Cons] obtain q where
    q: "ch_poll_next (ce_channel (hc_chat env)) (cl_inbound (ct_loop (hb_tasks s ! i))) = (q, Ready (Some m))"
      "contents q = ms" by blast
  from channel_lawsD(3) [OF hyperchat_lawsD(3) [OF laws] assms(2),
      of "\<lparr>im_from = ct_peer_id (hb_tasks s ! i), im_content = m\<rparr>"] obtain incoming where
    "ch_try_send (hc_incoming env) \<lparr>im_from = ct_peer_id (hb_tasks s ! i), im_content = m\<rparr> (hb_incoming s) =
      (incoming, Inr ())" "\<not> iclosed incoming"
    "icontents incoming = icontents (hb_incoming s) @ [\<lparr>im_from = ct_peer_id (hb_tasks s ! i), im_content = m\<rparr>]"
    by blast
  with q Cons show ?thesis
    by (intro exI [of _ q] exI [of _ incoming]) (simp add: forward_message_def Let_def)
qed

lemma chat_wf_forward:
  assumes laws: "hyperchat_laws env output left contents closed icontents iclosed"
    and wf: "chat_wf output left contents closed iclosed initial events s"
    and "i < length (hb_tasks s)" and "forward_message env i s = ret s'"
  shows "chat_wf output left contents closed iclosed initial (events @ [Forwarded i]) s'"
proof -
  have "\<not> iclosed (hb_incoming s)" using wf by (simp add: chat_wf_def)
  from forward_message_cases [OF laws this, of i] assms(4) obtain inbound incoming where
    s': "s' = s\<lparr>hb_tasks := (hb_tasks s)[i := set_inbound inbound (hb_tasks s ! i)], hb_incoming := incoming\<rparr>"
    and "\<not> iclosed incoming" by auto
  then show ?thesis
    unfolding s' using wf assms(3)
    by (intro chat_wf_task) (simp_all add: lines_after_snoc task_ok_def to_send_def)
qed

lemma chat_wf_line:
  assumes laws: "hyperchat_laws env output left contents closed icontents iclosed"
    and wf: "chat_wf output left contents closed iclosed initial events s"
  shows "chat_wf output left contents closed iclosed initial (events @ [Line l]) (broadcast env l s)"
proof -
  let ?s' = "broadcast env l s"
  have dist: "distinct (map peer_outbound_tx (active_peers s))"
    and ok: "\<And>p. p \<in> set (active_peers s) \<Longrightarrow> peer_ok output left contents closed initial events (hb_tasks s) p"
    using wf by (simp_all add: chat_wf_def)
  have "peer_ok output left contents closed initial (events @ [Line l]) (hb_tasks ?s') p"
    if p: "p \<in> set (active_peers s)" for p
  proof (cases "p \<in> set (hb_peers s)")
    case True
    let ?i = "peer_outbound_tx p"
    from ok [OF p] have i: "?i < length (hb_tasks s)"
      and t: "task_ok output left contents closed (initial # map string_bytes (lines_after ?i events)) (peer_id p)
        (hb_tasks s ! ?i)" by (simp_all add: peer_ok_def)
    have "?i < count_list events Saved"
    proof (cases "hb_run s")
      case (Saving p')
      with dist have "peer_outbound_tx p' \<notin> peer_outbound_tx ` set (hb_peers s)" by (simp add: active_peers_def)
      with True have "?i \<noteq> peer_outbound_tx p'" by (metis image_eqI)
      with i wf Saving show ?thesis by (simp add: chat_wf_def)
    qed (use i wf in \<open>simp_all add: chat_wf_def\<close>)
    then have lines: "lines_after ?i (events @ [Line l]) = lines_after ?i events @ [l]"
      by (simp add: lines_after_snoc)
    show ?thesis
    proof (cases "ct_state (hb_tasks s ! ?i) = Running")
      case running: True
      with t have "\<not> closed (cl_outbound (ct_loop (hb_tasks s ! ?i)))" by (simp add: task_ok_def)
      with broadcast_loop_task [OF hyperchat_lawsD(2) [OF laws] _ True i, of l] dist obtain q where
        "hb_tasks ?s' ! ?i = set_outbound q (hb_tasks s ! ?i)" "\<not> closed q"
        "contents q = contents (cl_outbound (ct_loop (hb_tasks s ! ?i))) @ [string_bytes l]"
        by (auto simp: active_peers_def broadcast_def)
      with task_ok_sent [OF t] \<open>\<not> closed (cl_outbound _)\<close> i lines show ?thesis
        by (simp add: peer_ok_def broadcast_def broadcast_loop_rest)
    next
      case False
      with task_ok_same_task [OF broadcast_loop_rest(3) [OF i] False t] i show ?thesis
        by (simp add: peer_ok_def broadcast_def broadcast_loop_rest)
    qed
  next
    case False
    with p have run: "hb_run s = Saving p" by (auto simp: active_peers_def split: run_state.splits)
    with dist have "peer_outbound_tx p \<notin> set (map peer_outbound_tx (hb_peers s))"
      by (auto simp: active_peers_def)
    with ok [OF p] run wf show ?thesis
      by (simp add: peer_ok_def broadcast_def broadcast_loop_rest lines_after_snoc chat_wf_def)
  qed
  moreover have "active_peers ?s' = active_peers s" by (simp add: active_peers_def broadcast_def)
  ultimately show ?thesis
    using wf by (auto simp: chat_wf_def broadcast_def broadcast_loop_rest split: run_state.splits)
qed

lemma chat_wf_start:
  assumes "hyperchat_laws env output left contents closed icontents iclosed"
  shows "chat_wf output left contents closed iclosed initial [] (broadcast_new env initial)"
  using channel_lawsD(2) [OF hyperchat_lawsD(3) [OF assms]]
  by (simp add: chat_wf_def broadcast_new_def active_peers_def)

lemma chat_wf_step:
  assumes laws: "hyperchat_laws env output left contents closed icontents iclosed"
    and "chat_wf output left contents closed iclosed initial events s" and "chat_step env s e s'"
    and "\<And>c. e = SwarmItem (Some (Inr c)) \<Longrightarrow> output c = []"
  shows "chat_wf output left contents closed iclosed initial (events @ [e]) s'"
  using assms(3)
proof cases
  case (line l)
  then have "s' = broadcast env l s" by (simp add: stdin_turn_def)
  with line assms chat_wf_line [OF laws assms(2)] show ?thesis by simp
qed (use assms chat_wf_accept [OF laws] chat_wf_save chat_wf_poll [OF laws] chat_wf_remove chat_wf_forward [OF laws]
    in \<open>simp_all\<close>)

lemma chat_wf_exec:
  assumes "chat_exec env s0 events s" and "s0 = broadcast_new env initial"
    and "hyperchat_laws env output left contents closed icontents iclosed"
    and "\<forall>c. SwarmItem (Some (Inr c)) \<in> set events \<longrightarrow> output c = []"
  shows "chat_wf output left contents closed iclosed initial events s"
  using assms
proof (induction rule: chat_exec.induct)
  case start
  with chat_wf_start show ?case by blast
next
  case (step events s1 e s2)
  then show ?case by (intro chat_wf_step [OF step.prems(2)]) auto
qed

subsection \<open>Connections that are over\<close>

lemma drop_senders_close:
  assumes "channel_laws (ce_channel (hc_chat env)) contents closed" and "distinct (map peer_outbound_tx ps)"
    and "p \<in> set ps" and "peer_outbound_tx p < length tasks"
  shows "\<exists>q. fold (drop_sender env) ps tasks ! peer_outbound_tx p = set_outbound q (tasks ! peer_outbound_tx p) \<and>
    contents q = contents (cl_outbound (ct_loop (tasks ! peer_outbound_tx p))) \<and> closed q"
  using assms(2-)
proof (induction ps arbitrary: tasks)
  case (Cons p' ps)
  show ?case
  proof (cases "p' = p")
    case True
    with Cons.prems have "peer_outbound_tx p \<notin> set (map peer_outbound_tx ps)" by simp
    moreover have "drop_sender env p tasks ! peer_outbound_tx p = set_outbound
        (ch_close (ce_channel (hc_chat env)) (cl_outbound (ct_loop (tasks ! peer_outbound_tx p)))) (tasks ! peer_outbound_tx p)"
      using Cons.prems(3) by (simp add: drop_sender_def Let_def)
    ultimately show ?thesis using True channel_lawsD(7,8) [OF assms(1)]
      by (auto simp: drop_senders_rest)
  next
    case False
    with Cons.prems(2) have "p \<in> set ps" by simp
    with Cons.prems(1) have "peer_outbound_tx p \<noteq> peer_outbound_tx p'" by (auto simp: rev_image_eqI)
    with \<open>p \<in> set ps\<close> Cons.IH [of "drop_sender env p' tasks"] Cons.prems show ?thesis
      by (simp add: drop_sender_rest)
  qed
qed simp

text \<open>A task outside its loop stays outside it, with its name, and its channel stays closed.\<close>

lemma send_message_keeps_closed:
  assumes "channel_laws (ce_channel (hc_chat env)) contents closed"
    and "closed (cl_outbound (ct_loop (tasks ! i)))"
  shows "closed (cl_outbound (ct_loop (fst (send_message env m p tasks) ! i)))"
  using send_message_closed [OF assms(1), of tasks p m] assms(2)
  by (cases "i = peer_outbound_tx p") (simp_all add: send_message_rest)

lemma broadcast_loop_keeps_closed:
  assumes "channel_laws (ce_channel (hc_chat env)) contents closed"
    and "closed (cl_outbound (ct_loop (tasks ! i)))"
  shows "closed (cl_outbound (ct_loop (broadcast_loop env m ps tasks ! i)))"
  using assms(2)
  by (induction ps arbitrary: tasks) (simp_all add: case_prod_unfold send_message_keeps_closed [OF assms(1)])

lemma drop_sender_keeps_closed:
  assumes "channel_laws (ce_channel (hc_chat env)) contents closed"
    and "closed (cl_outbound (ct_loop (tasks ! i)))" and "i < length tasks"
  shows "closed (cl_outbound (ct_loop (drop_sender env p tasks ! i)))"
  using assms(2,3) channel_lawsD(7) [OF assms(1)]
  by (cases "i = peer_outbound_tx p") (simp_all add: drop_sender_def Let_def)

lemma drop_senders_keep_closed:
  assumes "channel_laws (ce_channel (hc_chat env)) contents closed"
    and "closed (cl_outbound (ct_loop (tasks ! i)))" and "i < length tasks"
  shows "closed (cl_outbound (ct_loop (fold (drop_sender env) ps tasks ! i)))"
  using assms(2,3)
  by (induction ps arbitrary: tasks)
     (simp_all add: drop_sender_keeps_closed [OF assms(1)] drop_sender_rest)

definition over :: "('q \<Rightarrow> bool) \<Rightarrow> ('a, 'r, 'x, 'q) chat_task \<Rightarrow> bool" where
  "over closed t \<longleftrightarrow> ct_state t \<noteq> Running \<and> closed (cl_outbound (ct_loop t))"

lemma after_poll_cases [case_names pending failed returned]:
  fixes r :: "(chat_error + unit) poll"
  obtains "r = Pending" | e where "r = Ready (Inl e)" | "r = Ready (Inr ())"
  by (metis (full_types) poll.exhaust sum.exhaust old.unit.exhaust)

lemma chat_step_over:
  assumes laws: "hyperchat_laws env output left contents closed icontents iclosed"
    and step: "chat_step env s e s'" and "i < length (hb_tasks s)"
  shows "i < length (hb_tasks s') \<and> ct_peer_id (hb_tasks s' ! i) = ct_peer_id (hb_tasks s ! i) \<and>
    (over closed (hb_tasks s ! i) \<longrightarrow> over closed (hb_tasks s' ! i)) \<and>
    (ct_state (hb_tasks s ! i) = Running \<and> ct_state (hb_tasks s' ! i) \<noteq> Running \<longrightarrow> over closed (hb_tasks s' ! i))"
  using step
proof cases
  case (swarm_item item)
  with assms(3) show ?thesis
    by (auto simp: accept_stream_def Let_def nth_append split: option.splits sum.splits prod.splits)
next
  case (saved p)
  with assms(3) show ?thesis by (simp add: save_peer_def)
next
  case (polled j)
  then obtain l r where "s' = s\<lparr>hb_tasks := (hb_tasks s)[j := after_poll env (hb_tasks s ! j) l r]\<rparr>"
    by (auto simp: poll_connection_def Let_def run_simps)
  moreover have "ct_peer_id (after_poll env t l r) = ct_peer_id t" for t
    by (cases r rule: after_poll_cases) simp_all
  moreover have "ct_state (after_poll env t l r) \<noteq> Running \<Longrightarrow> ct_state t = Running \<Longrightarrow>
      over closed (after_poll env t l r)" for t
    using channel_lawsD(7) [OF hyperchat_lawsD(2) [OF laws]]
    by (cases r rule: after_poll_cases) (simp_all add: over_def drop_ends_def)
  ultimately show ?thesis
    using assms(3) polled by (cases "j = i") (auto simp: over_def)
next
  case (removed j)
  with assms(3) drop_senders_keep_closed [OF hyperchat_lawsD(2) [OF laws], of "hb_tasks s" i]
  show ?thesis
    by (cases "j = i") (auto simp: remove_peer_def Let_def drop_senders_rest(1) over_def same_tasks)
next
  case (forwarded j)
  then obtain t' where "hb_tasks s' = (hb_tasks s)[j := set_inbound t' (hb_tasks s ! j)]"
    by (auto simp: forward_message_def Let_def run_simps split: prod.splits poll.splits option.splits)
  with assms(3) show ?thesis by (cases "j = i") (auto simp: over_def)
next
  case (line l)
  with assms(3) broadcast_loop_keeps_closed [OF hyperchat_lawsD(2) [OF laws], of "hb_tasks s" i]
  show ?thesis by (auto simp: stdin_turn_def broadcast_def broadcast_loop_rest(1) over_def same_tasks)
qed

lemma chat_step_new_task:
  assumes "chat_step env s e s'" and "i < length (hb_tasks s')" and "\<not> i < length (hb_tasks s)"
  shows "ct_state (hb_tasks s' ! i) = Running"
  using assms(1)
proof cases
  case (swarm_item item)
  with assms(2,3) show ?thesis
    by (auto simp: accept_stream_def Let_def nth_append split: option.splits sum.splits prod.splits)
qed (use assms(2,3) in \<open>auto simp: save_peer_def poll_connection_def remove_peer_def forward_message_def
      stdin_turn_def broadcast_def broadcast_loop_rest(1) drop_senders_rest(1) Let_def run_simps
      split: prod.splits poll.splits option.splits\<close>)

lemma chat_exec_over:
  assumes "chat_exec env s events s'" and "hyperchat_laws env output left contents closed icontents iclosed"
    and "i < length (hb_tasks s)"
  shows "i < length (hb_tasks s') \<and> ct_peer_id (hb_tasks s' ! i) = ct_peer_id (hb_tasks s ! i) \<and>
    (over closed (hb_tasks s ! i) \<longrightarrow> over closed (hb_tasks s' ! i))"
  using assms
proof (induction rule: chat_exec.induct)
  case (step events s1 e s2)
  from step.IH [OF step.prems] chat_step_over [OF step.prems(1) step.hyps(2), of i] show ?case by auto
qed simp

lemma reachable_over:
  assumes "chat_exec env s0 events s" and "s0 = broadcast_new env initial"
    and "hyperchat_laws env output left contents closed icontents iclosed"
    and "i < length (hb_tasks s)" and "ct_state (hb_tasks s ! i) \<noteq> Running"
  shows "over closed (hb_tasks s ! i)"
  using assms
proof (induction rule: chat_exec.induct)
  case (step events s1 e s2)
  from step.prems(4) chat_step_new_task [OF step.hyps(2) step.prems(3)] have i: "i < length (hb_tasks s1)" by blast
  from chat_step_over [OF step.prems(2) step.hyps(2) i] step.IH [OF step.prems(1,2) i] step.prems(4)
  show ?case by blast
qed (simp add: broadcast_new_def)

lemma chat_step_peer:
  assumes "chat_step env s e s'" and "p \<in> set (hb_peers s)"
    and "\<And>i. e = RemovedPeer i \<Longrightarrow> ct_peer_id (hb_tasks s ! i) \<noteq> peer_id p"
  shows "p \<in> set (hb_peers s')"
  using assms(1)
proof cases
  case (swarm_item item)
  with assms(2) show ?thesis
    by (auto simp: accept_stream_def Let_def split: option.splits sum.splits prod.splits)
next
  case (removed i)
  with assms show ?thesis by (auto simp: remove_peer_def Let_def)
qed (use assms(2) in \<open>auto simp: save_peer_def poll_connection_def forward_message_def
      stdin_turn_def broadcast_def Let_def run_simps split: prod.splits poll.splits option.splits\<close>)

lemma chat_step_length:
  assumes "chat_step env s e s'"
  shows "length (hb_tasks s) \<le> length (hb_tasks s')" and "e = RemovedPeer i \<Longrightarrow> i < length (hb_tasks s')"
  using assms
  by (cases; auto simp: accept_stream_def save_peer_def poll_connection_def remove_peer_def forward_message_def
      stdin_turn_def broadcast_def broadcast_loop_rest(1) drop_senders_rest(1) Let_def run_simps
      split: prod.splits poll.splits option.splits sum.splits)+

text \<open>Once \<open>run\<close> is over, it stays over.\<close>

lemma chat_step_finished:
  assumes "chat_step env s e s'" and "hb_run s = Finished r"
  shows "hb_run s' = Finished r"
  using assms(1)
  by (cases; use assms(2) in \<open>auto simp: poll_connection_def remove_peer_def forward_message_def
      stdin_turn_def broadcast_def Let_def run_simps split: prod.splits poll.splits option.splits\<close>)

lemma chat_exec_finished: "chat_exec env s events s' \<Longrightarrow> hb_run s = Finished r \<Longrightarrow> hb_run s' = Finished r"
  by (induction rule: chat_exec.induct) (auto dest: chat_step_finished)

lemma chat_exec_peer:
  assumes "chat_exec env s events s'" and "hyperchat_laws env output left contents closed icontents iclosed"
    and "p \<in> set (hb_peers s)"
    and "\<forall>i. RemovedPeer i \<in> set events \<longrightarrow> ct_peer_id (hb_tasks s' ! i) \<noteq> peer_id p"
  shows "p \<in> set (hb_peers s')"
  using assms
proof (induction rule: chat_exec.induct)
  case (step events s1 e s2)
  have same: "ct_peer_id (hb_tasks s2 ! i) = ct_peer_id (hb_tasks s1 ! i)" if "i < length (hb_tasks s1)" for i
    using chat_step_over [OF step.prems(1) step.hyps(2) that] by blast
  have ended: "i < length (hb_tasks s1)" if "RemovedPeer i \<in> set events" for i
    using step.hyps(1) that
  proof (induction rule: chat_exec.induct)
    case (step events s1 e s2)
    then show ?case using chat_step_length by fastforce
  qed simp
  have "p \<in> set (hb_peers s1)"
    using step.prems same ended by (intro step.IH) auto
  moreover have "ct_peer_id (hb_tasks s1 ! i) \<noteq> peer_id p" if "e = RemovedPeer i" for i
    using step.prems(3) same [of i] step.hyps(2) that by auto
  ultimately show ?case using chat_step_peer [OF step.hyps(2)] by blast
qed simp

text \<open>
  A connection for examples: pieces of input, as those of \<open>chat_script\<close>, whether the peer has closed
  it after them, and what was written to it.
\<close>

definition hyperchat_script ::
  "(bytes list \<times> bool \<times> bytes, nat \<times> bytes, bytes, bytes list \<times> bool, incoming_message list \<times> bool) hyperchat_env" where
  "hyperchat_script =
     \<lparr>hc_chat =
        \<lparr>ce_read_exact = (\<lambda>n. (n, [])),
         ce_read_poll = (\<lambda>r c. case conn_inner c of (pieces, eof, written) \<Rightarrow>
           if eof \<and> pieces = [] then (r, c, Ready (Inl (IoError UnexpectedEof [])))
           else (case ce_read_poll chat_script r pieces of
                   (r', pieces', p) \<Rightarrow> (r', c\<lparr>conn_inner := (pieces', eof, written)\<rparr>, p))),
         ce_write_all = (\<lambda>bs. bs),
         ce_write_poll = (\<lambda>x c. case conn_inner c of (pieces, eof, written) \<Rightarrow>
           (x, c\<lparr>conn_inner := (pieces, eof, written @ x)\<rparr>, Ready (Inr ()))),
         ce_channel = list_channel\<rparr>,
      hc_incoming = list_channel\<rparr>"

abbreviation written :: "(bytes list \<times> bool \<times> bytes) connection \<Rightarrow> bytes" where
  "written c \<equiv> snd (snd (conn_inner c))"

lemma hyperchat_script_laws:
  "hyperchat_laws hyperchat_script written (\<lambda>x. x) fst snd fst snd"
  by (auto simp: hyperchat_laws_def hyperchat_script_def chat_write_laws_def list_channel_laws
      split: prod.splits if_splits)

abbreviation script_connection :: "bytes list \<Rightarrow> bool \<Rightarrow> (bytes list \<times> bool \<times> bytes) connection" where
  "script_connection pieces eof \<equiv>
     connection_new (pieces, eof, []) (SocketV4 (Ipv4Addr 127 0 0 1) 5000) True ''tcp''"

lemmas hyperchat_eval =
  hyperchat_script_def broadcast_new_def accept_stream_def save_peer_def poll_connection_def
  broadcast_def send_message_def stdin_turn_def remove_peer_def drop_sender_def drop_ends_def
  chat_start_def connection_loop_turn chat_turn_def Let_def peer_id_def

text \<open>Executions are built from the front, too.\<close>

lemma chat_exec_trans:
  assumes "chat_exec env s1 events' s2" and "chat_exec env s events s1"
  shows "chat_exec env s (events @ events') s2"
  using assms by (induction rule: chat_exec.induct) (auto simp flip: append_assoc intro: chat_exec.intros)

lemma chat_exec_Cons: "chat_step env s e s1 \<Longrightarrow> chat_exec env s1 events s2 \<Longrightarrow> chat_exec env s (e # events) s2"
  using chat_exec_trans [of env s1 events s2 s "[e]"] chat_exec.step [OF chat_exec.start] by force

text \<open>One execution for examples: a peer connects, is saved, a line is typed and sent.\<close>

abbreviation script_events :: "(bytes list \<times> bool \<times> bytes) chat_event list" where
  "script_events \<equiv> [SwarmItem (Some (Inr (script_connection [[], [1]] False))), Saved, Line ''hi'', Polled 0]"

lemma script_events_fresh: "\<forall>c. SwarmItem (Some (Inr c)) \<in> set script_events \<longrightarrow> written c = []"
  by simp

lemma script_execution:
  obtains s p where "chat_exec hyperchat_script (broadcast_new hyperchat_script [110]) script_events s"
    "hb_peers s = [p]" "peer_outbound_tx p = 0" "ct_state (hb_tasks s ! 0) = Running"
    "fst (cl_outbound (ct_loop (hb_tasks s ! 0))) = []" "cl_wait (ct_loop (hb_tasks s ! 0)) = Selecting (4, [])"
    "written (cl_stream (ct_loop (hb_tasks s ! 0))) = [0, 0, 0, 1, 110, 0, 0, 0, 2, 104, 105]"
proof -
  let ?c = "script_connection [[], [1]] False"
  let ?s0 = "broadcast_new hyperchat_script [110]"
  let ?s1 = "accept_stream hyperchat_script (Some (Inr ?c)) ?s0"
  obtain p where run: "hb_run ?s1 = Saving p" and p: "peer_outbound_tx p = 0" by (simp add: hyperchat_eval)
  let ?s2 = "save_peer p ?s1"
  obtain s3 where s3: "stdin_turn hyperchat_script (Inr ''hi'') ?s2 = ret s3" by (simp add: stdin_turn_def)
  obtain s4 where s4: "poll_connection hyperchat_script 0 s3 = ret s4"
    and at: "length (hb_tasks s3) = 1" "ct_state (hb_tasks s3 ! 0) = Running"
      "hb_peers s4 = [p]" "ct_state (hb_tasks s4 ! 0) = Running"
      "fst (cl_outbound (ct_loop (hb_tasks s4 ! 0))) = []" "cl_wait (ct_loop (hb_tasks s4 ! 0)) = Selecting (4, [])"
      "written (cl_stream (ct_loop (hb_tasks s4 ! 0))) = [0, 0, 0, 1, 110, 0, 0, 0, 2, 104, 105]"
    using s3 run p by (auto simp: hyperchat_eval frame_def u32_to_be_bytes_def)
  have "chat_step hyperchat_script ?s0 (SwarmItem (Some (Inr ?c))) ?s1"
    by (rule chat_step.swarm_item) (simp add: broadcast_new_def)
  moreover have "chat_step hyperchat_script s3 (Polled 0) s4" using s4 at by (intro chat_step.polled) simp_all
  ultimately have "chat_exec hyperchat_script ?s0 script_events s4"
    using chat_step.saved [OF run] chat_step.line [OF s3] chat_exec.start by (intro chat_exec_Cons)
  from that [OF this at(3) p at(4-7)] show thesis .
qed

text \<open>What a saved peer with a running loop was given to send, in terms of the events.\<close>

lemma saved_peer_to_send:
  assumes "hyperchat_laws env output left contents closed icontents iclosed"
    and "chat_exec env (broadcast_new env initial) events s"
    and "\<forall>c. SwarmItem (Some (Inr c)) \<in> set events \<longrightarrow> output c = []"
    and "p \<in> set (hb_peers s)" and "ct_state (hb_tasks s ! peer_outbound_tx p) = Running"
  shows "to_send output left contents (ct_loop (hb_tasks s ! peer_outbound_tx p)) =
    concat (map frame (initial # map string_bytes (lines_after (peer_outbound_tx p) events)))"
proof -
  from chat_wf_exec [OF assms(2) refl assms(1,3)]
  have "peer_ok output left contents closed initial events (hb_tasks s) p"
    using assms(4) by (simp add: chat_wf_def active_peers_def)
  with assms(5) show ?thesis by (simp add: peer_ok_def task_ok_def)
qed

subsection \<open>Properties\<close>

text \<open>
  C9: What a peer is sent. In every execution, on the connection of every saved peer whose loop runs,
  the bytes written so far, then those of the write in progress, then the frames of the messages
  still queued, are exactly the frame of the initial message followed by the frames of the lines
  read since the peer was saved, each once and in order, however the steps of the other tasks, of
  this connection's loop and of the input interleave.
\<close>

theorem peer_is_sent_every_line:
  assumes "hyperchat_laws env output left contents closed icontents iclosed"
    and "chat_exec env (broadcast_new env initial) events s"
    and "\<forall>c. SwarmItem (Some (Inr c)) \<in> set events \<longrightarrow> output c = []"
    and "p \<in> set (hb_peers s)" and "ct_state (hb_tasks s ! peer_outbound_tx p) = Running"
  shows "to_send output left contents (ct_loop (hb_tasks s ! peer_outbound_tx p)) =
    concat (map frame (initial # map string_bytes (lines_after (peer_outbound_tx p) events)))"
  by (rule saved_peer_to_send [OF assms])

theorem peer_is_sent_every_line_witness:
  "\<exists>s p. chat_exec hyperchat_script (broadcast_new hyperchat_script [110])
      script_events s \<and>
    hb_peers s = [p] \<and>
    to_send written (\<lambda>x. x) fst (ct_loop (hb_tasks s ! 0)) = [0, 0, 0, 1, 110, 0, 0, 0, 2, 104, 105]"
proof -
  obtain s p where exec: "chat_exec hyperchat_script (broadcast_new hyperchat_script [110]) script_events s"
    and at: "hb_peers s = [p]" "peer_outbound_tx p = 0" "ct_state (hb_tasks s ! 0) = Running"
    by (rule script_execution)
  have "to_send written (\<lambda>x. x) fst (ct_loop (hb_tasks s ! 0)) = [0, 0, 0, 1, 110, 0, 0, 0, 2, 104, 105]"
    using peer_is_sent_every_line [OF hyperchat_script_laws exec script_events_fresh, of p] at
    by (simp add: frame_def u32_to_be_bytes_def)
  with exec at show ?thesis by blast
qed



text \<open>
  C12: A message that has arrived is delivered. In the setting of the previous property, let the peer's
  stream give a read all that has arrived, and let the peer have nothing to send, or else a stream
  that never hands over a part of a length. Then one poll of the peer's loop returns and hands it
  the first \<open>n\<close> of the lines; unless the poll stops in a write, they are exactly the lines whose frames
  have arrived whole, whatever part of the next one is there: once all that the chat has sent has
  arrived, all of it is delivered. A peer that has nothing to send and is not in a write does not stop
  in one.
\<close>

theorem arrived_lines_delivered:
  assumes "hyperchat_laws env output left contents closed icontents iclosed"
    and "chat_exec env (broadcast_new env initial) events s"
    and "\<forall>c. SwarmItem (Some (Inr c)) \<in> set events \<longrightarrow> output c = []"
    and "p \<in> set (hb_peers s)" and "ct_state (hb_tasks s ! peer_outbound_tx p) = Running"
    and "chat_safe renv input held need rcontents rclosed r"
    and "concat (map frame (rcontents (cl_inbound r))) @ undelivered input held need r @ rest =
      to_send output left contents (ct_loop (hb_tasks s ! peer_outbound_tx p))"
    and "msgs = initial # map string_bytes (lines_after (peer_outbound_tx p) events)"
    and "\<forall>m \<in> set msgs. length m < 2 ^ 32" and "\<forall>m \<in> set (rcontents (cl_inbound r)). length m < 2 ^ 32"
    and "reads_arrived renv input held need"
  shows "\<exists>r' res n. connection_loop renv r = ret (r', res) \<and> n \<le> length msgs \<and>
    rcontents (cl_inbound r') = take n msgs \<and>
    (reading r' \<longrightarrow> (\<forall>k \<le> length msgs. k \<le> n \<longleftrightarrow> length (concat (map frame (take k msgs))) \<le>
       length (concat (map frame (rcontents (cl_inbound r))) @ undelivered input held need r))) \<and>
    (rcontents (cl_outbound r) = [] \<and> reading r \<longrightarrow> reading r')"
proof -
  let ?got = "rcontents (cl_inbound r)"
  have "to_send output left contents (ct_loop (hb_tasks s ! peer_outbound_tx p)) = concat (map frame msgs)"
    unfolding assms(8) by (rule saved_peer_to_send [OF assms(1-5)])
  from frames_prefix [OF assms(7) [unfolded this] assms(10,9)]
  have got: "?got = take (length ?got) msgs"
    and more: "undelivered input held need r @ rest = concat (map frame (drop (length ?got) msgs))" by blast+
  have small: "\<forall>m \<in> set (drop (length ?got) msgs). length m < 2 ^ 32"
    using assms(9) by (meson in_set_dropD)
  note laws = chat_safeD(1,2) [OF assms(6)]
  from connection_loop_returns [OF laws chat_safe_sizes [OF assms(6)]]
  obtain r' res where loop: "connection_loop renv r = ret (r', res)" by blast
  from connection_loop_delivers [OF loop refl assms(6) more small] assms(11) obtain n where
    n: "n \<le> length (drop (length ?got) msgs)" "rcontents (cl_inbound r') = ?got @ take n (drop (length ?got) msgs)"
      "length (concat (map frame (take n (drop (length ?got) msgs)))) \<le> length (undelivered input held need r)"
    and arrived: "\<And>k. reading r' \<Longrightarrow> k \<le> length (drop (length ?got) msgs) \<Longrightarrow>
      length (concat (map frame (take k (drop (length ?got) msgs)))) \<le> length (undelivered input held need r) \<Longrightarrow> k \<le> n"
    by blast
  have le: "length ?got \<le> length msgs" using got by (metis length_take min.cobounded1)
  have taken: "take (length ?got + n) msgs = ?got @ take n (drop (length ?got) msgs)"
    using got by (simp add: take_add)
  have few: "length (concat (map frame (take (length ?got + n) msgs))) \<le>
      length (concat (map frame ?got) @ undelivered input held need r)"
    using n(3) by (simp add: taken)
  have exact: "k \<le> length ?got + n \<longleftrightarrow> length (concat (map frame (take k msgs))) \<le>
      length (concat (map frame ?got) @ undelivered input held need r)" if "reading r'" "k \<le> length msgs" for k
  proof
    assume "k \<le> length ?got + n"
    from frames_mono [OF this, of msgs] few show "length (concat (map frame (take k msgs))) \<le>
      length (concat (map frame ?got) @ undelivered input held need r)" by (rule le_trans)
  next
    assume "length (concat (map frame (take k msgs))) \<le>
      length (concat (map frame ?got) @ undelivered input held need r)"
    from arrived [OF that(1) frames_after [OF got that(2) _ this]] show "k \<le> length ?got + n"
      by (cases "k \<le> length ?got") auto
  qed
  show ?thesis
  proof (intro exI [of _ r'] exI [of _ res] exI [of _ "length ?got + n"] conjI impI allI loop)
    show "rcontents (cl_inbound r') = take (length ?got + n) msgs" by (simp only: n(2) taken)
    show "reading r'" if "rcontents (cl_outbound r) = [] \<and> reading r"
      using connection_loop_quiet [OF loop refl laws(2)] that by blast
  qed (use exact n(1) le in simp_all)
qed

theorem arrived_lines_delivered_witness:
  "\<exists>s p r' res n. chat_exec hyperchat_script (broadcast_new hyperchat_script [110]) script_events s \<and>
    hb_peers s = [p] \<and>
    connection_loop arrived_script
      (chat_start arrived_script [0, 0, 0, 1, 110, 0, 0, 0] ([], False) ([], False)) = ret (r', res) \<and>
    n = 1 \<and> fst (cl_inbound r') = take n [[110], [104, 105]]"
proof -
  obtain s p where exec: "chat_exec hyperchat_script (broadcast_new hyperchat_script [110]) script_events s"
    and at: "hb_peers s = [p]" "peer_outbound_tx p = 0" "ct_state (hb_tasks s ! 0) = Running"
      "fst (cl_outbound (ct_loop (hb_tasks s ! 0))) = []" "cl_wait (ct_loop (hb_tasks s ! 0)) = Selecting (4, [])"
      "written (cl_stream (ct_loop (hb_tasks s ! 0))) = [0, 0, 0, 1, 110, 0, 0, 0, 2, 104, 105]"
    by (rule script_execution)
  let ?i = "peer_outbound_tx p" and ?msgs = "[[110], [104, 105]] :: bytes list"
  have saved: "p \<in> set (hb_peers s)" and runs: "ct_state (hb_tasks s ! ?i) = Running" using at by simp_all
  let ?r = "chat_start arrived_script [0, 0, 0, 1, 110, 0, 0, 0] ([], False) ([], False)"
  have ok: "chat_ok arrived_script (\<lambda>s. s) arrived_held fst fst snd ?r"
    by (simp add: chat_ok_def arrived_script_laws list_channel_laws chat_inv_def chat_start_def)
       (simp add: arrived_script_def list_channel_laws)
  have wire: "concat (map frame (fst (cl_inbound ?r))) @ undelivered (\<lambda>s. s) arrived_held fst ?r @ [2, 104, 105] =
      to_send written (\<lambda>x. x) fst (ct_loop (hb_tasks s ! ?i))"
    using at by (simp add: undelivered_def chat_start_def to_send_def arrived_script_def)
  have msgs: "?msgs = [110] # map string_bytes (lines_after ?i script_events)" using at by simp
  have small: "\<forall>m \<in> set ?msgs. length m < 2 ^ 32" "\<forall>m \<in> set (fst (cl_inbound ?r)). length m < 2 ^ 32"
    and reads: "reading ?r" by (simp_all add: chat_start_def reading_def)
  have safe: "chat_safe arrived_script (\<lambda>s. s) arrived_held fst fst snd ?r"
    and quiet: "fst (cl_outbound ?r) = [] \<and> reading ?r"
    using ok reads by (simp_all add: chat_ok_safe)
  from arrived_lines_delivered [OF hyperchat_script_laws exec script_events_fresh saved runs safe wire msgs small
      arrived_script_laws(2)] obtain r' res n where
    loop: "connection_loop arrived_script ?r = ret (r', res)" "fst (cl_inbound r') = take n ?msgs"
    and arrived: "reading r' \<longrightarrow> (\<forall>k \<le> length ?msgs. k \<le> n \<longleftrightarrow> length (concat (map frame (take k ?msgs))) \<le>
      length (concat (map frame (fst (cl_inbound ?r))) @ undelivered (\<lambda>s. s) arrived_held fst ?r))"
    and stays: "fst (cl_outbound ?r) = [] \<and> reading ?r \<longrightarrow> reading r'"
    by (elim exE conjE) (rule that)
  note exactly = mp [OF arrived mp [OF stays quiet], rule_format]
  have "1 \<le> n" "\<not> 2 \<le> n"
    using exactly [of 1] exactly [of 2]
    by (simp_all add: frame_def chat_start_def undelivered_def arrived_script_def)
  then have "n = 1" by simp
  with exec at loop show ?thesis by blast
qed

text \<open>
  C17: The state of the chat is well formed in every execution. Each peer of the list, and the one
  being saved, refers to a task of its own, which exists and has its name; a task outside its loop
  has a closed channel; and the channel of received messages is open, so that no forwarding panics.
\<close>

theorem chat_state_well_formed:
  assumes "hyperchat_laws env output left contents closed icontents iclosed"
    and "chat_exec env (broadcast_new env initial) events s"
    and "\<forall>c. SwarmItem (Some (Inr c)) \<in> set events \<longrightarrow> output c = []"
  shows "distinct (map peer_outbound_tx (active_peers s)) \<and>
    (\<forall>p \<in> set (active_peers s). peer_outbound_tx p < length (hb_tasks s) \<and>
       ct_peer_id (hb_tasks s ! peer_outbound_tx p) = peer_id p) \<and>
    (\<forall>i < length (hb_tasks s). ct_state (hb_tasks s ! i) \<noteq> Running \<longrightarrow>
       closed (cl_outbound (ct_loop (hb_tasks s ! i)))) \<and>
    (\<forall>i. \<exists>s'. forward_message env i s = ret s')"
proof -
  have wf: "chat_wf output left contents closed iclosed initial events s"
    by (rule chat_wf_exec [OF assms(2) refl assms(1,3)])
  then have "\<not> iclosed (hb_incoming s)" by (simp add: chat_wf_def)
  with wf forward_message_cases [OF assms(1)] reachable_over [OF assms(2) refl assms(1)] show ?thesis
    by (auto simp: chat_wf_def peer_ok_def task_ok_def over_def) blast
qed

theorem chat_state_well_formed_witness:
  "\<exists>s p s'. chat_exec hyperchat_script (broadcast_new hyperchat_script [110]) script_events s \<and>
    hb_peers s = [p] \<and> ct_peer_id (hb_tasks s ! 0) = peer_id p \<and> forward_message hyperchat_script 0 s = ret s'"
proof -
  obtain s p where exec: "chat_exec hyperchat_script (broadcast_new hyperchat_script [110]) script_events s"
    and at: "hb_peers s = [p]" "peer_outbound_tx p = 0"
    by (rule script_execution)
  from at have "p \<in> set (active_peers s)" by (simp add: active_peers_def)
  with chat_state_well_formed [OF hyperchat_script_laws exec script_events_fresh] at
  have "ct_peer_id (hb_tasks s ! 0) = peer_id p" and "\<exists>s'. forward_message hyperchat_script 0 s = ret s'"
    by force+
  with exec at show ?thesis by blast
qed

text \<open>
  C26: Removal races with saving. A connection whose loop fails, and whose removal runs, before
  \<open>run\<close> gets to save the peer leaves that peer in the list: it is saved afterwards, stays as long
  as no other connection of the same protocol and address fails, and every message for it is refused.
\<close>

theorem failed_before_saved_stays:
  assumes "hyperchat_laws env output left contents closed icontents iclosed"
    and "chat_exec env (broadcast_new env initial) events s"
    and "\<forall>c. SwarmItem (Some (Inr c)) \<in> set events \<longrightarrow> output c = []"
    and "hb_run s = Saving p" and "ct_state (hb_tasks s ! peer_outbound_tx p) = Ended"
    and "chat_exec env (save_peer p s) events' s'"
    and "\<forall>i. RemovedPeer i \<in> set events' \<longrightarrow> ct_peer_id (hb_tasks s' ! i) \<noteq> peer_id p"
  shows "p \<in> set (hb_peers s') \<and> send_message env m p (hb_tasks s') = (hb_tasks s', Inl ChatSend)"
proof -
  let ?i = "peer_outbound_tx p"
  from chat_wf_exec [OF assms(2) refl assms(1,3)] assms(4) have i: "?i < length (hb_tasks s)"
    by (simp add: chat_wf_def)
  with reachable_over [OF assms(2) refl assms(1) i] assms(5) have "over closed (hb_tasks (save_peer p s) ! ?i)"
    and "?i < length (hb_tasks (save_peer p s))" by (simp_all add: save_peer_def)
  with chat_exec_over [OF assms(6,1)] have "closed (cl_outbound (ct_loop (hb_tasks s' ! ?i)))"
    by (simp add: over_def)
  moreover have "p \<in> set (hb_peers s')"
    by (rule chat_exec_peer [OF assms(6,1) _ assms(7)]) (simp add: save_peer_def)
  ultimately show ?thesis using send_message_closed [OF hyperchat_lawsD(2) [OF assms(1)]] by blast
qed

theorem failed_before_saved_stays_witness:
  "\<exists>s p s'. chat_exec hyperchat_script (broadcast_new hyperchat_script [])
      [SwarmItem (Some (Inr (script_connection [] True))), Polled 0, RemovedPeer 0] s \<and>
    chat_exec hyperchat_script (save_peer p s) [Line ''hi''] s' \<and>
    p \<in> set (hb_peers s') \<and> send_message hyperchat_script ''x'' p (hb_tasks s') = (hb_tasks s', Inl ChatSend)"
proof -
  let ?c = "script_connection [] True"
  let ?s0 = "broadcast_new hyperchat_script []"
  let ?s1 = "accept_stream hyperchat_script (Some (Inr ?c)) ?s0"
  obtain s2 where s2: "poll_connection hyperchat_script 0 ?s1 = ret s2"
    and at: "length (hb_tasks ?s1) = 1" "ct_state (hb_tasks ?s1 ! 0) = Running"
      "length (hb_tasks s2) = 1" "ct_state (hb_tasks s2 ! 0) = Failing"
    by (simp add: hyperchat_eval)
  let ?s3 = "remove_peer hyperchat_script 0 s2"
  obtain p where p: "hb_run ?s3 = Saving p" "peer_outbound_tx p = 0"
    using s2 by (auto simp: hyperchat_eval)
  have ended: "ct_state (hb_tasks ?s3 ! peer_outbound_tx p) = Ended"
    using p at by (simp add: remove_peer_def Let_def drop_senders_rest)
  let ?events = "[SwarmItem (Some (Inr ?c)), Polled 0, RemovedPeer 0]"
  have "chat_step hyperchat_script ?s0 (SwarmItem (Some (Inr ?c))) ?s1"
    by (rule chat_step.swarm_item) (simp add: broadcast_new_def)
  moreover have "chat_step hyperchat_script ?s1 (Polled 0) s2" using s2 at by (intro chat_step.polled) simp_all
  moreover have "chat_step hyperchat_script s2 (RemovedPeer 0) ?s3" using at by (intro chat_step.removed) simp_all
  ultimately have exec: "chat_exec hyperchat_script ?s0 ?events ?s3"
    using chat_exec.start by (intro chat_exec_Cons)
  have fresh: "\<forall>c. SwarmItem (Some (Inr c)) \<in> set ?events \<longrightarrow> written c = []" by simp
  obtain s' where "chat_exec hyperchat_script (save_peer p ?s3) [Line ''hi''] s'"
    using chat_exec_Cons [OF chat_step.line chat_exec.start] by (auto simp: stdin_turn_def)
  moreover from failed_before_saved_stays [OF hyperchat_script_laws exec fresh p(1) ended this, of "''x''"]
  have "p \<in> set (hb_peers s') \<and> send_message hyperchat_script ''x'' p (hb_tasks s') = (hb_tasks s', Inl ChatSend)"
    by simp
  ultimately show ?thesis using exec by blast
qed

text \<open>
  C27: One failure ends the others of the same name. When the task of a failed connection removes
  its peer, every saved peer with the same protocol and address goes, and with it the only sender
  of that connection's channel: a connection that runs undisturbed, with nothing left to send and
  nothing to read, is told at its next poll that its channel is closed, and fails as well.
\<close>

theorem removal_closes_namesakes:
  assumes "hyperchat_laws env output left contents closed icontents iclosed"
    and "chat_exec env (broadcast_new env initial) events s"
    and "\<forall>c. SwarmItem (Some (Inr c)) \<in> set events \<longrightarrow> output c = []"
    and "i < length (hb_tasks s)" and "ct_state (hb_tasks s ! i) = Failing"
    and "p \<in> set (hb_peers s)" and "peer_id p = ct_peer_id (hb_tasks s ! i)" and "peer_outbound_tx p = j"
    and "ct_state (hb_tasks s ! j) = Running" and "cl_wait (ct_loop (hb_tasks s ! j)) = Selecting r"
    and "contents (cl_outbound (ct_loop (hb_tasks s ! j))) = []"
    and "ce_read_poll (hc_chat env) r (cl_stream (ct_loop (hb_tasks s ! j))) = (r', stream, Pending)"
  shows "p \<notin> set (hb_peers (remove_peer env i s)) \<and>
    (\<exists>l s'. connection_loop (hc_chat env) (ct_loop (hb_tasks (remove_peer env i s) ! j)) =
         ret (l, Ready (Inl ChatClosed)) \<and>
       chat_exec env s [RemovedPeer i, Polled j] s' \<and> ct_state (hb_tasks s' ! j) = Failing)"
proof -
  let ?gone = "filter (\<lambda>p. peer_id p = ct_peer_id (hb_tasks s ! i)) (hb_peers s)" and ?s1 = "remove_peer env i s"
  note chan = hyperchat_lawsD(2) [OF assms(1)]
  have wf: "chat_wf output left contents closed iclosed initial events s"
    by (rule chat_wf_exec [OF assms(2) refl assms(1,3)])
  then have dist: "distinct (map peer_outbound_tx ?gone)"
    by (simp add: chat_wf_def active_peers_def distinct_map_filter)
  have j: "j < length (hb_tasks s)" using wf assms(6,8) by (auto simp: chat_wf_def active_peers_def peer_ok_def)
  have gone: "p \<in> set ?gone" using assms(6,7) by simp
  from drop_senders_close [OF chan dist gone, of "hb_tasks s"] j assms(8) obtain q where
    "fold (drop_sender env) ?gone (hb_tasks s) ! j = set_outbound q (hb_tasks s ! j)"
    and q: "contents q = contents (cl_outbound (ct_loop (hb_tasks s ! j)))" "closed q" by blast
  moreover have "i \<noteq> j" using assms(5,9) by auto
  ultimately have task: "hb_tasks ?s1 ! j = set_outbound q (hb_tasks s ! j)" and len: "j < length (hb_tasks ?s1)"
    using j by (simp_all add: remove_peer_def Let_def drop_senders_rest)
  from channel_lawsD(6) [OF chan, of q] q assms(11) obtain q' where
    q': "ch_poll_next (ce_channel (hc_chat env)) q = (q', Ready None)" by auto
  obtain l where loop: "connection_loop (hc_chat env) (ct_loop (hb_tasks ?s1 ! j)) = ret (l, Ready (Inl ChatClosed))"
    using assms(10,12) q' by (auto simp: task connection_loop_turn(2) chat_turn_def)
  then obtain s' where s': "poll_connection env j ?s1 = ret s'" and "ct_state (hb_tasks s' ! j) = Failing"
    using len by (simp add: poll_connection_def Let_def)
  moreover have "chat_exec env s [RemovedPeer i, Polled j] s'"
    using chat_step.removed [OF assms(4,5)] chat_step.polled [OF len _ s'] task assms(9) chat_exec.start
    by (intro chat_exec_Cons) simp_all
  moreover have "p \<notin> set (hb_peers ?s1)" using assms(7) by (simp add: remove_peer_def Let_def)
  ultimately show ?thesis using loop by blast
qed

theorem removal_closes_namesakes_witness:
  "\<exists>s s' p. chat_exec hyperchat_script (broadcast_new hyperchat_script [])
      [SwarmItem (Some (Inr (script_connection [] True))), Saved,
       SwarmItem (Some (Inr (script_connection [] False))), Saved, Polled 1, Polled 0] s \<and>
    p \<in> set (hb_peers s) \<and> ct_state (hb_tasks s ! 1) = Running \<and>
    chat_exec hyperchat_script s [RemovedPeer 0, Polled 1] s' \<and> ct_state (hb_tasks s' ! 1) = Failing"
proof -
  let ?c0 = "script_connection [] True" and ?c1 = "script_connection [] False"
  let ?s0 = "broadcast_new hyperchat_script []"
  let ?s1 = "accept_stream hyperchat_script (Some (Inr ?c0)) ?s0"
  obtain p0 where p0: "hb_run ?s1 = Saving p0" "length (hb_tasks ?s1) = 1" by (simp add: hyperchat_eval)
  let ?s2 = "save_peer p0 ?s1"
  let ?s3 = "accept_stream hyperchat_script (Some (Inr ?c1)) ?s2"
  obtain p where p: "hb_run ?s3 = Saving p" "length (hb_tasks ?s3) = 2" "peer_outbound_tx p = 1"
    "peer_id p = ct_peer_id (hb_tasks ?s3 ! 0)"
    using p0 by (auto simp: hyperchat_eval)
  let ?s4 = "save_peer p ?s3"
  obtain s5 where s5: "poll_connection hyperchat_script 1 ?s4 = ret s5"
    and at5: "length (hb_tasks s5) = 2" "ct_state (hb_tasks s5 ! 0) = Running"
    using p by (auto simp: hyperchat_eval)
  obtain s where s: "poll_connection hyperchat_script 0 s5 = ret s"
    and at: "length (hb_tasks s) = 2" "hb_peers s = [p0, p]" "ct_state (hb_tasks s ! 0) = Failing"
      "ct_peer_id (hb_tasks s ! 0) = peer_id p" "ct_state (hb_tasks s ! 1) = Running"
      "cl_wait (ct_loop (hb_tasks s ! 1)) = Selecting (4, [])" "fst (cl_outbound (ct_loop (hb_tasks s ! 1))) = []"
      "cl_stream (ct_loop (hb_tasks s ! 1)) = script_connection [] False\<lparr>conn_inner := ([], False, [0, 0, 0, 0])\<rparr>"
    using s5 p by (auto simp: hyperchat_eval frame_def u32_to_be_bytes_def)
  let ?events = "[SwarmItem (Some (Inr ?c0)), Saved, SwarmItem (Some (Inr ?c1)), Saved, Polled 1, Polled 0]"
  have "chat_step hyperchat_script ?s0 (SwarmItem (Some (Inr ?c0))) ?s1"
    "chat_step hyperchat_script ?s2 (SwarmItem (Some (Inr ?c1))) ?s3"
    by (rule chat_step.swarm_item, simp add: broadcast_new_def save_peer_def)+
  moreover have "chat_step hyperchat_script ?s4 (Polled 1) s5"
    using s5 p(2,3) by (intro chat_step.polled) (simp_all add: hyperchat_eval)
  moreover have "chat_step hyperchat_script s5 (Polled 0) s" using s at5 by (intro chat_step.polled) simp_all
  ultimately have exec: "chat_exec hyperchat_script ?s0 ?events s"
    using chat_step.saved [OF p0(1)] chat_step.saved [OF p(1)] chat_exec.start by (intro chat_exec_Cons)
  have "\<forall>c. SwarmItem (Some (Inr c)) \<in> set ?events \<longrightarrow> written c = []" by simp
  moreover have "0 < length (hb_tasks s)" "p \<in> set (hb_peers s)" using at by simp_all
  moreover have "ce_read_poll (hc_chat hyperchat_script) (4, []) (cl_stream (ct_loop (hb_tasks s ! 1))) =
      ((4, []), cl_stream (ct_loop (hb_tasks s ! 1)), Pending)" using at(8) by (simp add: hyperchat_script_def)
  ultimately show ?thesis
    using removal_closes_namesakes [OF hyperchat_script_laws exec _ _ at(3) _ at(4) [symmetric] p(3) at(5-7)] exec at(5)
    by blast
qed

text \<open>
  All peers are printed under one name. The first message of any peer, when it is the bytes of a
  string, is taken as the name, and every later message, whoever sent it, the hello messages
  included, is printed as a line of that name.
\<close>

lemma one_name_for_all_peers:
  assumes "utf8_valid (map of_char name)"
  shows "print_loop None (\<lparr>im_from = peer, im_content = string_bytes name\<rparr> # messages) =
    (Some name, (''['' @ peer @ ''] is now known as `'' @ name @ ''`'') #
       map (\<lambda>m. ''['' @ im_from m @ ''] <'' @ name @ ''> '' @
         unwrap_or ''<invalid utf8>'' (string_from_utf8 (im_content m))) messages)"
proof -
  have "print_loop (Some name) messages =
      (Some name, map (\<lambda>m. ''['' @ im_from m @ ''] <'' @ name @ ''> '' @
         unwrap_or ''<invalid utf8>'' (string_from_utf8 (im_content m))) messages)"
    by (induction messages) (simp_all add: print_message_def Let_def)
  with assms show ?thesis by (simp add: print_message_def string_bytes_from_utf8 Let_def)
qed

lemma one_name_for_all_peers_example:
  "print_loop None [\<lparr>im_from = ''a'', im_content = string_bytes ''eva''\<rparr>,
      \<lparr>im_from = ''b'', im_content = string_bytes ''bob''\<rparr>] =
    (Some ''eva'', [''[a] is now known as `eva`'', ''[b] <eva> bob''])"
proof -
  have eva: "utf8_valid (map of_char ''eva'')" and "utf8_valid (map of_char ''bob'')"
    by (rule utf8_valid_ascii, simp)+
  with one_name_for_all_peers [OF eva, of "''a''" "[\<lparr>im_from = ''b'', im_content = string_bytes ''bob''\<rparr>]"]
  show ?thesis by (simp add: string_bytes_from_utf8 del: string_bytes_simps)
qed

lemma join_topics_returns:
  assumes blake: "blake2b_laws b2 digest_len" and chan: "channel_laws (se_channel senv) contents closed"
    and "\<not> closed handle" and "\<forall>t \<in> set topics. length t \<le> 64"
  shows "\<exists>handle' hashes. join_topics b2 senv topics handle = ret handle' \<and>
    list_all2 (\<lambda>t h. hash_topic b2 discovery_ns_buf (string_bytes t) = ret h) topics hashes \<and>
    contents handle' = contents handle @ map (\<lambda>h. (h, topic_config_both)) hashes"
  using assms(3,4)
proof (induction topics arbitrary: handle)
  case (Cons t topics)
  from hash_topic_returns [OF blake, of "string_bytes t" discovery_ns_buf] Cons.prems(2) obtain h where
    h: "hash_topic b2 discovery_ns_buf (string_bytes t) = ret h" by auto
  from channel_lawsD(3) [OF chan Cons.prems(1), of "(h, topic_config_both)"] obtain q where
    q: "ch_try_send (se_channel senv) (h, topic_config_both) handle = (q, Inr ())"
      "contents q = contents handle @ [(h, topic_config_both)]" "\<not> closed q" by blast
  from Cons.IH [OF q(3)] Cons.prems(2) obtain handle' hashes where
    "join_topics b2 senv topics q = ret handle'"
    "list_all2 (\<lambda>t h. hash_topic b2 discovery_ns_buf (string_bytes t) = ret h) topics hashes"
    "contents handle' = contents q @ map (\<lambda>h. (h, topic_config_both)) hashes" by auto
  with h q(1,2) show ?case
    by (intro exI [of _ handle'] exI [of _ "h # hashes"])
       (simp add: handle_configure_def announce_and_lookup_def)
qed (simp add: exI [of _ "[]"])

lemma join_topics_panics:
  assumes blake: "blake2b_laws b2 digest_len" and chan: "channel_laws (se_channel senv) contents closed"
    and "\<not> closed handle" and "\<exists>t \<in> set topics. 64 < length t"
  shows "join_topics b2 senv topics handle = panic"
  using assms(3,4)
proof (induction topics arbitrary: handle)
  case (Cons t topics)
  show ?case
  proof (cases "64 < length t")
    case True
    with hash_topic_panics [OF blake, of "string_bytes t"] show ?thesis by simp
  next
    case False
    with hash_topic_returns [OF blake, of "string_bytes t" discovery_ns_buf] obtain h where
      h: "hash_topic b2 discovery_ns_buf (string_bytes t) = ret h" by auto
    from channel_lawsD(3) [OF chan Cons.prems(1), of "(h, announce_and_lookup)"] obtain q where
      q: "ch_try_send (se_channel senv) (h, announce_and_lookup) handle = (q, Inr ())" "\<not> closed q" by blast
    from Cons.IH [OF q(2)] Cons.prems(2) False h q(1) show ?thesis by (auto simp: handle_configure_def)
  qed
qed simp

text \<open>
  C25: Joining. When the swarm can be bound to the configuration of the options, the chat starts with
  that swarm, with no peers and with the name as the first message, and the swarm's commands are one
  configuration, announce and lookup, for the topic of each name, in the order of the options; if
  one name is longer than 64 bytes, the program panics instead, whatever the others are.
\<close>

theorem chat_join_configures_topics:
  assumes "blake2b_laws b2 digest_len" and "channel_laws (se_channel senv) contents closed"
    and "swarm_bind tenv uenv denv dc menv (se_channel senv) (chat_join_config dc other bootstrap) w =
      ret (Inr swarm, w')"
  shows "((\<forall>t \<in> set topics. length t \<le> 64) \<longrightarrow>
      (\<exists>handle hashes.
         chat_join tenv uenv denv dc menv b2 senv chat other hex random bootstrap topics (Some name) w =
           ret (Inr (swarm\<lparr>sw_commands := handle\<rparr>, broadcast_new chat (string_bytes name)), w') \<and>
         list_all2 (\<lambda>t h. hash_topic b2 discovery_ns_buf (string_bytes t) = ret h) topics hashes \<and>
         contents handle = map (\<lambda>h. (h, topic_config_both)) hashes)) \<and>
    ((\<exists>t \<in> set topics. 64 < length t) \<longrightarrow>
      chat_join tenv uenv denv dc menv b2 senv chat other hex random bootstrap topics (Some name) w = panic)"
proof -
  from assms(3) have commands: "sw_commands swarm = ch_unbounded (se_channel senv)"
    by (auto simp: swarm_bind_def Let_def run_simps)
  have join: "chat_join tenv uenv denv dc menv b2 senv chat other hex random bootstrap topics (Some name) w =
      run_bind (join_topics b2 senv topics (ch_unbounded (se_channel senv)))
        (\<lambda>handle. ret (Inr (swarm\<lparr>sw_commands := handle\<rparr>, broadcast_new chat (string_bytes name)), w'))"
    by (simp add: chat_join_def assms(3) swarm_handle_def commands act_bind_def act_run_def run_bind_assoc
        Let_def)
  note start = channel_lawsD(1,2) [OF assms(2)]
  show ?thesis
  proof (intro conjI impI)
    assume "\<forall>t \<in> set topics. length t \<le> 64"
    from join_topics_returns [OF assms(1,2) start(2) this] start(1) obtain handle hashes where
      "join_topics b2 senv topics (ch_unbounded (se_channel senv)) = ret handle"
      "list_all2 (\<lambda>t h. hash_topic b2 discovery_ns_buf (string_bytes t) = ret h) topics hashes"
      "contents handle = map (\<lambda>h. (h, topic_config_both)) hashes" by auto
    then show "\<exists>handle hashes.
         chat_join tenv uenv denv dc menv b2 senv chat other hex random bootstrap topics (Some name) w =
           ret (Inr (swarm\<lparr>sw_commands := handle\<rparr>, broadcast_new chat (string_bytes name)), w') \<and>
         list_all2 (\<lambda>t h. hash_topic b2 discovery_ns_buf (string_bytes t) = ret h) topics hashes \<and>
         contents handle = map (\<lambda>h. (h, topic_config_both)) hashes"
      by (intro exI [of _ handle] exI [of _ hashes]) (simp add: join)
  next
    assume "\<exists>t \<in> set topics. 64 < length t"
    from join_topics_panics [OF assms(1,2) start(2) this]
    show "chat_join tenv uenv denv dc menv b2 senv chat other hex random bootstrap topics (Some name) w = panic"
      by (simp add: join)
  qed
qed

theorem chat_join_configures_topics_witness:
  "\<exists>swarm handle hashes. chat_join (tcp_script []) utp_script dht_script dht_config_script mdns_script
      blake2b_script (script_env [] dht_script) hyperchat_script (\<lambda>_. Inr []) (\<lambda>_. []) [] [] [''a'', ''b''] (Some ''eva'') () =
      ret (Inr (swarm\<lparr>sw_commands := handle\<rparr>, broadcast_new hyperchat_script (string_bytes ''eva'')), ()) \<and>
    length hashes = 2 \<and> fst handle = map (\<lambda>h. (h, topic_config_both)) hashes"
proof -
  obtain swarm where bind: "swarm_bind (tcp_script []) utp_script dht_script dht_config_script mdns_script
      list_channel (chat_join_config dht_config_script (\<lambda>_. Inr []) []) () = ret (Inr swarm, ())"
    using script_bind [of "chat_join_config dht_config_script (\<lambda>_. Inr []) []"]
    by (auto simp: chat_join_config_def set_bootstrap_nodes_def config_default_def)
  define senv where "senv = script_env [] dht_script"
  have chan: "se_channel senv = list_channel" by (simp add: senv_def hyperswarm_env_def)
  then have laws: "channel_laws (se_channel senv) fst snd" by (simp add: list_channel_laws)
  have "swarm_bind (tcp_script []) utp_script dht_script dht_config_script mdns_script
      (se_channel senv) (chat_join_config dht_config_script (\<lambda>_. Inr []) []) () = ret (Inr swarm, ())"
    using bind chan by simp
  note joined = chat_join_configures_topics [where topics = "[''a'', ''b'']" and hex = "\<lambda>_. []"
      and random = "[]" and chat = hyperchat_script and name = "''eva''",
      OF blake2b_script_laws laws this, THEN conjunct1, THEN mp]
  have "\<forall>t \<in> set [''a'', ''b'']. length t \<le> 64" by simp
  from joined [OF this] obtain handle hashes where run: "chat_join (tcp_script []) utp_script dht_script
      dht_config_script mdns_script blake2b_script senv hyperchat_script (\<lambda>_. Inr []) (\<lambda>_. []) [] []
      [''a'', ''b''] (Some ''eva'') () =
      ret (Inr (swarm\<lparr>sw_commands := handle\<rparr>, broadcast_new hyperchat_script (string_bytes ''eva'')), ())"
    and hashes: "list_all2 (\<lambda>t h. hash_topic blake2b_script discovery_ns_buf (string_bytes t) = ret h) [''a'', ''b''] hashes"
    and handle: "fst handle = map (\<lambda>h. (h, topic_config_both)) hashes" by blast
  from list_all2_lengthD [OF hashes] have "length hashes = 2" by simp
  with run handle show ?thesis unfolding senv_def by blast
qed

end
