(* ===== verification/Chat_Printing.thy ===== *)
theory Chat_Printing
  imports Chat_Execution
begin

section \<open>What the chat prints\<close>

text \<open>
  The task that prints the received messages, beside those of \<open>chat_step\<close>: a message goes from the
  loop of its connection over the connection's channel, the task that forwards it and the one
  channel of all connections to the terminal. The two queues in a row behave as one.
\<close>

subsection \<open>The task that prints\<close>

text \<open>Its variable \<open>name\<close> and the lines it has printed.\<close>

record chat_printer =
  cp_name :: "string option"
  cp_lines :: "string list"

definition printer_new :: chat_printer where
  "printer_new = \<lparr>cp_name = None, cp_lines = []\<rparr>"

text \<open>One turn of its loop: the next message, if one is there.\<close>

definition print_turn ::
  "('a, 'r, 'x, 'q, 'i) hyperchat_env \<Rightarrow> ('a, 'r, 'x, 'q, 'i) hyper_broadcast \<Rightarrow> chat_printer \<Rightarrow>
     ('a, 'r, 'x, 'q, 'i) hyper_broadcast \<times> chat_printer" where
  "print_turn env s pr =
     (case ch_poll_next (hc_incoming env) (hb_incoming s) of
        (incoming, Ready (Some message)) \<Rightarrow>
          (case print_message (cp_name pr) message of
             (name, line) \<Rightarrow>
               (s\<lparr>hb_incoming := incoming\<rparr>, \<lparr>cp_name = name, cp_lines = cp_lines pr @ [line]\<rparr>))
      | (incoming, _) \<Rightarrow> (s\<lparr>hb_incoming := incoming\<rparr>, pr))"

text \<open>
  Executions of the chat with this task. \<open>received i\<close> is not part of the program: it keeps what the
  loop of connection \<open>i\<close> has put into the connection's channel.
\<close>

definition inbox :: "('q \<Rightarrow> bytes list) \<Rightarrow> ('a, 'r, 'x, 'q, 'i) hyper_broadcast \<Rightarrow> nat \<Rightarrow> bytes list" where
  "inbox contents s i = (if i < length (hb_tasks s) then contents (cl_inbound (ct_loop (hb_tasks s ! i))) else [])"

fun note_received ::
  "('q \<Rightarrow> bytes list) \<Rightarrow> ('a, 'r, 'x, 'q, 'i) hyper_broadcast \<Rightarrow> 'a chat_event \<Rightarrow>
     ('a, 'r, 'x, 'q, 'i) hyper_broadcast \<Rightarrow> (nat \<Rightarrow> bytes list) \<Rightarrow> nat \<Rightarrow> bytes list" where
  "note_received contents s (Polled i) s' received =
     received(i := received i @ drop (length (inbox contents s i)) (inbox contents s' i))"
| "note_received contents s _ s' received = received"

inductive chat_run ::
  "('a, 'r, 'x, 'q, 'i) hyperchat_env \<Rightarrow> ('q \<Rightarrow> bytes list) \<Rightarrow> bytes \<Rightarrow> 'a chat_event list \<Rightarrow>
     (nat \<Rightarrow> bytes list) \<Rightarrow> ('a, 'r, 'x, 'q, 'i) hyper_broadcast \<Rightarrow> chat_printer \<Rightarrow> bool"
  for env contents initial where
  begins: "chat_run env contents initial [] (\<lambda>_. []) (broadcast_new env initial) printer_new"
| steps: "chat_run env contents initial events received s pr \<Longrightarrow> chat_step env s e s' \<Longrightarrow>
    chat_run env contents initial (events @ [e]) (note_received contents s e s' received) s' pr"
| prints: "chat_run env contents initial events received s pr \<Longrightarrow> print_turn env s pr = (s', pr') \<Longrightarrow>
    chat_run env contents initial events received s' pr'"

subsection \<open>Steps and the queues\<close>

definition same_inboxes ::
  "('q \<Rightarrow> bytes list) \<Rightarrow> ('a, 'r, 'x, 'q, 'i) hyper_broadcast \<Rightarrow> ('a, 'r, 'x, 'q, 'i) hyper_broadcast \<Rightarrow> bool" where
  "same_inboxes contents s s' \<longleftrightarrow>
     length (hb_tasks s) \<le> length (hb_tasks s') \<and> inbox contents s' = inbox contents s \<and>
     (\<forall>i < length (hb_tasks s). ct_peer_id (hb_tasks s' ! i) = ct_peer_id (hb_tasks s ! i))"

lemma same_inboxesI:
  assumes "length ts = length (hb_tasks s)" and "\<And>i. i < length (hb_tasks s) \<Longrightarrow>
      ct_peer_id (ts ! i) = ct_peer_id (hb_tasks s ! i) \<and> cl_inbound (ct_loop (ts ! i)) = cl_inbound (ct_loop (hb_tasks s ! i))"
    and "hb_tasks s' = ts"
  shows "same_inboxes contents s s'"
  using assms by (auto simp: same_inboxes_def inbox_def)

lemma accept_stream_inboxes:
  assumes "hyperchat_laws env output left contents closed icontents iclosed"
  shows "same_inboxes contents s (accept_stream env item s)" "hb_incoming (accept_stream env item s) = hb_incoming s"
  using channel_lawsD(1) [OF hyperchat_lawsD(2) [OF assms]]
  by (auto simp: accept_stream_def same_inboxes_def inbox_def chat_start_def Let_def nth_append fun_eq_iff
      split: option.splits sum.splits prod.splits)

lemma remove_peer_inboxes:
  "same_inboxes contents s (remove_peer env i s)" "hb_incoming (remove_peer env i s) = hb_incoming s"
proof -
  let ?tasks = "fold (drop_sender env) (filter (\<lambda>p. peer_id p = ct_peer_id (hb_tasks s ! i)) (hb_peers s)) (hb_tasks s)"
  note rest = same_task_simps(1,3) [OF drop_senders_rest(3)]
  have "ct_peer_id (?tasks[i := (?tasks ! i)\<lparr>ct_state := Ended\<rparr>] ! j) = ct_peer_id (hb_tasks s ! j) \<and>
      cl_inbound (ct_loop (?tasks[i := (?tasks ! i)\<lparr>ct_state := Ended\<rparr>] ! j)) = cl_inbound (ct_loop (hb_tasks s ! j))"
    if "j < length (hb_tasks s)" for j
    using that by (cases "j = i") (simp_all add: drop_senders_rest(1) rest)
  then show "same_inboxes contents s (remove_peer env i s)"
    by (rule same_inboxesI [rotated]) (simp_all add: drop_senders_rest(1) remove_peer_def Let_def)
qed (simp add: remove_peer_def Let_def)

lemma broadcast_inboxes:
  "same_inboxes contents s (broadcast env l s)" "hb_incoming (broadcast env l s) = hb_incoming s"
proof -
  note rest = same_task_simps(1,3) [OF broadcast_loop_rest(3)]
  show "same_inboxes contents s (broadcast env l s)"
    by (rule same_inboxesI [of "broadcast_loop env l (hb_peers s) (hb_tasks s)"])
       (simp_all add: broadcast_loop_rest(1) rest broadcast_def)
qed (simp add: broadcast_def)

lemma poll_connection_inboxes:
  assumes laws: "hyperchat_laws env output left contents closed icontents iclosed"
    and "i < length (hb_tasks s)" and "poll_connection env i s = ret s'"
  shows "\<exists>new. inbox contents s' = (inbox contents s)(i := inbox contents s i @ new)"
    and "length (hb_tasks s') = length (hb_tasks s)" "hb_incoming s' = hb_incoming s"
    and "ct_peer_id (hb_tasks s' ! j) = ct_peer_id (hb_tasks s ! j)"
proof -
  note chan = hyperchat_lawsD(2) [OF laws]
  from assms(3) obtain l r where loop: "connection_loop (hc_chat env) (ct_loop (hb_tasks s ! i)) = ret (l, r)"
    and s': "s' = s\<lparr>hb_tasks := (hb_tasks s)[i := after_poll env (hb_tasks s ! i) l r]\<rparr>"
    by (auto simp: poll_connection_def Let_def run_simps)
  have "contents (cl_inbound (ct_loop (after_poll env t l r))) = contents (cl_inbound l)" for t
    using channel_lawsD(8) [OF chan] by (cases r rule: after_poll_cases) (simp_all add: drop_ends_def)
  with connection_loop_inbound(2) [OF loop chan] assms(2)
  show "\<exists>new. inbox contents s' = (inbox contents s)(i := inbox contents s i @ new)"
    by (auto simp: s' inbox_def fun_eq_iff)
  have "ct_peer_id (after_poll env t l r) = ct_peer_id t" for t
    by (cases r rule: after_poll_cases) simp_all
  then show "ct_peer_id (hb_tasks s' ! j) = ct_peer_id (hb_tasks s ! j)"
    using assms(2) by (cases "j = i") (simp_all add: s')
qed (use assms(3) in \<open>auto simp: poll_connection_def Let_def run_simps\<close>)

text \<open>One turn of forwarding moves the head of an inbox to the end of the common queue.\<close>

lemma forward_message_inboxes:
  assumes laws: "hyperchat_laws env output left contents closed icontents iclosed"
    and "\<not> iclosed (hb_incoming s)" and "i < length (hb_tasks s)" and "forward_message env i s = ret s'"
  shows "\<not> iclosed (hb_incoming s')" "length (hb_tasks s') = length (hb_tasks s)"
    and "ct_peer_id (hb_tasks s' ! j) = ct_peer_id (hb_tasks s ! j)"
    and "inbox contents s' = (inbox contents s)(i := tl (inbox contents s i))"
    and "icontents (hb_incoming s') = icontents (hb_incoming s) @
      map (\<lambda>m. \<lparr>im_from = ct_peer_id (hb_tasks s ! i), im_content = m\<rparr>) (take 1 (inbox contents s i))"
proof -
  from forward_message_cases [OF laws assms(2), of i] assms(4) obtain inbound incoming where
    s': "s' = s\<lparr>hb_tasks := (hb_tasks s)[i := set_inbound inbound (hb_tasks s ! i)], hb_incoming := incoming\<rparr>"
    and "open": "\<not> iclosed incoming"
    and moved: "case contents (cl_inbound (ct_loop (hb_tasks s ! i))) of
       [] \<Rightarrow> contents inbound = [] \<and> icontents incoming = icontents (hb_incoming s)
     | m # ms \<Rightarrow> contents inbound = ms \<and> icontents incoming =
         icontents (hb_incoming s) @ [\<lparr>im_from = ct_peer_id (hb_tasks s ! i), im_content = m\<rparr>]" by auto
  show "\<not> iclosed (hb_incoming s')" "length (hb_tasks s') = length (hb_tasks s)" by (simp_all add: s' "open")
  show "ct_peer_id (hb_tasks s' ! j) = ct_peer_id (hb_tasks s ! j)"
    using assms(3) by (cases "j = i") (simp_all add: s')
  show "inbox contents s' = (inbox contents s)(i := tl (inbox contents s i))"
    using moved assms(3) by (auto simp: s' inbox_def fun_eq_iff split: list.splits)
  show "icontents (hb_incoming s') = icontents (hb_incoming s) @
      map (\<lambda>m. \<lparr>im_from = ct_peer_id (hb_tasks s ! i), im_content = m\<rparr>) (take 1 (inbox contents s i))"
    using moved assms(3) by (auto simp: s' inbox_def split: list.splits)
qed

subsection \<open>Messages in transit\<close>

text \<open>
  Two queues in a row: \<open>handed\<close> is what has been forwarded so far, each message with the number of
  its connection. It is what was printed and then what waits to be printed, and of each connection
  it has what the connection received, less what waits in its inbox: no message is lost, repeated
  or overtaken by a later one of its connection.
\<close>

definition incoming_from :: "('a, 'r, 'x, 'q, 'i) hyper_broadcast \<Rightarrow> nat \<times> bytes \<Rightarrow> incoming_message" where
  "incoming_from s x = \<lparr>im_from = ct_peer_id (hb_tasks s ! fst x), im_content = snd x\<rparr>"

definition of_connection :: "nat \<Rightarrow> (nat \<times> bytes) list \<Rightarrow> bytes list" where
  "of_connection i handed = map snd (filter (\<lambda>x. fst x = i) handed)"

definition in_transit ::
  "('q \<Rightarrow> bytes list) \<Rightarrow> ('i \<Rightarrow> incoming_message list) \<Rightarrow> (nat \<Rightarrow> bytes list) \<Rightarrow>
     ('a, 'r, 'x, 'q, 'i) hyper_broadcast \<Rightarrow> (nat \<times> bytes) list \<Rightarrow> incoming_message list \<Rightarrow> bool" where
  "in_transit contents icontents received s handed printed \<longleftrightarrow>
     (\<forall>x \<in> set handed. fst x < length (hb_tasks s)) \<and>
     map (incoming_from s) handed = printed @ icontents (hb_incoming s) \<and>
     (\<forall>i. of_connection i handed @ inbox contents s i = received i)"

lemma of_connection_simps [simp]:
  "of_connection i [] = []"
  "of_connection i (xs @ ys) = of_connection i xs @ of_connection i ys"
  "of_connection i (map (Pair j) ms) = (if i = j then ms else [])"
  by (auto simp: of_connection_def filter_map o_def)

lemma incoming_from_same:
  assumes "\<And>i. i < length (hb_tasks s) \<Longrightarrow> ct_peer_id (hb_tasks s' ! i) = ct_peer_id (hb_tasks s ! i)"
    and "\<forall>x \<in> set xs. fst x < length (hb_tasks s)"
  shows "map (incoming_from s') xs = map (incoming_from s) xs"
  using assms by (simp add: incoming_from_def)

lemma in_transit_same:
  assumes "in_transit contents icontents received s handed printed"
    and "same_inboxes contents s s'" and "hb_incoming s' = hb_incoming s"
  shows "in_transit contents icontents received s' handed printed"
  using assms incoming_from_same [of s s' handed] by (force simp: in_transit_def same_inboxes_def)

lemma in_transit_polled:
  assumes laws: "hyperchat_laws env output left contents closed icontents iclosed"
    and transit: "in_transit contents icontents received s handed printed"
    and "i < length (hb_tasks s)" and "poll_connection env i s = ret s'"
  shows "in_transit contents icontents (note_received contents s (Polled i) s' received) s' handed printed"
proof -
  note poll = poll_connection_inboxes [OF laws assms(3,4)]
  from poll(1) obtain new where "inbox contents s' = (inbox contents s)(i := inbox contents s i @ new)" by blast
  with transit poll(2,3) incoming_from_same [of s s' handed] poll(4) show ?thesis
    by (simp add: in_transit_def)
qed

lemma in_transit_forwarded:
  assumes laws: "hyperchat_laws env output left contents closed icontents iclosed"
    and transit: "in_transit contents icontents received s handed printed"
    and "\<not> iclosed (hb_incoming s)" and "i < length (hb_tasks s)" and "forward_message env i s = ret s'"
  shows "in_transit contents icontents received s' (handed @ map (Pair i) (take 1 (inbox contents s i))) printed"
proof -
  note fw = forward_message_inboxes [OF laws assms(3-5)]
  have "take 1 xs @ tl xs = xs" for xs :: "bytes list" by (cases xs) simp_all
  with transit fw(2-5) assms(4) incoming_from_same [of s s' handed] show ?thesis
    by (auto simp: in_transit_def incoming_from_def o_def)
qed

lemma print_loop_snoc:
  "print_loop name (ms @ [m]) =
     (case print_loop name ms of (name, lines) \<Rightarrow>
       (case print_message name m of (name, line) \<Rightarrow> (name, lines @ [line])))"
  by (induction ms arbitrary: name) (simp_all split: prod.splits)

lemma print_loop_length: "print_loop name ms = (name', lines) \<Longrightarrow> length lines = length ms"
  by (induction ms arbitrary: name name' lines) (auto split: prod.splits)

lemma in_transit_taken:
  assumes "in_transit contents icontents received s handed printed"
    and "icontents (hb_incoming s) = ms @ icontents q"
  shows "in_transit contents icontents received (s\<lparr>hb_incoming := q\<rparr>) handed (printed @ ms)"
proof -
  have "incoming_from (s\<lparr>hb_incoming := q\<rparr>) = incoming_from s"
    and "inbox contents (s\<lparr>hb_incoming := q\<rparr>) = inbox contents s"
    by (simp_all add: incoming_from_def inbox_def fun_eq_iff)
  with assms show ?thesis by (simp add: in_transit_def)
qed

lemma print_turn_transit:
  assumes chan: "channel_laws (hc_incoming env) icontents iclosed" and "\<not> iclosed (hb_incoming s)"
    and transit: "in_transit contents icontents received s handed printed"
    and pr: "print_loop None printed = (cp_name pr, cp_lines pr)" and turn: "print_turn env s pr = (s', pr')"
  shows "\<not> iclosed (hb_incoming s') \<and> (\<exists>printed'. in_transit contents icontents received s' handed printed' \<and>
    print_loop None printed' = (cp_name pr', cp_lines pr'))"
proof (cases "icontents (hb_incoming s)")
  case Nil
  from channel_lawsD(6) [OF chan Nil] assms(2) obtain q where
    q: "ch_poll_next (hc_incoming env) (hb_incoming s) = (q, Pending)" "icontents q = []" "\<not> iclosed q" by auto
  with turn have "s' = s\<lparr>hb_incoming := q\<rparr>" "pr' = pr" by (simp_all add: print_turn_def)
  with in_transit_taken [OF transit, of "[]" q] q Nil pr show ?thesis by auto
next
  case (Cons m ms)
  from channel_lawsD(5) [OF chan Cons] assms(2) obtain q where
    q: "ch_poll_next (hc_incoming env) (hb_incoming s) = (q, Ready (Some m))" "icontents q = ms" "\<not> iclosed q" by auto
  obtain name line where line: "print_message (cp_name pr) m = (name, line)" by fastforce
  with q turn have "s' = s\<lparr>hb_incoming := q\<rparr>" and "pr' = \<lparr>cp_name = name, cp_lines = cp_lines pr @ [line]\<rparr>"
    by (simp_all add: print_turn_def)
  with in_transit_taken [OF transit, of "[m]" q] q Cons pr line show ?thesis
    by (auto simp: print_loop_snoc intro!: exI [of _ "printed @ [m]"])
qed

text \<open>In every execution the queues are in this order, and what was printed was printed by \<open>print_loop\<close>.\<close>

lemma chat_run_transit:
  assumes "chat_run env contents initial events received s pr"
    and laws: "hyperchat_laws env output left contents closed icontents iclosed"
  shows "\<not> iclosed (hb_incoming s) \<and> (\<exists>handed printed. in_transit contents icontents received s handed printed \<and>
    print_loop None printed = (cp_name pr, cp_lines pr))"
  using assms(1)
proof (induction rule: chat_run.induct)
  case begins
  show ?case using channel_lawsD(1,2) [OF hyperchat_lawsD(3) [OF laws]]
    by (auto simp: in_transit_def broadcast_new_def inbox_def printer_new_def intro!: exI [of _ "[]"])
next
  case (steps events received s pr e s')
  from steps.IH obtain handed printed where transit: "in_transit contents icontents received s handed printed"
    and "open": "\<not> iclosed (hb_incoming s)" and pr: "print_loop None printed = (cp_name pr, cp_lines pr)" by blast
  from steps.hyps(2) show ?case
  proof cases
    case (swarm_item item)
    with in_transit_same [OF transit] accept_stream_inboxes [OF laws, where s = s and item = item] "open" pr show ?thesis by auto
  next
    case (saved p)
    have "same_inboxes contents s (save_peer p s)" "hb_incoming (save_peer p s) = hb_incoming s"
      by (simp_all add: save_peer_def same_inboxes_def inbox_def fun_eq_iff)
    with saved in_transit_same [OF transit] "open" pr show ?thesis by auto
  next
    case (polled i)
    with in_transit_polled [OF laws transit polled(2,4)] poll_connection_inboxes(3) [OF laws polled(2,4)] "open" pr
    show ?thesis by (auto simp del: note_received.simps)
  next
    case (removed i)
    with in_transit_same [OF transit] remove_peer_inboxes [where s = s and env = env and i = i] "open" pr show ?thesis by auto
  next
    case (forwarded i)
    with in_transit_forwarded [OF laws transit "open" forwarded(2,3)]
      forward_message_inboxes(1) [OF laws "open" forwarded(2,3)] pr show ?thesis by auto
  next
    case (line l)
    then have "s' = broadcast env l s" by (simp add: stdin_turn_def)
    with line in_transit_same [OF transit] broadcast_inboxes [where s = s and env = env and l = l] "open" pr show ?thesis by auto
  qed
next
  case (prints events received s pr s' pr')
  with print_turn_transit [OF hyperchat_lawsD(3) [OF laws]] show ?case by metis
qed

subsection \<open>From the wire to the channel of a connection\<close>

text \<open>The connections that the swarm handed over, in order.\<close>

definition accepted :: "'a chat_event list \<Rightarrow> 'a connection list" where
  "accepted events = concat (map (\<lambda>e. case e of SwarmItem (Some (Inr c)) \<Rightarrow> [c] | _ \<Rightarrow> []) events)"

lemma accepted_simps [simp]:
  "accepted [] = []"
  "accepted (events @ [e]) = accepted events @ (case e of SwarmItem (Some (Inr c)) \<Rightarrow> [c] | _ \<Rightarrow> [])"
  by (simp_all add: accepted_def)

text \<open>
  What a connection has received is what its stream \<open>wire\<close> starts with, when the stream never hands
  over a part of a length; while its loop runs, what is undelivered is the rest.
\<close>

definition conn_ok ::
  "('a connection \<Rightarrow> bytes) \<Rightarrow> ('r \<Rightarrow> bytes) \<Rightarrow> ('r \<Rightarrow> nat) \<Rightarrow> ('q \<Rightarrow> bool) \<Rightarrow> bytes \<Rightarrow> bytes list \<Rightarrow>
     ('a, 'r, 'x, 'q) chat_task \<Rightarrow> bool" where
  "conn_ok input held need closed wire got t \<longleftrightarrow>
     (\<forall>m \<in> set got. length m < 2 ^ 32) \<and>
     (\<exists>rest. concat (map frame got) @ rest = wire \<and>
       (ct_state t = Running \<longrightarrow> unsplit held need closed (ct_loop t) \<and> rest = undelivered input held need (ct_loop t)))"

lemma conn_ok_over: "conn_ok input held need closed wire got t \<Longrightarrow> ct_state t' \<noteq> Running \<Longrightarrow>
    conn_ok input held need closed wire got t'"
  by (auto simp: conn_ok_def)

lemma conn_ok_same: "conn_ok input held need closed wire got t \<Longrightarrow> same_task t t' \<Longrightarrow>
    conn_ok input held need closed wire got t'"
  by (auto simp: conn_ok_def same_task_def unsplit_def chat_inv_def undelivered_def split: chat_wait.splits)

lemma conn_ok_inbound:
  "conn_ok input held need closed wire got t \<Longrightarrow> closed q = closed (cl_inbound (ct_loop t)) \<Longrightarrow>
    conn_ok input held need closed wire got (set_inbound q t)"
  by (auto simp: conn_ok_def unsplit_def chat_inv_def undelivered_def split: chat_wait.splits)

lemma conn_ok_poll:
  assumes ok: "conn_ok input held need closed wire got t" and "ct_state t = Running"
    and loop: "connection_loop (hc_chat env) (ct_loop t) = ret (l, r)"
    and laws: "chat_laws (hc_chat env) input held need" "channel_laws (ce_channel (hc_chat env)) contents closed"
      "lengths_whole (hc_chat env) held need"
  shows "\<exists>new. contents (cl_inbound l) = contents (cl_inbound (ct_loop t)) @ new \<and>
    conn_ok input held need closed wire (got @ new) (after_poll env t l r)"
proof -
  from ok assms(2) have un: "unsplit held need closed (ct_loop t)"
    and wire: "concat (map frame got) @ undelivered input held need (ct_loop t) = wire" by (auto simp: conn_ok_def)
  from connection_loop_unsplit [OF loop refl un laws] obtain new rest where
    new: "contents (cl_inbound l) = contents (cl_inbound (ct_loop t)) @ new" "\<forall>m \<in> set new. length m < 2 ^ 32"
      "concat (map frame new) @ rest = undelivered input held need (ct_loop t)"
      "r = Pending \<longrightarrow> unsplit held need closed l \<and> rest = undelivered input held need l" by blast
  have "concat (map frame (got @ new)) @ rest = wire" using wire new(3) by simp
  with new ok assms(2) have "conn_ok input held need closed wire (got @ new) (after_poll env t l r)"
    by (cases r rule: after_poll_cases) (auto simp: conn_ok_def)
  with new(1) show ?thesis by blast
qed

definition conns_ok ::
  "('a connection \<Rightarrow> bytes) \<Rightarrow> ('r \<Rightarrow> bytes) \<Rightarrow> ('r \<Rightarrow> nat) \<Rightarrow> ('q \<Rightarrow> bool) \<Rightarrow> 'a connection list \<Rightarrow> (nat \<Rightarrow> bytes list) \<Rightarrow>
     ('a, 'r, 'x, 'q) chat_task list \<Rightarrow> bool" where
  "conns_ok input held need closed conns received tasks \<longleftrightarrow>
     length tasks = length conns \<and> (\<forall>i \<ge> length tasks. received i = []) \<and>
     (\<forall>i < length tasks. conn_ok input held need closed (input (conns ! i)) (received i) (tasks ! i))"

lemma conns_ok_map:
  assumes "conns_ok input held need closed conns received tasks" and "length tasks' = length tasks"
    and "\<And>i wire got. i < length tasks \<Longrightarrow> conn_ok input held need closed wire got (tasks ! i) \<Longrightarrow>
      conn_ok input held need closed wire got (tasks' ! i)"
  shows "conns_ok input held need closed conns received tasks'"
  using assms by (simp add: conns_ok_def)

lemma conns_ok_remove:
  assumes "conns_ok input held need closed conns received (hb_tasks s)"
  shows "conns_ok input held need closed conns received (hb_tasks (remove_peer env i s))"
proof -
  let ?tasks = "fold (drop_sender env) (filter (\<lambda>p. peer_id p = ct_peer_id (hb_tasks s ! i)) (hb_peers s)) (hb_tasks s)"
  have "conn_ok input held need closed wire got (?tasks[i := (?tasks ! i)\<lparr>ct_state := Ended\<rparr>] ! j)"
    if "j < length (hb_tasks s)" "conn_ok input held need closed wire got (hb_tasks s ! j)" for j wire got
    using that conn_ok_same [OF that(2) drop_senders_rest(3) [OF that(1)]]
    by (cases "j = i") (auto simp: drop_senders_rest(1) intro: conn_ok_over)
  from conns_ok_map [OF assms _ this] show ?thesis by (simp add: drop_senders_rest(1) remove_peer_def Let_def)
qed

lemma conns_ok_accept:
  assumes laws: "hyperchat_laws env output left contents closed icontents iclosed"
    "chat_laws (hc_chat env) input held need"
    and ok: "conns_ok input held need closed conns received (hb_tasks s)"
  shows "conns_ok input held need closed (conns @ (case item of Some (Inr c) \<Rightarrow> [c] | _ \<Rightarrow> [])) received
    (hb_tasks (accept_stream env item s))"
proof -
  note chan = hyperchat_lawsD(2) [OF laws(1)]
  consider "item = None" | e where "item = Some (Inl e)" | c where "item = Some (Inr c)"
    by (metis option.exhaust sum.exhaust)
  then show ?thesis
  proof cases
    case 3
    from channel_lawsD(3) [OF chan channel_lawsD(2) [OF chan]] obtain q where
      "ch_try_send (ce_channel (hc_chat env)) (hb_initial_message s) (ch_unbounded (ce_channel (hc_chat env))) = (q, Inr ())"
      by blast
    with ok 3 channel_lawsD(2) [OF chan] chat_lawsD(1,2) [OF laws(2)] show ?thesis
      by (auto simp: accept_stream_def Let_def conns_ok_def nth_append less_Suc_eq conn_ok_def chat_start_def
          unsplit_def chat_inv_def undelivered_def)
  qed (use ok in \<open>simp_all add: accept_stream_def\<close>)
qed

lemma conns_ok_polled:
  assumes laws: "hyperchat_laws env output left contents closed icontents iclosed"
    "chat_laws (hc_chat env) input held need" "lengths_whole (hc_chat env) held need"
    and ok: "conns_ok input held need closed conns received (hb_tasks s)"
    and i: "i < length (hb_tasks s)" "ct_state (hb_tasks s ! i) = Running" and "poll_connection env i s = ret s'"
  shows "conns_ok input held need closed conns (note_received contents s (Polled i) s' received) (hb_tasks s')"
proof -
  from assms(7) obtain l r where loop: "connection_loop (hc_chat env) (ct_loop (hb_tasks s ! i)) = ret (l, r)"
    and s': "hb_tasks s' = (hb_tasks s)[i := after_poll env (hb_tasks s ! i) l r]"
    by (auto simp: poll_connection_def Let_def run_simps)
  from ok i have "conn_ok input held need closed (input (conns ! i)) (received i) (hb_tasks s ! i)"
    by (simp add: conns_ok_def)
  from conn_ok_poll [OF this i(2) loop laws(2) hyperchat_lawsD(2) [OF laws(1)] laws(3)] obtain new where
    new: "contents (cl_inbound l) = contents (cl_inbound (ct_loop (hb_tasks s ! i))) @ new"
      "conn_ok input held need closed (input (conns ! i)) (received i @ new) (after_poll env (hb_tasks s ! i) l r)"
    by blast
  have "contents (cl_inbound (ct_loop (after_poll env t l r))) = contents (cl_inbound l)" for t
    using channel_lawsD(8) [OF hyperchat_lawsD(2) [OF laws(1)]]
    by (cases r rule: after_poll_cases) (simp_all add: drop_ends_def)
  with new(1) i s' have "drop (length (inbox contents s i)) (inbox contents s' i) = new" by (simp add: inbox_def)
  with ok i new(2) s' show ?thesis by (auto simp: conns_ok_def nth_list_update)
qed

lemma chat_run_conns_ok:
  assumes "chat_run env contents initial events received s pr"
    and laws: "hyperchat_laws env output left contents closed icontents iclosed"
      "chat_laws (hc_chat env) input held need" "lengths_whole (hc_chat env) held need"
  shows "conns_ok input held need closed (accepted events) received (hb_tasks s)"
  using assms(1)
proof (induction rule: chat_run.induct)
  case (steps events received s pr e s')
  from steps.hyps(2) show ?case
  proof cases
    case (swarm_item item)
    with conns_ok_accept [OF laws(1,2) steps.IH, of item] show ?thesis by simp
  next
    case (saved p)
    with steps.IH show ?thesis by (simp add: save_peer_def)
  next
    case (polled i)
    with conns_ok_polled [OF laws steps.IH polled(2-4)] show ?thesis by (simp del: note_received.simps)
  next
    case (removed i)
    with conns_ok_remove [OF steps.IH] show ?thesis by simp
  next
    case (forwarded i)
    obtain q p where q: "ch_poll_next (ce_channel (hc_chat env)) (cl_inbound (ct_loop (hb_tasks s ! i))) = (q, p)"
      by fastforce
    with forwarded(3) have s': "hb_tasks s' = (hb_tasks s)[i := set_inbound q (hb_tasks s ! i)]"
      by (auto simp: forward_message_def Let_def run_simps split: prod.splits poll.splits option.splits)
    have "closed q = closed (cl_inbound (ct_loop (hb_tasks s ! i)))"
      using channel_poll_queue(2) [OF hyperchat_lawsD(2) [OF laws(1)]] q by (metis fst_conv)
    with conns_ok_map [OF steps.IH, of "hb_tasks s'"] s' forwarded(1,2) show ?thesis
      by (auto simp: nth_list_update conn_ok_inbound)
  next
    case (line l)
    then have "hb_tasks s' = broadcast_loop env l (hb_peers s) (hb_tasks s)"
      by (auto simp: stdin_turn_def broadcast_def)
    moreover have "conns_ok input held need closed (accepted events) received (broadcast_loop env l (hb_peers s) (hb_tasks s))"
      by (rule conns_ok_map [OF steps.IH]) (auto simp: broadcast_loop_rest(1) intro: conn_ok_same broadcast_loop_rest(3))
    ultimately show ?thesis using line by simp
  qed
next
  case (prints events received s pr s' pr')
  then show ?case by (auto simp: print_turn_def split: prod.splits poll.splits option.splits)
qed (simp add: conns_ok_def broadcast_new_def)

subsection \<open>An execution for examples\<close>

text \<open>
  A stream for examples, the input and what was written, whose reads wait until all their bytes are
  there. Two peers connect and send their names, which are forwarded and printed.
\<close>

definition whole_script ::
  "(bytes \<times> bytes, nat, bytes, bytes list \<times> bool, incoming_message list \<times> bool) hyperchat_env" where
  "whole_script =
     \<lparr>hc_chat =
        \<lparr>ce_read_exact = (\<lambda>n. n),
         ce_read_poll = (\<lambda>n c. case conn_inner c of (i, out) \<Rightarrow>
           if n \<le> length i then (n, c\<lparr>conn_inner := (drop n i, out)\<rparr>, Ready (Inr (take n i))) else (n, c, Pending)),
         ce_write_all = (\<lambda>bs. bs),
         ce_write_poll = (\<lambda>x c. case conn_inner c of (i, out) \<Rightarrow> (x, c\<lparr>conn_inner := (i, out @ x)\<rparr>, Ready (Inr ()))),
         ce_channel = list_channel\<rparr>,
      hc_incoming = list_channel\<rparr>"

lemma whole_script_laws:
  "hyperchat_laws whole_script (\<lambda>c. snd (conn_inner c)) (\<lambda>x. x) fst snd fst snd"
  "chat_laws (hc_chat whole_script) (\<lambda>c. fst (conn_inner c)) (\<lambda>_. []) (\<lambda>n. n)"
  "lengths_whole (hc_chat whole_script) (\<lambda>_. []) (\<lambda>n. n)"
  by (auto simp: hyperchat_laws_def whole_script_def chat_write_laws_def chat_laws_def lengths_whole_def
      list_channel_laws split: prod.splits if_splits)

abbreviation greeting_from :: "u16 \<Rightarrow> u8 \<Rightarrow> (bytes \<times> bytes) connection" where
  "greeting_from port c \<equiv>
     connection_new ([0, 0, 0, 1, c], []) (SocketV4 (Ipv4Addr 127 0 0 1) port) True ''tcp''"

abbreviation greeting_events :: "(bytes \<times> bytes) chat_event list" where
  "greeting_events \<equiv>
     [SwarmItem (Some (Inr (greeting_from 5000 97))), Saved, SwarmItem (Some (Inr (greeting_from 5001 98))), Saved,
      Polled 0, Polled 1, Forwarded 0, Forwarded 1]"

lemma chat_run_steps:
  "chat_run env contents initial events received s pr \<Longrightarrow> hb_run s = Accepting \<Longrightarrow>
     chat_run env contents initial (events @ [SwarmItem item]) received (accept_stream env item s) pr"
  "chat_run env contents initial events received s pr \<Longrightarrow> hb_run s = Saving p \<Longrightarrow>
     chat_run env contents initial (events @ [Saved]) received (save_peer p s) pr"
  "chat_run env contents initial events received s pr \<Longrightarrow> i < length (hb_tasks s) \<Longrightarrow>
     ct_state (hb_tasks s ! i) = Running \<Longrightarrow> poll_connection env i s = ret s' \<Longrightarrow>
     chat_run env contents initial (events @ [Polled i]) (note_received contents s (Polled i) s' received) s' pr"
  "chat_run env contents initial events received s pr \<Longrightarrow> i < length (hb_tasks s) \<Longrightarrow>
     forward_message env i s = ret s' \<Longrightarrow> chat_run env contents initial (events @ [Forwarded i]) received s' pr"
  by (metis chat_run.steps chat_step.swarm_item note_received.simps,
      metis chat_run.steps chat_step.saved note_received.simps, metis chat_run.steps chat_step.polled,
      metis chat_run.steps chat_step.forwarded note_received.simps)

lemma greetings_printed:
  obtains received s pr a b where "chat_run whole_script fst [110] greeting_events received s pr"
    "received 0 = [[97]]" "received 1 = [[98]]"
    "cp_lines pr = [''['' @ a @ ''] is now known as `a`'', ''['' @ b @ ''] <a> b'']" "cp_name pr = Some ''a''"
    "map ct_peer_id (hb_tasks s) = [a, b]" "a \<noteq> b"
    "fst (hb_incoming s) = []" "inbox fst s 0 = []" "inbox fst s 1 = []"
proof -
  let ?run = "chat_run whole_script fst [110]"
  let ?s0 = "broadcast_new whole_script [110]"
  let ?s1 = "accept_stream whole_script (Some (Inr (greeting_from 5000 97))) ?s0"
  obtain p where p: "hb_run ?s1 = Saving p" by (simp add: hyperchat_eval whole_script_def)
  let ?s2 = "save_peer p ?s1"
  let ?s3 = "accept_stream whole_script (Some (Inr (greeting_from 5001 98))) ?s2"
  obtain p' where p': "hb_run ?s3 = Saving p'" by (simp add: hyperchat_eval whole_script_def)
  let ?s4 = "save_peer p' ?s3"
  define a b where "a = ''tcp:'' @ show_socket_addr (SocketV4 (Ipv4Addr 127 0 0 1) 5000)"
    and "b = ''tcp:'' @ show_socket_addr (SocketV4 (Ipv4Addr 127 0 0 1) 5001)"
  have 4: "?run (take 4 greeting_events) (\<lambda>_. []) ?s4 printer_new"
    using chat_run_steps(2) [OF chat_run_steps(1) [OF chat_run_steps(2) [OF chat_run_steps(1) [OF
      chat_run.begins _, of whole_script "[110]" fst "Some (Inr (greeting_from 5000 97))"] p] _] p']
    by (simp add: broadcast_new_def save_peer_def)
  have run: "hb_tasks ?s4 = [hb_tasks ?s4 ! 0, hb_tasks ?s4 ! 1]" "ct_state (hb_tasks ?s4 ! 0) = Running"
    "ct_state (hb_tasks ?s4 ! 1) = Running" "inbox fst ?s4 0 = []" "cl_inbound (ct_loop (hb_tasks ?s4 ! 1)) = ([], False)"
    by (simp_all add: hyperchat_eval whole_script_def inbox_def)
  obtain t where 5: "poll_connection whole_script 0 ?s4 = ret (?s4\<lparr>hb_tasks := [t, hb_tasks ?s4 ! 1]\<rparr>)"
    and t: "cl_inbound (ct_loop t) = ([[97]], False)" "ct_peer_id t = a"
    by (simp add: hyperchat_eval whole_script_def frame_def u32_to_be_bytes_def u32_from_be_bytes_def a_def)
  let ?s5 = "?s4\<lparr>hb_tasks := [t, hb_tasks ?s4 ! 1]\<rparr>"
  obtain t' where 6: "poll_connection whole_script 1 ?s5 = ret (?s5\<lparr>hb_tasks := [t, t']\<rparr>)"
    and t': "cl_inbound (ct_loop t') = ([[98]], False)" "ct_peer_id t' = b"
    by (simp add: hyperchat_eval whole_script_def frame_def u32_to_be_bytes_def u32_from_be_bytes_def b_def)
  have ops: "hc_incoming whole_script = list_channel" "ce_channel (hc_chat whole_script) = list_channel"
    by (simp_all add: whole_script_def)
  have none: "hb_incoming ?s4 = ([], False)" by (simp add: hyperchat_eval whole_script_def)
  let ?m = "\<lparr>im_from = a, im_content = [97]\<rparr>" and ?m' = "\<lparr>im_from = b, im_content = [98]\<rparr>"
  let ?u = "set_inbound ([], False) t" and ?u' = "set_inbound ([], False) t'"
  let ?s6 = "?s5\<lparr>hb_tasks := [t, t']\<rparr>"
  let ?s7 = "?s6\<lparr>hb_tasks := [?u, t'], hb_incoming := ([?m], False)\<rparr>"
  let ?s8 = "?s7\<lparr>hb_tasks := [?u, ?u'], hb_incoming := ([?m, ?m'], False)\<rparr>"
  have 7: "forward_message whole_script 0 ?s6 = ret ?s7"
    and 8: "forward_message whole_script 1 ?s7 = ret ?s8"
    by (simp_all add: forward_message_def ops t t' none Let_def)
  let ?l = "''['' @ a @ ''] is now known as `a`''" and ?l' = "''['' @ b @ ''] <a> b''"
  let ?s9 = "?s8\<lparr>hb_incoming := ([?m'], False)\<rparr>" and ?pr9 = "\<lparr>cp_name = Some ''a'', cp_lines = [?l]\<rparr>"
  let ?s10 = "?s9\<lparr>hb_incoming := ([], False)\<rparr>" and ?pr10 = "\<lparr>cp_name = Some ''a'', cp_lines = [?l, ?l']\<rparr>"
  have chars: "string_from_utf8 [97] = Some ''a''" "string_from_utf8 [98] = Some ''b''" by code_simp+
  have 9: "print_turn whole_script ?s8 printer_new = (?s9, ?pr9)"
    and 10: "print_turn whole_script ?s9 ?pr9 = (?s10, ?pr10)"
    using chars by (simp_all add: print_turn_def print_message_def ops printer_new_def Let_def)
  let ?r5 = "note_received fst ?s4 (Polled 0) ?s5 (\<lambda>_. [])"
  let ?r6 = "note_received fst ?s5 (Polled 1) ?s6 ?r5"
  have "?run (take 4 greeting_events @ [Polled 0]) ?r5 ?s5 printer_new"
    by (rule chat_run_steps(3) [OF 4 _ run(2) 5]) (subst run(1), simp)
  from chat_run_steps(3) [OF this _ _ 6] run(3) have "?run (take 6 greeting_events) ?r6 ?s6 printer_new" by simp
  from chat_run_steps(4) [OF chat_run_steps(4) [OF this _ 7] _ 8] have "?run greeting_events ?r6 ?s8 printer_new" by simp
  from chat_run.prints [OF chat_run.prints [OF this 9] 10] have final: "?run greeting_events ?r6 ?s10 ?pr10" .
  have "?r6 0 = [[97]]" "?r6 1 = [[98]]" using run(4,5) t t' by (simp_all add: inbox_def)
  moreover have "a \<noteq> b" by (simp add: a_def b_def show_socket_v4_inj)
  ultimately show thesis using that [OF final, of a b] t t' by (simp add: inbox_def)
qed

subsection \<open>Properties\<close>

text \<open>
  C14: No received message is lost on the way to the terminal. In every execution the messages that
  were printed, followed by those that wait to be printed, are a merge of what the connections
  received, each under the name of its connection: what of connection \<open>i\<close> was forwarded, in order,
  followed by what waits in its channel, is exactly what its loop has received. The lines are those
  of \<open>print_loop\<close> for the printed messages.
\<close>

theorem received_messages_printed:
  assumes "hyperchat_laws env output left contents closed icontents iclosed"
    and "chat_run env contents initial events received s pr"
  shows "\<exists>handed printed. map (incoming_from s) handed = printed @ icontents (hb_incoming s) \<and>
    (\<forall>i. of_connection i handed @ inbox contents s i = received i) \<and>
    print_loop None printed = (cp_name pr, cp_lines pr)"
  using chat_run_transit [OF assms(2,1)] by (auto simp: in_transit_def)

theorem received_messages_printed_witness:
  "\<exists>received s pr handed printed. chat_run whole_script fst [110] greeting_events received s pr \<and>
    map (incoming_from s) handed = printed \<and> length printed = 2 \<and>
    of_connection 0 handed = [[97]] \<and> of_connection 1 handed = [[98]]"
proof -
  obtain received s pr a b where run: "chat_run whole_script fst [110] greeting_events received s pr"
    and at: "received 0 = [[97]]" "received 1 = [[98]]" "fst (hb_incoming s) = []" "inbox fst s 0 = []"
      "inbox fst s 1 = []"
      "cp_lines pr = [''['' @ a @ ''] is now known as `a`'', ''['' @ b @ ''] <a> b'']" by (rule greetings_printed)
  from received_messages_printed [OF whole_script_laws(1) run] at(3) obtain handed printed where
    *: "map (incoming_from s) handed = printed" "\<And>i. of_connection i handed @ inbox fst s i = received i"
      "print_loop None printed = (cp_name pr, cp_lines pr)" by auto
  from print_loop_length [OF *(3)] have "length printed = 2" by (simp add: at(6))
  moreover have "of_connection 0 handed = [[97]]" "of_connection 1 handed = [[98]]"
    using *(2) [of 0] *(2) [of 1] at by simp_all
  ultimately show ?thesis using run *(1) by blast
qed

text \<open>
  C13: From a peer's stream to the terminal, while both sides talk. Let the stream of the \<open>i\<close>-th
  connection never hand over a part of a length, and let what it carries be messages framed on the
  other side, each shorter than \<open>2 ^ 32\<close> bytes, the last perhaps cut off. Then in every execution the
  messages of this connection that were printed or wait to be printed are the first ones of those,
  unchanged and in order, whatever is sent meanwhile and however the connection ends.
\<close>

theorem printed_messages_were_sent:
  assumes "hyperchat_laws env output left contents closed icontents iclosed"
    and "chat_laws (hc_chat env) input held need" and "lengths_whole (hc_chat env) held need"
    and "chat_run env contents initial events received s pr" and "i < length (accepted events)"
    and "input (accepted events ! i) @ missing = concat (map frame msgs)" and "\<forall>m \<in> set msgs. length m < 2 ^ 32"
  shows "\<exists>handed printed n. map (incoming_from s) handed = printed @ icontents (hb_incoming s) \<and>
    print_loop None printed = (cp_name pr, cp_lines pr) \<and> of_connection i handed = take n msgs"
proof -
  from chat_run_transit [OF assms(4,1)] obtain handed printed where
    transit: "in_transit contents icontents received s handed printed"
    and pr: "print_loop None printed = (cp_name pr, cp_lines pr)" by blast
  from chat_run_conns_ok [OF assms(4,1-3)] assms(5)
  have "conn_ok input held need closed (input (accepted events ! i)) (received i) (hb_tasks s ! i)"
    by (simp add: conns_ok_def)
  then obtain rest where small: "\<forall>m \<in> set (received i). length m < 2 ^ 32"
    and "concat (map frame (received i)) @ rest = input (accepted events ! i)" by (auto simp: conn_ok_def)
  with assms(6) have "concat (map frame (received i)) @ rest @ missing = concat (map frame msgs)" by (metis append_assoc)
  from frames_prefix [OF this small assms(7)] have "received i = take (length (received i)) msgs" by blast
  moreover from transit have "of_connection i handed @ inbox contents s i = received i" by (simp add: in_transit_def)
  ultimately have "of_connection i handed = take (length (of_connection i handed)) msgs"
    by (metis append_eq_conv_conj take_take min.absorb1 length_append le_add1)
  with transit pr show ?thesis unfolding in_transit_def by blast
qed

theorem printed_messages_were_sent_witness:
  "\<exists>received s pr handed n. chat_run whole_script fst [110] greeting_events received s pr \<and>
    length (cp_lines pr) = 2 \<and> of_connection 1 handed = take n [[98], [99 :: u8]]"
proof -
  obtain received s pr a b where run: "chat_run whole_script fst [110] greeting_events received s pr"
    and lines: "cp_lines pr = [''['' @ a @ ''] is now known as `a`'', ''['' @ b @ ''] <a> b'']" by (rule greetings_printed)
  have wire: "1 < length (accepted greeting_events)"
    "fst (conn_inner (accepted greeting_events ! 1)) @ [0, 0, 0, 1, 99] = concat (map frame [[98], [99]])"
    by (simp_all add: accepted_def frame_def u32_to_be_bytes_def)
  have "\<forall>m \<in> set [[98], [99 :: u8]]. length m < 2 ^ 32" by simp
  from printed_messages_were_sent [OF whole_script_laws run wire this] obtain handed n where
    "of_connection 1 handed = take n [[98], [99]]" by blast
  moreover have "length (cp_lines pr) = 2" by (simp add: lines)
  ultimately show ?thesis using run by blast
qed

text \<open>The lines of the printing loop, once it has a name.\<close>

abbreviation shown :: "incoming_message \<Rightarrow> string" where
  "shown m \<equiv> unwrap_or ''<invalid utf8>'' (string_from_utf8 (im_content m))"

lemma print_loop_named:
  "print_loop (Some name) ms = (Some name, map (\<lambda>m. ''['' @ im_from m @ ''] <'' @ name @ ''> '' @ shown m) ms)"
  by (induction ms) (simp_all add: print_message_def Let_def)

text \<open>
  C24: The first message names everybody. Once something was printed, there is one name, the content of
  the first message that was printed; the first line presents it as the name of that message's
  sender, and every further line, from whatever connection, is shown under it, the hello messages of
  the other peers included. Each message printed was received by a connection with the printed name
  of its sender.
\<close>

theorem first_message_names_all:
  assumes "hyperchat_laws env output left contents closed icontents iclosed"
    and "chat_run env contents initial events received s pr" and "cp_lines pr \<noteq> []"
  shows "\<exists>first rest. cp_name pr = Some (shown first) \<and>
    cp_lines pr = (''['' @ im_from first @ ''] is now known as `'' @ shown first @ ''`'') #
      map (\<lambda>m. ''['' @ im_from m @ ''] <'' @ shown first @ ''> '' @ shown m) rest \<and>
    (\<forall>m \<in> set (first # rest). \<exists>i < length (hb_tasks s).
       im_from m = ct_peer_id (hb_tasks s ! i) \<and> im_content m \<in> set (received i))"
proof -
  from chat_run_transit [OF assms(2,1)] obtain handed printed where
    transit: "in_transit contents icontents received s handed printed"
    and pr: "print_loop None printed = (cp_name pr, cp_lines pr)" by blast
  from pr assms(3) obtain first rest where printed: "printed = first # rest" by (cases printed) auto
  have "\<exists>i < length (hb_tasks s). im_from m = ct_peer_id (hb_tasks s ! i) \<and> im_content m \<in> set (received i)"
    if "m \<in> set printed" for m
  proof -
    from transit have "set printed \<subseteq> incoming_from s ` set handed"
      unfolding in_transit_def by (metis Un_upper1 set_append set_map)
    with that obtain x where x: "x \<in> set handed" "m = incoming_from s x" by blast
    then have "snd x \<in> set (of_connection (fst x) handed)" by (auto simp: of_connection_def)
    with transit have "snd x \<in> set (received (fst x))"
      unfolding in_transit_def by (metis UnI1 set_append)
    with transit x show ?thesis by (auto simp: in_transit_def incoming_from_def)
  qed
  with pr printed show ?thesis
    by (intro exI [of _ first] exI [of _ rest]) (auto simp: print_loop_named print_message_def Let_def)
qed

theorem first_message_names_all_witness:
  "\<exists>received s pr first rest a b. chat_run whole_script fst [110] greeting_events received s pr \<and>
    cp_name pr = Some (shown first) \<and> shown first = ''a'' \<and> length (rest :: incoming_message list) = 1 \<and>
    cp_lines pr = [''['' @ a @ ''] is now known as `a`'', ''['' @ b @ ''] <a> b''] \<and> a \<noteq> b"
proof -
  obtain received s pr a b where run: "chat_run whole_script fst [110] greeting_events received s pr"
    and at: "cp_lines pr = [''['' @ a @ ''] is now known as `a`'', ''['' @ b @ ''] <a> b'']" "cp_name pr = Some ''a''"
      "a \<noteq> b" by (rule greetings_printed)
  from at(1) have "cp_lines pr \<noteq> []" by simp
  from first_message_names_all [OF whole_script_laws(1) run this] obtain first rest where
    *: "cp_name pr = Some (shown first)" and
    l: "cp_lines pr = (''['' @ im_from first @ ''] is now known as `'' @ shown first @ ''`'') #
      map (\<lambda>m. ''['' @ im_from m @ ''] <'' @ shown first @ ''> '' @ shown m) rest" by blast
  from arg_cong [OF l, of length] * at have name: "shown first = ''a''" "length rest = 1" by simp_all
  show ?thesis by (intro exI conjI, rule run, rule *, rule name, rule name, rule at, rule at)
qed

end
