(* ===== verification/Simple.thy ===== *)
theory Simple
  imports Utf8 Hyperswarm Bootstrap
begin

section \<open>The simple example (\<open>examples/simple.rs\<close>)\<close>

text \<open>
  Nodes that join one topic and print what their peers send. The text of an environment variable is
  an option, and a command that only prints is the line it prints. \<open>write_all\<close> is a future of
  \<open>async_std\<close> and a field of \<open>simple_env\<close>, as is the text of an \<open>io::Error\<close>.
\<close>

subsection \<open>The settings\<close>

definition default_bootstrap :: string where
  "default_bootstrap = ''localhost:6060''"

definition simple_bs_addr ::
  "('w, 'c) dht_config_ops \<Rightarrow> ('w, 'c, 'd) dht_env \<Rightarrow> ('d \<Rightarrow> socket_addr io_result) \<Rightarrow> string resolver \<Rightarrow>
     string option \<Rightarrow> ('w, string io_result) action" where
  "simple_bs_addr dc env local_addr other var =
     (case var of
        None \<Rightarrow>
          try_bind (act_return (bootstrap_with_addr dc (str_resolver other) default_bootstrap)) (\<lambda>node.
          try_bind (bootstrap_run dc env local_addr node) (\<lambda>(addr, task).
          act_return (Inr (show_socket_addr addr))))
      | Some addr \<Rightarrow>
          act_return (Inr (if addr = ''default'' then default_bootstrap else addr)))"

text \<open>\<open>u32::from_str\<close>: a sign \<open>+\<close>, digits, and a value that fits.\<close>

definition parse_u32 :: "string \<Rightarrow> u32 option" where
  "parse_u32 cs =
     (case parse_dec (case cs of c # ds \<Rightarrow> if c = CHR ''+'' then ds else cs | [] \<Rightarrow> []) of
        None \<Rightarrow> None
      | Some n \<Rightarrow> if n < 2 ^ 32 then Some (of_nat n) else None)"

definition simple_name :: "string option \<Rightarrow> string" where
  "simple_name var = unwrap_or ''rust'' var"

definition simple_count :: "string option \<Rightarrow> u32 option" where
  "simple_count var = parse_u32 (unwrap_or ''2'' var)"

text \<open>Both unwraps of the resolved bootstrap address.\<close>

definition simple_resolve :: "string resolver \<Rightarrow> string \<Rightarrow> socket_addr run" where
  "simple_resolve other bs_addr =
     run_bind (unwrap_res (str_resolver other bs_addr)) (\<lambda>addrs.
     unwrap_opt (case addrs of [] \<Rightarrow> None | a # _ \<Rightarrow> Some a))"

subsection \<open>A node\<close>

text \<open>
  One turn of the loop of the spawned task: a poll of the swarm. A connection is handed to
  \<open>on_connection\<close>, here added to those handed over so far, and the loop goes on, which is the result
  \<open>None\<close>; a pending poll suspends the task; the end of the stream ends it; an error of the swarm
  panics.
\<close>

definition node_turn ::
  "('d, 't, 'a, 'q) swarm_env \<Rightarrow> ('d, 't, 'q) hyperswarm \<Rightarrow> 'a connection list \<Rightarrow>
     (('d, 't, 'q) hyperswarm \<times> 'a connection list \<times> unit poll option) run" where
  "node_turn env s handed =
     run_bind (swarm_poll_next env s) (\<lambda>(s, item).
     case item of
       Pending \<Rightarrow> ret (s, handed, Some Pending)
     | Ready None \<Rightarrow> ret (s, handed, Some (Ready ()))
     | Ready (Some stream) \<Rightarrow>
         run_bind (unwrap_res stream) (\<lambda>stream. ret (s, handed @ [stream], None)))"

text \<open>One poll of the task.\<close>

partial_function (option) node_poll ::
  "('d, 't, 'a, 'q) swarm_env \<Rightarrow> ('d, 't, 'q) hyperswarm \<Rightarrow> 'a connection list \<Rightarrow>
     (('d, 't, 'q) hyperswarm \<times> 'a connection list \<times> unit poll) run" where
  "node_poll env s handed =
     run_bind (node_turn env s handed) (\<lambda>(s, handed, stop).
     case stop of Some p \<Rightarrow> ret (s, handed, p) | None \<Rightarrow> node_poll env s handed)"

text \<open>
  What the task does on its own while something else runs: some number of turns, with the task woken
  again whenever it was suspended. The last component says whether it is over, when the swarm is
  dropped.
\<close>

fun node_turns ::
  "('d, 't, 'a, 'q) swarm_env \<Rightarrow> nat \<Rightarrow> ('d, 't, 'q) hyperswarm \<Rightarrow> 'a connection list \<Rightarrow>
     (('d, 't, 'q) hyperswarm \<times> 'a connection list \<times> bool) run" where
  "node_turns env 0 s handed = ret (s, handed, False)"
| "node_turns env (Suc k) s handed =
     run_bind (node_turn env s handed) (\<lambda>(s, handed, stop).
     if stop = Some (Ready ()) then ret (s, handed, True) else node_turns env k s handed)"

text \<open>
  The task is spawned before the topic is configured, so by then it has gone through any number
  \<open>turns\<close> of turns. When it is over or has panicked by then, the receiver of the commands is dropped,
  and the configuration panics. The result is the task: its swarm and what it has handed over.
  A command sent in the middle of a turn counts as sent before or after it, since only the loop over
  the commands at its start looks at the queue.
\<close>

definition run_node where
  "run_node tenv uenv denv dc menv senv turns config =
     try_bind (swarm_bind tenv uenv denv dc menv (se_channel senv) config) (\<lambda>swarm.
     act_bind (act_run (node_turns senv turns swarm [])) (\<lambda>(swarm, handed, over).
     let topic = array32_fill 0;
         handle = (if over then ch_close (se_channel senv) (swarm_handle swarm) else swarm_handle swarm) in
     act_bind (act_run (handle_configure senv topic topic_config_both handle)) (\<lambda>handle.
     act_return (Inr (swarm\<lparr>sw_commands := handle\<rparr>, handed)))))"

text \<open>
  The loop over the nodes to start: node \<open>i\<close> and those after it, of \<open>count\<close>. The task of node \<open>i\<close> goes
  through \<open>turns i\<close> turns before its topic is configured.
\<close>

function run_nodes where
  "run_nodes tenv uenv denv dc menv senv turns bs_addr name i count =
     (if i < count
      then let config = set_bootstrap_nodes dc socket_addr_resolver [bs_addr] config_default in
        try_bind (run_node tenv uenv denv dc menv senv (turns i) config) (\<lambda>task.
        try_bind (run_nodes tenv uenv denv dc menv senv turns bs_addr name (Suc i) count) (\<lambda>tasks.
        act_return (Inr ((name @ ''.'' @ show_dec i, task) # tasks))))
      else act_return (Inr []))"
  by pat_completeness auto

termination
  by (relation "measure (\<lambda>(tenv, uenv, denv, dc, menv, senv, turns, bs_addr, name, i, count). count - i)") auto

declare run_nodes.simps [simp del]

text \<open>The program up to the wait for the tasks of its nodes.\<close>

datatype simple_error = SimpleIo io_error | SimpleParse

definition simple_main where
  "simple_main tenv uenv denv dc menv senv turns local_addr other bootstrap_var name_var count_var =
     act_bind (simple_bs_addr dc denv local_addr other bootstrap_var) (\<lambda>r.
     case r of
       Inl e \<Rightarrow> act_return (Inl (SimpleIo e))
     | Inr bs_addr \<Rightarrow>
         let name = simple_name name_var in
         (case simple_count count_var of
            None \<Rightarrow> act_return (Inl SimpleParse)
          | Some count \<Rightarrow>
              act_bind (act_run (simple_resolve other bs_addr)) (\<lambda>bs_addr.
              act_bind (run_nodes tenv uenv denv dc menv senv turns bs_addr name 0 (unat count)) (\<lambda>r.
              act_return (case r of Inl e \<Rightarrow> Inl (SimpleIo e) | Inr tasks \<Rightarrow> Inr tasks)))))"

subsection \<open>A connection\<close>

record ('s, 'x) simple_env =
  si_io :: "'s async_io"
  si_write_all :: "bytes \<Rightarrow> 'x"
  si_write_poll :: "'x \<Rightarrow> 's \<Rightarrow> 'x \<times> 's \<times> unit io_result poll"
  si_show_error :: "io_error \<Rightarrow> string"

definition connection_label :: "string \<Rightarrow> 'a connection \<Rightarrow> string" where
  "connection_label local_name stream =
     ''['' @ local_name @ ''] <'' @ connection_protocol stream @ ''://'' @ show_socket_addr (connection_peer_addr stream) @ ''>''"

datatype 'x simple_wait = Greeting 'x | Reading

record ('s, 'x) simple_task =
  st_label :: string
  st_stream :: 's
  st_buf :: bytes
  st_wait :: "'x simple_wait"
  st_printed :: "string list"

definition simple_on_connection ::
  "('a connection, 'x) simple_env \<Rightarrow> 'a connection \<Rightarrow> string \<Rightarrow> ('a connection, 'x) simple_task" where
  "simple_on_connection env stream local_name =
     (let label = connection_label local_name stream in
      \<lparr>st_label = label, st_stream = stream, st_buf = replicate 100 0,
       st_wait = Greeting (si_write_all env (string_bytes (''hi from '' @ local_name))),
       st_printed = [label @ '' connect'']\<rparr>)"

text \<open>\<open>&buf[..n]\<close>, with its panic.\<close>

definition slice_to :: "bytes \<Rightarrow> nat \<Rightarrow> bytes run" where
  "slice_to buf n = (if n \<le> length buf then ret (take n buf) else panic)"

text \<open>One poll of the task: the greeting first, then reads until the connection ends.\<close>

partial_function (option) connection_task ::
  "('s, 'x) simple_env \<Rightarrow> ('s, 'x) simple_task \<Rightarrow> (('s, 'x) simple_task \<times> unit poll) run" where
  "connection_task env t =
     (case st_wait t of
        Greeting fut \<Rightarrow>
          (case si_write_poll env fut (st_stream t) of
             (fut, stream, Pending) \<Rightarrow> ret (t\<lparr>st_stream := stream, st_wait := Greeting fut\<rparr>, Pending)
           | (fut, stream, Ready r) \<Rightarrow>
               run_bind (unwrap_res r) (\<lambda>_.
               connection_task env (t\<lparr>st_stream := stream, st_wait := Reading\<rparr>)))
      | Reading \<Rightarrow>
          (case io_read (si_io env) (st_buf t) (st_stream t) of
             (stream, buf, p) \<Rightarrow>
               let t = t\<lparr>st_stream := stream, st_buf := buf\<rparr> in
               (case p of
                  Pending \<Rightarrow> ret (t, Pending)
                | Ready (Inr n) \<Rightarrow>
                    if 0 < n
                    then run_bind (slice_to buf n) (\<lambda>chunk.
                         run_bind (unwrap_opt (string_from_utf8 chunk)) (\<lambda>text.
                         connection_task env
                           (t\<lparr>st_printed := st_printed t @ [st_label t @ '' message: '' @ text]\<rparr>)))
                    else ret (t\<lparr>st_printed := st_printed t @ [st_label t @ '' close'']\<rparr>, Ready ())
                | Ready (Inl e) \<Rightarrow>
                    ret (t\<lparr>st_printed := st_printed t @ [st_label t @ '' error: '' @ si_show_error env e]\<rparr>,
                         Ready ()))))"

lemma connection_task_simps:
  "st_wait t = Reading \<Longrightarrow> io_read (si_io env) (st_buf t) (st_stream t) = (st, buf, Pending) \<Longrightarrow>
     connection_task env t = ret (t\<lparr>st_stream := st, st_buf := buf\<rparr>, Pending)"
  "st_wait t = Reading \<Longrightarrow> io_read (si_io env) (st_buf t) (st_stream t) = (st, buf, Ready (Inl e)) \<Longrightarrow>
     connection_task env t = ret (t\<lparr>st_stream := st, st_buf := buf,
       st_printed := st_printed t @ [st_label t @ '' error: '' @ si_show_error env e]\<rparr>, Ready ())"
  "st_wait t = Reading \<Longrightarrow> io_read (si_io env) (st_buf t) (st_stream t) = (st, buf, Ready (Inr n)) \<Longrightarrow>
     connection_task env t =
       (if 0 < n
        then run_bind (slice_to buf n) (\<lambda>chunk. run_bind (unwrap_opt (string_from_utf8 chunk)) (\<lambda>text.
          connection_task env (t\<lparr>st_stream := st, st_buf := buf,
            st_printed := st_printed t @ [st_label t @ '' message: '' @ text]\<rparr>)))
        else ret (t\<lparr>st_stream := st, st_buf := buf,
            st_printed := st_printed t @ [st_label t @ '' close'']\<rparr>, Ready ()))"
  by (subst connection_task.simps, simp add: Let_def)+

lemma node_poll_unfold:
  "node_poll env s handed =
     run_bind (swarm_poll_next env s) (\<lambda>(s, item).
     case item of
       Pending \<Rightarrow> ret (s, handed, Pending)
     | Ready None \<Rightarrow> ret (s, handed, Ready ())
     | Ready (Some stream) \<Rightarrow>
         run_bind (unwrap_res stream) (\<lambda>stream. node_poll env s (handed @ [stream])))"
  by (subst node_poll.simps)
     (auto simp: node_turn_def run_bind_assoc intro!: run_bind_cong split: poll.split option.split)

text \<open>
  The reads of a stream that return something, as the slices of the buffer they fill, up to the first
  one that does not: pending, the end of the stream, or an error.
\<close>

inductive reads ::
  "'s async_io \<Rightarrow> 's \<Rightarrow> bytes \<Rightarrow> bytes list \<Rightarrow> 's \<Rightarrow> bytes \<Rightarrow> nat io_result poll \<Rightarrow> bool" for io where
  last: "io_read io buf st = (st', buf', r) \<Longrightarrow> (\<And>n. r \<noteq> Ready (Inr (Suc n))) \<Longrightarrow>
    reads io st buf [] st' buf' r"
| chunk: "io_read io buf st = (st1, buf1, Ready (Inr n)) \<Longrightarrow> 0 < n \<Longrightarrow> n \<le> length buf1 \<Longrightarrow>
    reads io st1 buf1 chunks st' buf' r \<Longrightarrow> reads io st buf (take n buf1 # chunks) st' buf' r"

fun last_line :: "('s, 'x) simple_env \<Rightarrow> string \<Rightarrow> nat io_result poll \<Rightarrow> string list \<times> unit poll" where
  "last_line env label Pending = ([], Pending)"
| "last_line env label (Ready (Inr n)) = ([label @ '' close''], Ready ())"
| "last_line env label (Ready (Inl e)) = ([label @ '' error: '' @ si_show_error env e], Ready ())"

subsection \<open>Properties\<close>

lemma node_turn_effect:
  assumes "hyperswarm_inv (hyperswarm_env tenv uenv denv menv ch debug ph) menv mcontents mclosed contents closed s"
    and "node_turn (hyperswarm_env tenv uenv denv menv ch debug ph) s handed = ret (s', handed', stop)"
  shows "stop \<noteq> Some (Ready ()) \<and> contents (sw_commands s') = [] \<and>
    hyperswarm_inv (hyperswarm_env tenv uenv denv menv ch debug ph) menv mcontents mclosed contents closed s' \<and>
    (\<exists>conns. handed' = handed @ conns \<and>
       swarm_effect (hyperswarm_env tenv uenv denv menv ch debug ph) s (contents (sw_commands s)) conns [] s')"
proof -
  let ?env = "hyperswarm_env tenv uenv denv menv ch debug ph"
  from assms(2) obtain s1 item where poll: "swarm_poll_next ?env s = ret (s1, item)"
    and rest: "(case item of
         Pending \<Rightarrow> ret (s1, handed, Some Pending)
       | Ready None \<Rightarrow> ret (s1, handed, Some (Ready ()))
       | Ready (Some stream) \<Rightarrow>
           run_bind (unwrap_res stream) (\<lambda>stream. ret (s1, handed @ [stream], None))) = ret (s', handed', stop)"
    by (auto simp: node_turn_def run_bind_eq_ret)
  from whole.poll_effect [OF assms(1) [unfolded hyperswarm_inv_def] poll] rest show ?thesis
    by (cases item rule: io_poll_cases) (auto simp: hyperswarm_inv_def)
qed

lemma node_turns_effect:
  assumes "hyperswarm_inv (hyperswarm_env tenv uenv denv menv ch debug ph) menv mcontents mclosed contents closed s"
    and "contents (sw_commands s) = []"
    and "node_turns (hyperswarm_env tenv uenv denv menv ch debug ph) k s handed = ret (s', handed', over)"
  shows "\<not> over \<and> contents (sw_commands s') = [] \<and>
    hyperswarm_inv (hyperswarm_env tenv uenv denv menv ch debug ph) menv mcontents mclosed contents closed s' \<and>
    (\<exists>conns. handed' = handed @ conns \<and>
       swarm_effect (hyperswarm_env tenv uenv denv menv ch debug ph) s [] conns [] s')"
  using assms
proof (induction k arbitrary: s handed)
  case 0
  then show ?case by (auto intro: swarm_effect_refl)
next
  case (Suc k)
  let ?env = "hyperswarm_env tenv uenv denv menv ch debug ph"
  from Suc.prems(3) obtain s1 h1 stop where turn: "node_turn ?env s handed = ret (s1, h1, stop)"
    and rest: "(if stop = Some (Ready ()) then ret (s1, h1, True) else node_turns ?env k s1 h1) = ret (s', handed', over)"
    by (auto simp: run_simps)
  from node_turn_effect [OF Suc.prems(1) turn] Suc.prems(2) obtain conns where
    1: "stop \<noteq> Some (Ready ())" "contents (sw_commands s1) = []" "h1 = handed @ conns"
      "hyperswarm_inv ?env menv mcontents mclosed contents closed s1" "swarm_effect ?env s [] conns [] s1" by auto
  from Suc.IH [OF 1(4,2)] rest 1(1) obtain more where
    2: "\<not> over" "contents (sw_commands s') = []" "handed' = h1 @ more"
      "hyperswarm_inv ?env menv mcontents mclosed contents closed s'" "swarm_effect ?env s1 [] more [] s'" by auto
  from swarm_effect_trans [OF 1(5) 2(5)] 1(3) 2 show ?case by auto
qed

lemma node_poll_effect:
  assumes "hyperswarm_inv (hyperswarm_env tenv uenv denv menv ch debug ph) menv mcontents mclosed contents closed s"
    and "node_poll (hyperswarm_env tenv uenv denv menv ch debug ph) s handed = ret (s', handed', p)"
  shows "p = Pending \<and> contents (sw_commands s') = [] \<and>
    hyperswarm_inv (hyperswarm_env tenv uenv denv menv ch debug ph) menv mcontents mclosed contents closed s' \<and>
    (\<exists>conns. handed' = handed @ conns \<and>
       swarm_effect (hyperswarm_env tenv uenv denv menv ch debug ph) s (contents (sw_commands s)) conns [] s')"
proof -
  let ?env = "hyperswarm_env tenv uenv denv menv ch debug ph"
  let ?inv = "hyperswarm_inv ?env menv mcontents mclosed contents closed"
  let ?P = "\<lambda>env s handed y. env = ?env \<longrightarrow> ?inv s \<longrightarrow> y = Ret (s', handed', p) \<longrightarrow>
      p = Pending \<and> contents (sw_commands s') = [] \<and> ?inv s' \<and>
      (\<exists>conns. handed' = handed @ conns \<and> swarm_effect ?env s (contents (sw_commands s)) conns [] s')"
  have "?P ?env s handed (Ret (s', handed', p))"
  proof (rule node_poll.raw_induct [where P = ?P, OF _ assms(2)], intro impI)
    fix loop env s handed y
    assume IH: "\<And>env s handed y. loop env s handed = Some y \<Longrightarrow> ?P env s handed y"
      and body: "run_bind (node_turn env s handed) (\<lambda>(s, handed, stop).
         case stop of Some p \<Rightarrow> ret (s, handed, p) | None \<Rightarrow> loop env s handed) = Some y"
      and env: "env = ?env" and inv: "?inv s" and y: "y = Ret (s', handed', p)"
    from body [unfolded y] obtain s1 h1 stop where turn: "node_turn ?env s handed = ret (s1, h1, stop)"
      and rest: "(case stop of Some p \<Rightarrow> ret (s1, h1, p) | None \<Rightarrow> loop ?env s1 h1) = ret (s', handed', p)"
      by (auto simp: env run_simps)
    from node_turn_effect [OF inv turn] obtain conns where
      1: "stop \<noteq> Some (Ready ())" "contents (sw_commands s1) = []" "h1 = handed @ conns"
        "?inv s1" "swarm_effect ?env s (contents (sw_commands s)) conns [] s1" by auto
    show "p = Pending \<and> contents (sw_commands s') = [] \<and> ?inv s' \<and>
      (\<exists>conns. handed' = handed @ conns \<and> swarm_effect ?env s (contents (sw_commands s)) conns [] s')"
    proof (cases stop)
      case None
      with rest have "loop ?env s1 h1 = ret (s', handed', p)" by simp
      from IH [OF this] 1(2,4) obtain more where more: "p = Pending" "contents (sw_commands s') = []"
        "?inv s'" "handed' = h1 @ more" "swarm_effect ?env s1 [] more [] s'" by auto
      from swarm_effect_trans [OF 1(5) more(5)] more 1(3) show ?thesis by auto
    next
      case (Some q)
      with 1(1) have "q = Pending" by (cases q) simp_all
      with rest Some 1 show ?thesis by auto
    qed
  qed
  with assms(1) show ?thesis by blast
qed

text \<open>
  C18: A node of the example joins the topic of zeros and hands over every connection. However many
  turns its task has gone through when the topic is configured, until then the swarm has no topic;
  and then the configuration is the one command in its queue. The first poll of the task after it that
  returns at all is pending, never finished, and leaves the swarm with exactly that topic. From the
  bind to there, the topic was announced and looked up on the discovery, once, the transport has
  connected to exactly the peers that were found, in order, every connection it delivered was handed
  over, in order, and the discovery reported no error.
\<close>

theorem node_joins_and_hands_over:
  assumes "run_node tenv uenv denv dc menv (hyperswarm_env tenv uenv denv menv ch debug ph) turns config w =
      ret (Inr (s, before), w')"
    and "channel_laws ch contents closed" and "channel_laws (me_channel menv) mcontents mclosed"
    and "log_prints (hyperswarm_env tenv uenv denv menv ch debug ph)"
    and "node_poll (hyperswarm_env tenv uenv denv menv ch debug ph) s before = ret (s', conns, p)"
  shows "sw_topics s = Map.empty \<and> contents (sw_commands s) = [(array32_fill 0, topic_config_both)] \<and>
    p = Pending \<and> sw_topics s' = [array32_fill 0 \<mapsto> topic_config_both] \<and> contents (sw_commands s') = [] \<and>
    (\<exists>s0. swarm_bind tenv uenv denv dc menv ch config w = ret (Inr s0, w') \<and>
       swarm_effect (hyperswarm_env tenv uenv denv menv ch debug ph) s0
         [(array32_fill 0, topic_config_both)] conns [] s')"
proof -
  let ?env = "hyperswarm_env tenv uenv denv menv ch debug ph"
  let ?inv = "hyperswarm_inv ?env menv mcontents mclosed contents closed"
  let ?join = "(array32_fill 0, topic_config_both)"
  from assms(1) obtain s0 s1 over queue where bind: "swarm_bind tenv uenv denv dc menv ch config w = ret (Inr s0, w')"
    and turns: "node_turns ?env turns s0 [] = ret (s1, before, over)"
    and conf: "handle_configure ?env (array32_fill 0) topic_config_both
      (if over then ch_close (se_channel ?env) (swarm_handle s1) else swarm_handle s1) = ret queue"
    and s: "s = s1\<lparr>sw_commands := queue\<rparr>"
    by (auto simp: run_node_def Let_def act_bind_def run_simps)
  from swarm_bind_started [OF bind assms(2-4)] channel_lawsD(1) [OF assms(2)]
  have start: "?inv s0" "contents (sw_commands s0) = []" "sw_topics s0 = Map.empty" by simp_all
  from node_turns_effect [OF start(1,2) turns]
  have on: "\<not> over" "contents (sw_commands s1) = []" "?inv s1" "swarm_effect ?env s0 [] before [] s1" by auto
  then have "\<not> closed (sw_commands s1)" by (simp add: hyperswarm_inv_def swarm_inv_def)
  from channel_lawsD(3) [OF assms(2) this, of ?join] conf on(1,2)
  have queue: "contents queue = [?join]" "\<not> closed queue" by (auto simp: handle_configure_def swarm_handle_def)
  with on(3) have "?inv s" by (simp add: s hyperswarm_inv_def swarm_inv_def)
  from node_poll_effect [OF this assms(5)] obtain more where
    poll: "p = Pending" "contents (sw_commands s') = []" "conns = before @ more"
      "swarm_effect ?env s [?join] more [] s'" by (auto simp: s queue(1))
  have "swarm_effect ?env s1 [?join] more [] s'" using poll(4) by (simp add: s swarm_effect_def)
  from swarm_effect_trans [OF on(4) this] poll(3)
  have effect: "swarm_effect ?env s0 [?join] conns [] s'" by simp
  then have "sw_topics s' = [array32_fill 0 \<mapsto> topic_config_both]"
    by (simp add: swarm_effect_def start(3))
  moreover from on(4) have "sw_topics s = Map.empty" by (simp add: s swarm_effect_def start(3))
  moreover have "contents (sw_commands s) = [?join]" by (simp add: s queue(1))
  ultimately show ?thesis using poll(1,2) bind effect by blast
qed

theorem node_joins_and_hands_over_witness:
  "\<exists>s c s'. run_node (tcp_script []) utp_script dht_script dht_config_script mdns_script
      (script_env [] dht_script) 1
      (config_new\<lparr>cfg_dht := Some [LookupResult (IdBytes (array32_fill 0)) [SocketV4 (Ipv4Addr 10 0 0 1) 80]]\<rparr>)
      () = ret (Inr (s, [c]), ()) \<and>
    conn_peer_addr c = SocketV4 (Ipv4Addr 10 0 0 1) 80 \<and> sw_topics s = Map.empty \<and>
    node_poll (script_env [] dht_script) s [c] = ret (s', [c], Pending) \<and>
    sw_topics s' = [array32_fill 0 \<mapsto> topic_config_both]"
proof -
  let ?env = "script_env [] dht_script"
  let ?config = "config_new\<lparr>cfg_dht := Some [LookupResult (IdBytes (array32_fill 0)) [SocketV4 (Ipv4Addr 10 0 0 1) 80]]\<rparr>"
  let ?name = "concat (map (\<lambda>b. show_hex (unat b)) (array32_list (array32_fill (0 :: u8))))"
  let ?s0 = "(script_swarm [] [LookupResult (IdBytes (array32_fill 0)) [SocketV4 (Ipv4Addr 10 0 0 1) 80]] [])
      \<lparr>sw_discovery := \<lparr>cd_dht = dht_start 4000 [LookupResult (IdBytes (array32_fill 0)) [SocketV4 (Ipv4Addr 10 0 0 1) 80]],
        cd_mdns = (mdns_start [])\<lparr>mdns_announcer := (4000, ?name)\<rparr>\<rparr>\<rparr>"
  have bind: "swarm_bind (tcp_script []) utp_script dht_script dht_config_script mdns_script list_channel ?config () =
      ret (Inr ?s0, ())"
    by (simp add: swarm_bind_def combined_transport_bind_def unwrap_socket_addr_def
        config_new_def config_default_def default_socket_addr tcp_bind_def utp_bind_def
        tcp_incoming_new_def act_bind_def try_bind_def socket_addr_resolver_def Let_def
        combined_discovery_bind_def dht_bind_def mdns_bind_def mdns_config_default_def
        mdns_socket_create_def mdns_script_def combined_transport_local_addr_def tcp_local_addr_def
        script_swarm_def mdns_start_def dht_start_def script_stack_def tcp_accept_def)
  obtain s1 c where turn: "node_turns ?env 1 ?s0 [] = ret (s1, [c], False)"
    and c: "conn_peer_addr c = SocketV4 (Ipv4Addr 10 0 0 1) 80" and queue: "sw_commands s1 = ([], False)"
    and poll: "\<exists>s'. swarm_poll_next ?env (s1\<lparr>sw_commands := ([(array32_fill 0, topic_config_both)], False)\<rparr>) = ret (s', Pending)"
    by (simp add: node_turn_def swarm_eval)
  let ?s = "s1\<lparr>sw_commands := ([(array32_fill 0, topic_config_both)], False)\<rparr>"
  have run: "run_node (tcp_script []) utp_script dht_script dht_config_script mdns_script ?env 1 ?config () =
      ret (Inr (?s, [c]), ())"
    by (simp add: run_node_def bind turn act_bind_def try_bind_def swarm_handle_def queue handle_configure_def Let_def
        del: node_turns.simps One_nat_def)
  from poll obtain s' where poll: "node_poll ?env ?s [c] = ret (s', [c], Pending)"
    by (auto simp: node_poll_unfold)
  have prints: "log_prints ?env" by (simp add: log_prints_def hyperswarm_env_def)
  have chan: "channel_laws (me_channel mdns_script) fst snd" by (simp add: list_channel_laws)
  from node_joins_and_hands_over [OF run list_channel_laws chan prints poll] run poll c show ?thesis by blast
qed

text \<open>
  C28: What the task of a connection prints. Once the greeting is written, it prints each read of the
  connection as a message, in order, and last that the connection closed or failed, if it did,
  provided that every single read is valid UTF-8; otherwise it panics. So a peer panics the task with
  any other bytes, and so does the end of a read inside a character of a valid text.
\<close>

theorem connection_prints_or_panics:
  assumes "reads (si_io env) (st_stream t) (st_buf t) chunks st' buf' r" and "st_wait t = Reading"
  shows "connection_task env t =
    (if list_all (\<lambda>c. utf8_valid (map unat c)) chunks
     then ret (t\<lparr>st_stream := st', st_buf := buf',
            st_printed := st_printed t @
              map (\<lambda>c. st_label t @ '' message: '' @ map (\<lambda>b. char_of (unat b)) c) chunks @
              fst (last_line env (st_label t) r)\<rparr>, snd (last_line env (st_label t) r))
     else panic)"
proof -
  have "connection_task env t =
      (if list_all (\<lambda>c. utf8_valid (map unat c)) chunks
       then ret (t\<lparr>st_stream := st', st_buf := buf',
              st_printed := st_printed t @
                map (\<lambda>c. st_label t @ '' message: '' @ map (\<lambda>b. char_of (unat b)) c) chunks @
                fst (last_line env (st_label t) r)\<rparr>, snd (last_line env (st_label t) r))
       else panic)"
    if "reads (si_io env) st buf chunks st' buf' r" "st_stream t = st" "st_buf t = buf" "st_wait t = Reading"
    for st buf t
    using that
  proof (induction arbitrary: t rule: reads.induct)
    case (last buf st st' buf' r)
    then have read: "io_read (si_io env) (st_buf t) (st_stream t) = (st', buf', r)" by simp
    from last(2) have "r = Pending \<or> r = Ready (Inr 0) \<or> (\<exists>e. r = Ready (Inl e))"
      by (metis io_result_poll_cases not0_implies_Suc)
    then show ?case
      using read last.prems(3) by (elim disjE exE) (simp_all add: connection_task_simps)
  next
    case (chunk buf st st1 buf1 n chunks st' buf' r)
    then have read: "io_read (si_io env) (st_buf t) (st_stream t) = (st1, buf1, Ready (Inr n))" by simp
    show ?case
    proof (cases "utf8_valid (map unat (take n buf1))")
      case True
      let ?t = "t\<lparr>st_stream := st1, st_buf := buf1, st_printed := st_printed t @
          [st_label t @ '' message: '' @ map (\<lambda>b. char_of (unat b)) (take n buf1)]\<rparr>"
      have "connection_task env t = connection_task env ?t"
        using chunk.hyps(2,3) True connection_task_simps(3) [OF chunk.prems(3) read]
        by (simp add: slice_to_def string_from_utf8_def)
      with chunk.IH [of ?t] chunk.prems(3) True show ?thesis by simp
    next
      case False
      with chunk.hyps(2,3) connection_task_simps(3) [OF chunk.prems(3) read] show ?thesis
        by (simp add: slice_to_def string_from_utf8_def)
    qed
  qed
  from this [OF assms(1) refl refl assms(2)] show ?thesis .
qed

text \<open>A stream for examples: what each of its reads returns.\<close>

definition simple_script :: "(bytes list connection, bytes) simple_env" where
  "simple_script =
     \<lparr>si_io = null_io\<lparr>io_read := (\<lambda>buf c. case conn_inner c of
         [] \<Rightarrow> (c, buf, Pending)
       | bs # bss \<Rightarrow> (c\<lparr>conn_inner := bss\<rparr>, bs @ drop (length bs) buf, Ready (Inr (length bs))))\<rparr>,
      si_write_all = (\<lambda>bs. bs), si_write_poll = (\<lambda>x c. (x, c, Ready (Inr ()))), si_show_error = (\<lambda>e. [])\<rparr>"

lemma simple_script_read:
  "io_read (si_io simple_script) buf (connection_new (bs # bss) a i p) =
     (connection_new bss a i p, bs @ drop (length bs) buf, Ready (Inr (length bs)))"
  by (simp add: simple_script_def connection_new_def)

theorem connection_prints_or_panics_witness:
  "utf8_valid [195, 169] \<and>
   connection_task simple_script (simple_on_connection simple_script
     (connection_new [[195], [169]] (SocketV4 (Ipv4Addr 127 0 0 1) 5000) True ''tcp'') ''rust.0'') = panic"
proof -
  let ?c = "\<lambda>bss. connection_new bss (SocketV4 (Ipv4Addr 127 0 0 1) 5000) True ''tcp''"
  let ?buf = "replicate 100 (0 :: u8)"
  let ?t = "(simple_on_connection simple_script (?c [[195], [169]]) ''rust.0'')\<lparr>st_wait := Reading\<rparr>"
  have wait: "st_wait ?t = Reading" by simp
  let ?buf1 = "[195] @ drop (length [195 :: u8]) ?buf"
  let ?buf2 = "[169] @ drop (length [169 :: u8]) ?buf1"
  have "reads (si_io simple_script) (?c []) ?buf2 [] (?c []) ?buf2 Pending"
    by (rule reads.last) (simp_all add: simple_script_def)
  from reads.chunk [OF simple_script_read _ _ this]
  have "reads (si_io simple_script) (?c [[169]]) ?buf1 [[169]] (?c []) ?buf2 Pending" by simp
  from reads.chunk [OF simple_script_read _ _ this]
  have "reads (si_io simple_script) (?c [[195], [169]]) ?buf [[195], [169]] (?c []) ?buf2 Pending" by simp
  then have "reads (si_io simple_script) (st_stream ?t) (st_buf ?t)
      [[195], [169]] (?c []) ?buf2 Pending"
    by (simp add: simple_on_connection_def Let_def)
  from connection_prints_or_panics [OF this wait] have "connection_task simple_script ?t = panic"
    by (simp add: utf8_tail_def)
  moreover have "connection_task simple_script (simple_on_connection simple_script (?c [[195], [169]]) ''rust.0'') =
      connection_task simple_script ?t"
    by (subst connection_task.simps) (simp add: simple_on_connection_def simple_script_def Let_def)
  ultimately show ?thesis
    by (simp add: utf8_tail_def utf8_second_def utf8_continuation_def)
qed

end
