(* ===== verification/Swarm_Test.thy ===== *)
theory Swarm_Test
  imports Simple Bootstrap "HOL-Library.Sublist"
begin

section \<open>The test of the swarm (\<open>mod test\<close> of \<open>src/swarm.rs\<close>)\<close>

text \<open>
  Two swarms find each other through a bootstrap node; on every connection one side writes \<open>A\<close> and
  expects to read \<open>B\<close>, and the other the reverse. \<open>test_setup\<close> is the test up to the spawn of its
  tasks, \<open>test_poll\<close> one poll of the task of a connection. The two tasks of a connection run
  interleaved over one link, which is shared: \<open>test_run\<close>. The whole test is a system of steps,
  \<open>whole_step\<close>: the tasks of the two swarms, which spawn a task for every connection they get, these
  tasks, on any number of links, the two channels on which they say that they are done, and the end
  of the test, which waits for both channels and cancels the swarms' tasks.
\<close>

subsection \<open>Setting up\<close>

definition test_configure ::
  "('d, 't, 'a, 'q) swarm_env \<Rightarrow> ('d, 't, 'q) hyperswarm \<Rightarrow> ('d, 't, 'q) hyperswarm run" where
  "test_configure env swarm = swarm_configure env (array32_fill 0) topic_config_both swarm"

definition test_setup where
  "test_setup tenv uenv denv dc menv senv local_addr other =
     try_bind (run_bootstrap_node dc denv local_addr other socket_addr_resolver None) (\<lambda>(bs_addr, bs_task).
     let config_a = set_bootstrap_nodes dc socket_addr_resolver [bs_addr] config_default;
         config_b = set_bootstrap_nodes dc socket_addr_resolver [bs_addr] config_default in
     try_bind (swarm_bind tenv uenv denv dc menv (se_channel senv) config_a) (\<lambda>swarm_a.
     try_bind (swarm_bind tenv uenv denv dc menv (se_channel senv) config_b) (\<lambda>swarm_b.
     act_bind (act_run (test_configure senv swarm_a)) (\<lambda>swarm_a.
     act_bind (act_run (test_configure senv swarm_b)) (\<lambda>swarm_b.
     act_return (Inr (swarm_a, swarm_b)))))))"

text \<open>Both swarms are ready to run, with the topic of zeros announced and looked up.\<close>

lemma test_configure_ready:
  assumes "hyperswarm_inv (hyperswarm_env tenv uenv denv menv ch debug ph) menv mcontents mclosed contents closed s"
    and "test_configure (hyperswarm_env tenv uenv denv menv ch debug ph) s = ret s'"
  shows "hyperswarm_inv (hyperswarm_env tenv uenv denv menv ch debug ph) menv mcontents mclosed contents closed s' \<and>
    sw_topics s' = (sw_topics s)(array32_fill 0 \<mapsto> topic_config_both) \<and> sw_commands s' = sw_commands s \<and>
    discovery_run (combined_discovery_ops (dht_ops denv) (mdns_ops menv))
      (map DCall (configure_calls (sw_topics s (array32_fill 0)) (array32_fill 0) topic_config_both))
      (sw_discovery s) = ret (sw_discovery s', [])"
proof -
  let ?env = "hyperswarm_env tenv uenv denv menv ch debug ph"
  have "log_prints ?env" "dht_inv (cd_dht (sw_discovery s)) \<and> mdns_inv menv mcontents mclosed (cd_mdns (sw_discovery s))"
    using assms(1) by (simp_all add: hyperswarm_inv_def swarm_inv_def)
  from whole.configure_ok [OF this(2,1), of "array32_fill 0" topic_config_both] assms show ?thesis
    by (auto simp: test_configure_def hyperswarm_inv_def swarm_inv_def)
qed

lemma test_setup_ready:
  assumes "test_setup tenv uenv denv dc menv (hyperswarm_env tenv uenv denv menv ch debug ph) local_addr other w =
      ret (Inr (a, b), w')"
    and "channel_laws ch contents closed" and "channel_laws (me_channel menv) mcontents mclosed"
    and "log_prints (hyperswarm_env tenv uenv denv menv ch debug ph)" and "s = a \<or> s = b"
  shows "hyperswarm_inv (hyperswarm_env tenv uenv denv menv ch debug ph) menv mcontents mclosed contents closed s \<and>
    sw_topics s = [array32_fill 0 \<mapsto> topic_config_both] \<and> contents (sw_commands s) = []"
proof -
  let ?env = "hyperswarm_env tenv uenv denv menv ch debug ph"
  from assms(1,5) obtain config v v' s0 where bind: "swarm_bind tenv uenv denv dc menv ch config v = ret (Inr s0, v')"
    and conf: "test_configure ?env s0 = ret s"
    by (auto simp: test_setup_def act_bind_def Let_def run_simps split: prod.splits)
  from swarm_bind_started [OF bind assms(2-4)] channel_lawsD(1) [OF assms(2)] test_configure_ready [OF _ conf]
  show ?thesis by auto
qed

subsection \<open>The task of a connection\<close>

text \<open>
  The stream is an end of a link \<open>'l\<close>; \<open>tt_send_poll\<close> polls the sending of the message that the task
  is done, whose result is ignored, and \<open>tt_close\<close> is the drop of the stream at the end of the task.
\<close>

record ('l, 'x, 'q) test_env =
  tt_io :: "'l async_io"
  tt_write_all :: "bytes \<Rightarrow> 'x"
  tt_write_poll :: "'x \<Rightarrow> 'l \<Rightarrow> 'x \<times> 'l \<times> unit io_result poll"
  tt_close :: "'l \<Rightarrow> 'l"
  tt_send_poll :: "'q \<Rightarrow> 'q \<times> unit poll"

datatype 'x test_wait = TestWriting 'x | TestReading | TestSending | TestOver

record ('x, 'q) test_task =
  tk_buf :: bytes
  tk_expected :: bytes
  tk_wait :: "'x test_wait"
  tk_done :: 'q

definition test_task_a :: "('l, 'x, 'q) test_env \<Rightarrow> 'q \<Rightarrow> ('x, 'q) test_task" where
  "test_task_a env done_tx =
     \<lparr>tk_buf = replicate 1 0, tk_expected = string_bytes ''B'',
      tk_wait = TestWriting (tt_write_all env (string_bytes ''A'')), tk_done = done_tx\<rparr>"

text \<open>The buffer of the other side is \<open>vec![0u8, 1]\<close>: the two bytes 0 and 1.\<close>

definition test_task_b :: "('l, 'x, 'q) test_env \<Rightarrow> 'q \<Rightarrow> ('x, 'q) test_task" where
  "test_task_b env done_tx =
     \<lparr>tk_buf = [0, 1], tk_expected = string_bytes ''A'',
      tk_wait = TestWriting (tt_write_all env (string_bytes ''B'')), tk_done = done_tx\<rparr>"

definition assert_run :: "bool \<Rightarrow> unit run" where
  "assert_run b = (if b then ret () else panic)"

definition test_send ::
  "('l, 'x, 'q) test_env \<Rightarrow> ('x, 'q) test_task \<Rightarrow> 'l \<Rightarrow> ('x, 'q) test_task \<times> 'l \<times> unit poll" where
  "test_send env t stream =
     (case tt_send_poll env (tk_done t) of
        (q, Pending) \<Rightarrow> (t\<lparr>tk_done := q, tk_wait := TestSending\<rparr>, stream, Pending)
      | (q, Ready _) \<Rightarrow> (t\<lparr>tk_done := q, tk_wait := TestOver\<rparr>, tt_close env stream, Ready ()))"

definition test_read ::
  "('l, 'x, 'q) test_env \<Rightarrow> ('x, 'q) test_task \<Rightarrow> 'l \<Rightarrow> (('x, 'q) test_task \<times> 'l \<times> unit poll) run" where
  "test_read env t stream =
     (case io_read (tt_io env) (tk_buf t) stream of
        (stream, buf, p) \<Rightarrow>
          let t = t\<lparr>tk_buf := buf, tk_wait := TestReading\<rparr> in
          (case p of
             Pending \<Rightarrow> ret (t, stream, Pending)
           | Ready r \<Rightarrow>
               run_bind (unwrap_res r) (\<lambda>n.
               run_bind (assert_run (n = 1)) (\<lambda>_.
               run_bind (slice_to buf n) (\<lambda>chunk.
               run_bind (assert_run (chunk = tk_expected t)) (\<lambda>_.
               ret (test_send env t stream)))))))"

definition test_poll ::
  "('l, 'x, 'q) test_env \<Rightarrow> ('x, 'q) test_task \<Rightarrow> 'l \<Rightarrow> (('x, 'q) test_task \<times> 'l \<times> unit poll) run" where
  "test_poll env t stream =
     (case tk_wait t of
        TestWriting fut \<Rightarrow>
          (case tt_write_poll env fut stream of
             (fut, stream, Pending) \<Rightarrow> ret (t\<lparr>tk_wait := TestWriting fut\<rparr>, stream, Pending)
           | (fut, stream, Ready r) \<Rightarrow> run_bind (unwrap_res r) (\<lambda>_. test_read env t stream))
      | TestReading \<Rightarrow> test_read env t stream
      | TestSending \<Rightarrow> ret (test_send env t stream)
      | TestOver \<Rightarrow> panic)"

text \<open>
  The two tasks of a connection, polled in any order while they are not over, and the network, which
  may change the link in between by \<open>net\<close>. A future that is over is not polled.
\<close>

inductive test_run ::
  "('l, 'x, 'q) test_env \<Rightarrow> ('l, 'y, 'p) test_env \<Rightarrow> ('l \<Rightarrow> 'l \<Rightarrow> bool) \<Rightarrow> 'l \<Rightarrow> 'q \<Rightarrow> 'p \<Rightarrow>
     ('x, 'q) test_task \<Rightarrow> ('y, 'p) test_task \<Rightarrow> 'l \<Rightarrow> bool"
  for ea eb net link qa qb where
  spawned: "test_run ea eb net link qa qb (test_task_a ea qa) (test_task_b eb qb) link"
| polled_a: "test_run ea eb net link qa qb a b l \<Longrightarrow> tk_wait a \<noteq> TestOver \<Longrightarrow>
    test_poll ea a l = ret (a', l', p) \<Longrightarrow> test_run ea eb net link qa qb a' b l'"
| polled_b: "test_run ea eb net link qa qb a b l \<Longrightarrow> tk_wait b \<noteq> TestOver \<Longrightarrow>
    test_poll eb b l = ret (b', l', p) \<Longrightarrow> test_run ea eb net link qa qb a b' l'"
| arrives: "test_run ea eb net link qa qb a b l \<Longrightarrow> net l l' \<Longrightarrow> test_run ea eb net link qa qb a b l'"

subsection \<open>A reliable link\<close>

text \<open>
  An end of a link as its user sees it: what was sent and received at it and whether it is closed. The
  laws of an end, given its own view \<open>e\<close> and the view \<open>o\<close> of the other end: a call at one end does not
  change the view of the other; a write that is pending has bytes left; what is received is what was
  sent, in order; the end of the stream and the errors only come after the other end was closed, and
  an error of a read only if it was closed with bytes unread.
\<close>

record 'l end_view =
  ev_sent :: "'l \<Rightarrow> bytes"
  ev_got :: "'l \<Rightarrow> bytes"
  ev_closed :: "'l \<Rightarrow> bool"

definition same_view :: "'l end_view \<Rightarrow> 'l \<Rightarrow> 'l \<Rightarrow> bool" where
  "same_view v l l' \<longleftrightarrow> ev_sent v l' = ev_sent v l \<and> ev_got v l' = ev_got v l \<and> ev_closed v l' = ev_closed v l"

fun wrote ::
  "('x \<Rightarrow> bytes) \<Rightarrow> 'l end_view \<Rightarrow> 'l end_view \<Rightarrow> 'x \<Rightarrow> 'l \<Rightarrow> 'x \<Rightarrow> 'l \<Rightarrow> unit io_result poll \<Rightarrow> bool" where
  "wrote left own peer x l x' l' Pending \<longleftrightarrow> left x' \<noteq> [] \<and> ev_sent own l' @ left x' = ev_sent own l @ left x"
| "wrote left own peer x l x' l' (Ready (Inr _)) \<longleftrightarrow> ev_sent own l' = ev_sent own l @ left x"
| "wrote left own peer x l x' l' (Ready (Inl _)) \<longleftrightarrow> ev_closed peer l"

fun received ::
  "'l end_view \<Rightarrow> 'l end_view \<Rightarrow> bytes \<Rightarrow> 'l \<Rightarrow> bytes \<Rightarrow> 'l \<Rightarrow> nat io_result poll \<Rightarrow> bool" where
  "received own peer buf l buf' l' Pending \<longleftrightarrow> ev_got own l' = ev_got own l"
| "received own peer buf l buf' l' (Ready (Inr n)) \<longleftrightarrow>
     n \<le> length buf \<and> ev_got own l' = ev_got own l @ take n buf' \<and> prefix (ev_got own l') (ev_sent peer l) \<and>
     (n = 0 \<and> buf \<noteq> [] \<longrightarrow> ev_closed peer l \<and> ev_got own l = ev_sent peer l)"
| "received own peer buf l buf' l' (Ready (Inl _)) \<longleftrightarrow> ev_closed peer l \<and> ev_got peer l \<noteq> ev_sent own l"

definition end_laws ::
  "('l, 'x, 'q) test_env \<Rightarrow> ('x \<Rightarrow> bytes) \<Rightarrow> 'l end_view \<Rightarrow> 'l end_view \<Rightarrow> bool" where
  "end_laws env left own peer \<longleftrightarrow>
     (\<forall>bs. left (tt_write_all env bs) = bs) \<and>
     (\<forall>x l x' l' r. tt_write_poll env x l = (x', l', r) \<longrightarrow>
        wrote left own peer x l x' l' r \<and> same_view peer l l' \<and> prefix (ev_sent own l) (ev_sent own l') \<and>
        ev_got own l' = ev_got own l \<and> ev_closed own l' = ev_closed own l) \<and>
     (\<forall>buf l l' buf' r. io_read (tt_io env) buf l = (l', buf', r) \<longrightarrow>
        received own peer buf l buf' l' r \<and> same_view peer l l' \<and> length buf' = length buf \<and>
        ev_sent own l' = ev_sent own l \<and> ev_closed own l' = ev_closed own l) \<and>
     (\<forall>l. same_view peer l (tt_close env l) \<and> ev_closed own (tt_close env l) \<and>
        ev_sent own (tt_close env l) = ev_sent own l \<and> ev_got own (tt_close env l) = ev_got own l)"

lemma end_lawsD:
  assumes "end_laws env left own peer"
  shows "left (tt_write_all env bs) = bs"
    and "tt_write_poll env x l = (x', l', r) \<Longrightarrow>
      wrote left own peer x l x' l' r \<and> same_view peer l l' \<and> prefix (ev_sent own l) (ev_sent own l') \<and>
      ev_got own l' = ev_got own l \<and> ev_closed own l' = ev_closed own l"
    and "io_read (tt_io env) buf l = (l', buf', p) \<Longrightarrow>
      received own peer buf l buf' l' p \<and> same_view peer l l' \<and> length buf' = length buf \<and>
      ev_sent own l' = ev_sent own l \<and> ev_closed own l' = ev_closed own l"
    and "same_view peer l (tt_close env l) \<and> ev_closed own (tt_close env l) \<and>
      ev_sent own (tt_close env l) = ev_sent own l \<and> ev_got own (tt_close env l) = ev_got own l"
  using assms unfolding end_laws_def by blast+

subsection \<open>One end\<close>

text \<open>What the task at an end has done, by where it waits: \<open>msg\<close> is its message, \<open>exp\<close> what it expects.\<close>

definition task_at ::
  "('x \<Rightarrow> bytes) \<Rightarrow> 'l end_view \<Rightarrow> bytes \<Rightarrow> bytes \<Rightarrow> ('x, 'q) test_task \<Rightarrow> 'l \<Rightarrow> bool" where
  "task_at left own msg exp t l \<longleftrightarrow>
     tk_buf t \<noteq> [] \<and> tk_expected t = exp \<and>
     (case tk_wait t of
        TestWriting x \<Rightarrow> left x \<noteq> [] \<and> ev_sent own l @ left x = msg \<and> ev_got own l = [] \<and> \<not> ev_closed own l
      | TestReading \<Rightarrow> ev_sent own l = msg \<and> ev_got own l = [] \<and> \<not> ev_closed own l
      | TestSending \<Rightarrow> ev_sent own l = msg \<and> ev_got own l = exp \<and> \<not> ev_closed own l
      | TestOver \<Rightarrow> ev_sent own l = msg \<and> ev_got own l = exp)"

text \<open>What a task knows of the other end: it sends a part of \<open>exp\<close>, and if it is closed it had everything.\<close>

definition peer_at :: "'l end_view \<Rightarrow> 'l end_view \<Rightarrow> bytes \<Rightarrow> bytes \<Rightarrow> 'l \<Rightarrow> bool" where
  "peer_at own peer msg exp l \<longleftrightarrow>
     prefix (ev_sent peer l) exp \<and> prefix (ev_got peer l) (ev_sent own l) \<and> prefix (ev_got own l) (ev_sent peer l) \<and>
     (ev_closed peer l \<longrightarrow> ev_sent peer l = exp \<and> ev_got peer l = msg)"

lemma peer_at_sent:
  "peer_at own peer msg exp l \<Longrightarrow> same_view peer l l' \<Longrightarrow> prefix (ev_sent own l) (ev_sent own l') \<Longrightarrow>
   ev_got own l' = ev_got own l \<Longrightarrow> peer_at own peer msg exp l'"
  by (auto simp: peer_at_def same_view_def intro: prefix_order.trans)

definition end_step ::
  "('x \<Rightarrow> bytes) \<Rightarrow> 'l end_view \<Rightarrow> 'l end_view \<Rightarrow> bytes \<Rightarrow> bytes \<Rightarrow> 'l \<Rightarrow> ('x, 'q) test_task \<Rightarrow> 'l \<Rightarrow> bool" where
  "end_step left own peer msg exp l t' l' \<longleftrightarrow>
     task_at left own msg exp t' l' \<and> same_view peer l l' \<and> prefix (ev_sent own l) (ev_sent own l') \<and>
     prefix (ev_got own l') (ev_sent peer l')"

lemma end_step_trans:
  assumes "end_step left own peer msg exp l' t' l''" and "same_view peer l l'"
    and "prefix (ev_sent own l) (ev_sent own l')"
  shows "end_step left own peer msg exp l t' l''"
  using assms prefix_order.trans [OF assms(3), of "ev_sent own l''"] by (auto simp: end_step_def same_view_def)

lemma test_send_ok:
  assumes laws: "end_laws env left own peer" and t: "tk_buf t \<noteq> []" "tk_expected t = exp"
    and l: "ev_sent own l = msg" "ev_got own l = exp" "\<not> ev_closed own l" "prefix exp (ev_sent peer l)"
  shows "\<exists>t' l' p. test_send env t l = (t', l', p) \<and> end_step left own peer msg exp l t' l'"
  using t l end_lawsD(4) [OF laws, of l]
  by (cases "tt_send_poll env (tk_done t)"; cases "snd (tt_send_poll env (tk_done t))")
     (auto simp: test_send_def end_step_def task_at_def same_view_def)

lemma test_read_ok:
  assumes laws: "end_laws env left own peer" and one: "length exp = 1"
    and t: "tk_buf t \<noteq> []" "tk_expected t = exp"
    and l: "ev_sent own l = msg" "ev_got own l = []" "\<not> ev_closed own l" and peer: "peer_at own peer msg exp l"
  shows "\<exists>t' l' p. test_read env t l = ret (t', l', p) \<and> end_step left own peer msg exp l t' l'"
proof -
  obtain l' buf p where read: "io_read (tt_io env) (tk_buf t) l = (l', buf, p)" by (metis prod_cases3)
  note got = end_lawsD(3) [OF laws read]
  have buf: "buf \<noteq> []" using got t(1) by auto
  show ?thesis
  proof (cases p rule: io_result_poll_cases)
    case pending
    with read got t(2) buf l show ?thesis
      by (simp add: test_read_def end_step_def task_at_def Let_def)
  next
    case (error e)
    with got peer l one show ?thesis by (simp add: peer_at_def)
  next
    case (item n)
    from item got peer t(1) l(2) one have n: "n \<noteq> 0" by (auto simp: peer_at_def)
    from item got l(2) have chunk: "ev_got own l' = take n buf" and le: "n \<le> length buf" by simp_all
    from item got have "received own peer (tk_buf t) l buf l' (Ready (Inr n))" by blast
    then have "prefix (ev_got own l') (ev_sent peer l)" unfolding received.simps by blast
    then have "prefix (take n buf) (ev_sent peer l)" by (simp only: chunk)
    with peer have "prefix (take n buf) exp" by (auto simp: peer_at_def intro: prefix_order.trans)
    moreover from this one le have "n \<le> 1" using prefix_length_le by fastforce
    with n have "n = 1" by simp
    ultimately have exp: "take n buf = exp" using one le by (auto simp: prefix_def)
    let ?t = "t\<lparr>tk_buf := buf, tk_wait := TestReading\<rparr>"
    have "prefix exp (ev_sent peer l')" using \<open>prefix (take n buf) (ev_sent peer l)\<close> exp got by (simp add: same_view_def)
    from test_send_ok [OF laws, of ?t exp l' msg] this got l buf t(2) chunk exp
    obtain t' l'' p' where "test_send env ?t l' = (t', l'', p')" "end_step left own peer msg exp l' t' l''" by auto
    with read item got le exp \<open>n = 1\<close> t(2) show ?thesis
      by (auto simp: test_read_def Let_def assert_run_def slice_to_def end_step_def same_view_def)
  qed
qed

lemma test_poll_ok:
  assumes laws: "end_laws env left own peer" and one: "length exp = 1"
    and t: "task_at left own msg exp t l" and over: "tk_wait t \<noteq> TestOver" and peer: "peer_at own peer msg exp l"
  shows "\<exists>t' l' p. test_poll env t l = ret (t', l', p) \<and> end_step left own peer msg exp l t' l'"
proof (cases "tk_wait t")
  case (TestWriting x)
  obtain x' l' r where wr: "tt_write_poll env x l = (x', l', r)" by (metis prod_cases3)
  note sent = end_lawsD(2) [OF laws wr]
  then have keep: "same_view peer l l'" "prefix (ev_sent own l) (ev_sent own l')" "ev_got own l' = ev_got own l"
    by blast+
  from peer_at_sent [OF peer keep] have peer': "peer_at own peer msg exp l'" .
  show ?thesis
  proof (cases r rule: io_result_poll_cases)
    case pending
    with sent t TestWriting wr peer' show ?thesis
      by (simp add: test_poll_def end_step_def task_at_def peer_at_def)
  next
    case (error e)
    with sent peer have "prefix msg (ev_sent own l)" by (auto simp: peer_at_def)
    moreover from t TestWriting have "ev_sent own l @ left x = msg" "left x \<noteq> []" by (simp_all add: task_at_def)
    ultimately show ?thesis using prefix_length_le by fastforce
  next
    case (item u)
    with sent t TestWriting have "tk_buf t \<noteq> []" "tk_expected t = exp" "ev_sent own l' = msg"
      "ev_got own l' = []" "\<not> ev_closed own l'" by (simp_all add: task_at_def)
    from test_read_ok [OF laws one this peer'] obtain t' l'' p where
      read: "test_read env t l' = ret (t', l'', p)" and step: "end_step left own peer msg exp l' t' l''" by blast
    from end_step_trans [OF step keep(1,2)] read item wr TestWriting show ?thesis by (simp add: test_poll_def)
  qed
next
  case TestReading
  with test_read_ok [OF laws one _ _ _ _ _ peer, of t] t show ?thesis
    by (simp add: test_poll_def task_at_def)
next
  case TestSending
  with test_send_ok [OF laws, of t exp l msg] t peer show ?thesis
    by (auto simp: test_poll_def task_at_def peer_at_def)
qed (use over in simp)

subsection \<open>Both ends\<close>

definition pair_ok ::
  "('x \<Rightarrow> bytes) \<Rightarrow> ('y \<Rightarrow> bytes) \<Rightarrow> 'l end_view \<Rightarrow> 'l end_view \<Rightarrow> bytes \<Rightarrow> bytes \<Rightarrow>
     ('x, 'q) test_task \<Rightarrow> ('y, 'p) test_task \<Rightarrow> 'l \<Rightarrow> bool" where
  "pair_ok lefta leftb va vb ma mb a b l \<longleftrightarrow>
     task_at lefta va ma mb a l \<and> task_at leftb vb mb ma b l \<and>
     prefix (ev_got va l) (ev_sent vb l) \<and> prefix (ev_got vb l) (ev_sent va l)"

lemma pair_ok_sym: "pair_ok lefta leftb va vb ma mb a b l \<longleftrightarrow> pair_ok leftb lefta vb va mb ma b a l"
  by (auto simp: pair_ok_def)

lemma task_at_same_view: "task_at left own msg exp t l \<Longrightarrow> same_view own l l' \<Longrightarrow> task_at left own msg exp t l'"
  by (auto simp: task_at_def same_view_def split: test_wait.splits)

lemma task_at_sent: "task_at left own msg exp t l \<Longrightarrow> prefix (ev_sent own l) msg"
  by (auto simp: task_at_def prefix_def split: test_wait.splits)

lemma task_at_peer:
  assumes "task_at left peer exp msg t l" and "prefix (ev_got own l) (ev_sent peer l)"
    and "prefix (ev_got peer l) (ev_sent own l)"
  shows "peer_at own peer msg exp l"
  using assms task_at_sent [OF assms(1)]
  by (auto simp: peer_at_def) (auto simp: task_at_def split: test_wait.splits)

lemma pair_ok_peer:
  assumes "pair_ok lefta leftb va vb ma mb a b l"
  shows "peer_at va vb ma mb l"
  by (rule task_at_peer [of leftb vb mb ma b l va]) (use assms in \<open>simp_all add: pair_ok_def\<close>)

lemma pair_ok_poll:
  assumes laws: "end_laws ea lefta va vb" and ok: "pair_ok lefta leftb va vb ma mb a b l"
    and one: "length mb = 1" and over: "tk_wait a \<noteq> TestOver"
  shows "\<exists>a' l' p. test_poll ea a l = ret (a', l', p) \<and> pair_ok lefta leftb va vb ma mb a' b l'"
proof -
  have "task_at lefta va ma mb a l" using ok by (simp add: pair_ok_def)
  from test_poll_ok [OF laws one this over pair_ok_peer [OF ok]] obtain a' l' p where
    poll: "test_poll ea a l = ret (a', l', p)" and step: "end_step lefta va vb ma mb l a' l'" by blast
  from step ok have "task_at leftb vb mb ma b l'"
    by (auto simp: end_step_def pair_ok_def intro: task_at_same_view)
  moreover from step ok have "ev_got vb l' = ev_got vb l" "prefix (ev_sent va l) (ev_sent va l')"
    "prefix (ev_got vb l) (ev_sent va l)" by (auto simp: end_step_def pair_ok_def same_view_def)
  then have "prefix (ev_got vb l') (ev_sent va l')" by (metis prefix_order.trans)
  ultimately have "pair_ok lefta leftb va vb ma mb a' b l'" using step by (simp add: end_step_def pair_ok_def)
  with poll show ?thesis by blast
qed

lemma pair_ok_start:
  assumes laws: "end_laws ea lefta va vb" "end_laws eb leftb vb va"
    and fresh: "ev_sent va link = []" "ev_got va link = []" "\<not> ev_closed va link"
      "ev_sent vb link = []" "ev_got vb link = []" "\<not> ev_closed vb link"
  shows "pair_ok lefta leftb va vb (string_bytes ''A'') (string_bytes ''B'') (test_task_a ea qa) (test_task_b eb qb) link"
  using fresh end_lawsD(1) [OF laws(1)] end_lawsD(1) [OF laws(2)]
  by (simp add: pair_ok_def task_at_def test_task_a_def test_task_b_def)

lemma test_run_ok:
  assumes "test_run ea eb net link qa qb a b l"
    and laws: "end_laws ea lefta va vb" "end_laws eb leftb vb va"
    and quiet: "\<And>l l'. net l l' \<Longrightarrow> same_view va l l' \<and> same_view vb l l'"
    and fresh: "ev_sent va link = []" "ev_got va link = []" "\<not> ev_closed va link"
      "ev_sent vb link = []" "ev_got vb link = []" "\<not> ev_closed vb link"
  shows "pair_ok lefta leftb va vb (string_bytes ''A'') (string_bytes ''B'') a b l"
  using assms(1)
proof (induction rule: test_run.induct)
  case spawned
  show ?case by (rule pair_ok_start [OF laws fresh])
next
  case (polled_a a b l a' l' p)
  from pair_ok_poll [OF laws(1) polled_a.IH _ polled_a.hyps(2)] polled_a.hyps(3) show ?case by simp
next
  case (polled_b a b l b' l' p)
  from pair_ok_poll [OF laws(2) polled_b.IH [THEN pair_ok_sym [THEN iffD1]] _ polled_b.hyps(2)] polled_b.hyps(3)
  show ?case by (subst pair_ok_sym) simp
next
  case (arrives a b l l')
  from quiet [OF arrives.hyps(2)] arrives.IH show ?case
    by (auto simp: pair_ok_def same_view_def intro: task_at_same_view)
qed

text \<open>A link for examples: at each end what was sent and received and whether it is closed.\<close>

type_synonym script_link = "(bytes \<times> bytes \<times> bool) \<times> (bytes \<times> bytes \<times> bool)"

fun script_link_read :: "bytes \<Rightarrow> script_link \<Rightarrow> script_link \<times> bytes \<times> nat io_result poll" where
  "script_link_read buf ((sent, got, closed), (psent, pgot, pclosed)) =
     (let l = ((sent, got, closed), (psent, pgot, pclosed)); avail = drop (length got) psent;
          n = min (length buf) (length avail) in
      if \<not> prefix got psent then (l, buf, Pending)
      else if avail = [] then (l, buf, if pclosed then Ready (Inr 0) else Pending)
      else (((sent, got @ take n avail, closed), (psent, pgot, pclosed)), take n avail @ drop n buf, Ready (Inr n)))"

definition script_end ::
  "('q \<Rightarrow> 'q) \<Rightarrow> (script_link \<Rightarrow> script_link) \<Rightarrow> (script_link, bytes, 'q) test_env" where
  "script_end send turn =
     \<lparr>tt_io = null_io\<lparr>io_read := (\<lambda>buf l. case script_link_read buf (turn l) of (l, buf, p) \<Rightarrow> (turn l, buf, p))\<rparr>,
      tt_write_all = (\<lambda>bs. bs),
      tt_write_poll = (\<lambda>x l. case turn l of ((sent, rest), peer) \<Rightarrow> (x, turn ((sent @ x, rest), peer), Ready (Inr ()))),
      tt_close = (\<lambda>l. case turn l of ((sent, got, _), peer) \<Rightarrow> turn ((sent, got, True), peer)),
      tt_send_poll = (\<lambda>q. (send q, Ready ()))\<rparr>"

definition script_view :: "(script_link \<Rightarrow> script_link) \<Rightarrow> script_link end_view" where
  "script_view turn =
     \<lparr>ev_sent = (\<lambda>l. fst (fst (turn l))), ev_got = (\<lambda>l. fst (snd (fst (turn l)))),
      ev_closed = (\<lambda>l. snd (snd (fst (turn l))))\<rparr>"

abbreviation turned :: "script_link \<Rightarrow> script_link" where
  "turned l \<equiv> (snd l, fst l)"

lemma script_end_laws:
  assumes "\<And>l. turn (turn l) = l" and "\<And>l. turn' l = turned (turn l)"
  shows "end_laws (script_end send turn) (\<lambda>x. x) (script_view turn) (script_view turn')"
proof -
  have read: "received (script_view turn) (script_view turn') buf l buf' l' p \<and>
      same_view (script_view turn') l l' \<and> length buf' = length buf \<and>
      ev_sent (script_view turn) l' = ev_sent (script_view turn) l \<and>
      ev_closed (script_view turn) l' = ev_closed (script_view turn) l"
    if "io_read (tt_io (script_end send turn)) buf l = (l', buf', p)" for buf l l' buf' p
  proof -
    obtain sent got closed psent pgot pclosed where l: "turn l = ((sent, got, closed), (psent, pgot, pclosed))"
      by (metis prod_cases3 surj_pair)
    have home: "turn ((sent, got, closed), (psent, pgot, pclosed)) = l" using assms(1) [of l] l by simp
    consider (same) "\<not> prefix got psent \<or> psent = got" | (more) zs where "psent = got @ zs" "zs \<noteq> []"
      by (metis append_Nil2 prefixE)
    then show ?thesis
    proof cases
      case same
      then have "l' = l \<and> buf' = buf \<and> (p = Pending \<or> p = Ready (Inr 0) \<and> psent = got \<and> pclosed)"
        using that l home by (auto simp: script_end_def Let_def split: if_splits)
      then show ?thesis using l assms(2) by (auto simp: script_view_def same_view_def)
    next
      case more
      let ?n = "min (length buf) (length zs)"
      have "l' = turn ((sent, got @ take ?n zs, closed), (psent, pgot, pclosed))"
        "buf' = take ?n zs @ drop ?n buf" "p = Ready (Inr ?n)"
        using that l more by (simp_all add: script_end_def Let_def)
      moreover have "?n = 0 \<longleftrightarrow> buf = []" using more(2) by (cases buf; cases zs) auto
      ultimately show ?thesis
        using l assms more(1) by (simp add: script_view_def same_view_def take_is_prefix)
    qed
  qed
  have wr: "wrote (\<lambda>x. x) (script_view turn) (script_view turn') x l x' l' r \<and>
      same_view (script_view turn') l l' \<and> prefix (ev_sent (script_view turn) l) (ev_sent (script_view turn) l') \<and>
      ev_got (script_view turn) l' = ev_got (script_view turn) l \<and>
      ev_closed (script_view turn) l' = ev_closed (script_view turn) l"
    if "tt_write_poll (script_end send turn) x l = (x', l', r)" for x l x' l' r
  proof -
    obtain sent got closed peer where l: "turn l = ((sent, got, closed), peer)" by (metis prod_cases3 surj_pair)
    with that have "l' = turn ((sent @ x, got, closed), peer)" "r = Ready (Inr ())" by (auto simp: script_end_def)
    then show ?thesis by (simp add: script_view_def same_view_def l assms)
  qed
  have close: "same_view (script_view turn') l (tt_close (script_end send turn) l) \<and>
      ev_closed (script_view turn) (tt_close (script_end send turn) l) \<and>
      ev_sent (script_view turn) (tt_close (script_end send turn) l) = ev_sent (script_view turn) l \<and>
      ev_got (script_view turn) (tt_close (script_end send turn) l) = ev_got (script_view turn) l" for l
  proof -
    obtain sent got closed peer where "turn l = ((sent, got, closed), peer)" by (metis prod_cases3 surj_pair)
    then show ?thesis by (simp add: script_end_def script_view_def same_view_def assms)
  qed
  have "tt_write_all (script_end send turn) bs = bs" for bs by (simp add: script_end_def)
  with wr read close show ?thesis unfolding end_laws_def by blast
qed

text \<open>Its two ends, a link on which nothing has happened, and the polls of one exchange.\<close>

lemma script_ends_laws:
  "end_laws (script_end send (\<lambda>l. l)) (\<lambda>x. x) (script_view (\<lambda>l. l)) (script_view turned)"
  "end_laws (script_end send' turned) (\<lambda>x. x) (script_view turned) (script_view (\<lambda>l. l))"
  by (rule script_end_laws; simp)+

lemma script_link_fresh:
  "ev_sent (script_view (\<lambda>l. l)) (([], [], False), ([], [], False)) = []"
  "ev_got (script_view (\<lambda>l. l)) (([], [], False), ([], [], False)) = []"
  "\<not> ev_closed (script_view (\<lambda>l. l)) (([], [], False), ([], [], False))"
  "ev_sent (script_view turned) (([], [], False), ([], [], False)) = []"
  "ev_got (script_view turned) (([], [], False), ([], [], False)) = []"
  "\<not> ev_closed (script_view turned) (([], [], False), ([], [], False))"
  by (simp_all add: script_view_def)

lemma script_polls:
  fixes qa :: 'q and qb :: 'p
  obtains a1 l1 p1 b2 l2 p2 a3 l3 p3 where
    "test_poll (script_end send (\<lambda>l. l)) (test_task_a (script_end send (\<lambda>l. l)) qa) (([], [], False), ([], [], False)) =
      ret (a1, l1, p1)" "tk_wait a1 \<noteq> TestOver"
    "test_poll (script_end send' turned) (test_task_b (script_end send' turned) qb) l1 = ret (b2, l2, p2)"
    "test_poll (script_end send (\<lambda>l. l)) a1 l2 = ret (a3, l3, p3)"
    "tk_wait b2 = TestOver" "tk_wait a3 = TestOver" "tk_done b2 = send' qb" "tk_done a3 = send qa"
proof -
  let ?ea = "script_end send (\<lambda>l. l)" and ?eb = "script_end send' turned"
  note eval = test_poll_def test_read_def test_send_def test_task_a_def test_task_b_def script_end_def
    assert_run_def slice_to_def Let_def
  obtain a1 l1 p1 where 1: "test_poll ?ea (test_task_a ?ea qa) (([], [], False), ([], [], False)) = ret (a1, l1, p1)"
    "tk_wait a1 \<noteq> TestOver"
    by (simp add: eval)
  have "\<exists>r. test_poll ?eb (test_task_b ?eb qb) l1 = ret r" using 1 by (auto simp: eval)
  then obtain b2 l2 p2 where 2: "test_poll ?eb (test_task_b ?eb qb) l1 = ret (b2, l2, p2)" by auto
  from 1 2 have "l2 = (([65], [], False), ([66], [65], True))" by (auto simp: eval)
  then have "\<exists>r. test_poll ?ea a1 l2 = ret r" using 1 by (auto simp: eval)
  then obtain a3 l3 p3 where 3: "test_poll ?ea a1 l2 = ret (a3, l3, p3)" by auto
  have "tk_wait b2 = TestOver" "tk_wait a3 = TestOver" "tk_done b2 = send' qb" "tk_done a3 = send qa"
    using 1 2 3 by (auto simp: eval)
  from that [OF 1 2 3 this] show thesis .
qed

text \<open>
  C19: The test cannot fail on a connection. Over a reliable link, however the polls of the two tasks
  and the network interleave, no poll of either task panics, so no unwrap and no assertion of the
  test fails, whatever the pieces in which the network hands over the bytes; and a task is over only
  after it has received exactly the byte that the other one sends. The buffer of the second task has
  two bytes by a slip (\<open>vec![0u8, 1]\<close>), which makes no difference.
\<close>

theorem test_connection_passes:
  assumes "end_laws ea lefta va vb" and "end_laws eb leftb vb va"
    and "\<And>l l'. net l l' \<Longrightarrow> same_view va l l' \<and> same_view vb l l'"
    and "ev_sent va link = []" "ev_got va link = []" "\<not> ev_closed va link"
    and "ev_sent vb link = []" "ev_got vb link = []" "\<not> ev_closed vb link"
    and "test_run ea eb net link qa qb a b l"
  shows "(tk_wait a \<noteq> TestOver \<longrightarrow> (\<exists>r. test_poll ea a l = ret r)) \<and>
    (tk_wait b \<noteq> TestOver \<longrightarrow> (\<exists>r. test_poll eb b l = ret r)) \<and>
    (tk_wait a = TestOver \<longrightarrow> ev_got va l = string_bytes ''B'') \<and>
    (tk_wait b = TestOver \<longrightarrow> ev_got vb l = string_bytes ''A'')"
proof -
  have ok: "pair_ok lefta leftb va vb (string_bytes ''A'') (string_bytes ''B'') a b l"
    by (rule test_run_ok [OF assms(10) assms(1-9)])
  then have "pair_ok leftb lefta vb va (string_bytes ''B'') (string_bytes ''A'') b a l"
    by (rule pair_ok_sym [THEN iffD1])
  from pair_ok_poll [OF assms(2) this] pair_ok_poll [OF assms(1) ok] ok show ?thesis
    by (auto simp: pair_ok_def task_at_def)
qed

theorem test_connection_passes_witness:
  "\<exists>a b l. test_run (script_end id (\<lambda>l. l)) (script_end id turned) (\<lambda>_ _. False) (([], [], False), ([], [], False)) () () a b l \<and>
    tk_wait a = TestOver \<and> tk_wait b = TestOver \<and> ev_got (script_view (\<lambda>l. l)) l = [66]"
proof -
  let ?ea = "script_end id (\<lambda>l. l) :: (script_link, bytes, unit) test_env" and ?eb = "script_end id turned"
  let ?link = "(([], [], False), ([], [], False)) :: script_link"
  let ?run = "test_run ?ea ?eb (\<lambda>_ _. False) ?link () ()"
  obtain a1 l1 p1 b2 l2 p2 a3 l3 p3 where
    1: "test_poll ?ea (test_task_a ?ea ()) ?link = ret (a1, l1, p1)" "tk_wait a1 \<noteq> TestOver"
    and 2: "test_poll ?eb (test_task_b ?eb ()) l1 = ret (b2, l2, p2)"
    and 3: "test_poll ?ea a1 l2 = ret (a3, l3, p3)" and over: "tk_wait b2 = TestOver" "tk_wait a3 = TestOver"
    by (rule script_polls [of id "()" id "()"])
  have "?run a1 (test_task_b ?eb ()) l1"
    by (rule test_run.polled_a [OF test_run.spawned _ 1(1)]) (simp add: test_task_a_def)
  from test_run.polled_b [OF this _ 2] have "?run a1 b2 l2" by (simp add: test_task_b_def)
  from test_run.polled_a [OF this 1(2) 3] have run: "?run a3 b2 l3" .
  from test_connection_passes [OF script_ends_laws _ script_link_fresh run] over run show ?thesis
    by (intro exI [of _ a3] exI [of _ b2] exI [of _ l3]) simp
qed

subsection \<open>The end of the test\<close>

text \<open>
  The test itself waits for a message on each of the two channels, \<open>done1\<close> and \<open>done2\<close>, and then
  cancels the tasks of the two swarms. \<open>fe_recv\<close> polls the receiver of a channel, \<open>fe_clone\<close> and
  \<open>fe_drop\<close> are the clone and the drop of a sender, and \<open>fe_cancel\<close> polls the \<open>cancel\<close> of a task \<open>'c\<close>.
\<close>

record ('q, 'c) finish_env =
  fe_recv :: "'q \<Rightarrow> 'q \<times> unit option poll"
  fe_clone :: "'q \<Rightarrow> 'q"
  fe_drop :: "'q \<Rightarrow> 'q"
  fe_cancel :: "'c \<Rightarrow> 'c \<times> unit poll"

datatype finish_wait = AwaitDone1 | AwaitDone2 | CancelA | CancelB | Passed

record 'c test_main =
  tm_task_a :: 'c
  tm_task_b :: 'c
  tm_wait :: finish_wait

definition finish_cancel_b :: "('q, 'c) finish_env \<Rightarrow> 'c test_main \<Rightarrow> 'c test_main \<times> unit poll" where
  "finish_cancel_b env m =
     (case fe_cancel env (tm_task_b m) of
        (t, Pending) \<Rightarrow> (m\<lparr>tm_task_b := t, tm_wait := CancelB\<rparr>, Pending)
      | (t, Ready _) \<Rightarrow> (m\<lparr>tm_task_b := t, tm_wait := Passed\<rparr>, Ready ()))"

definition finish_cancel_a :: "('q, 'c) finish_env \<Rightarrow> 'c test_main \<Rightarrow> 'c test_main \<times> unit poll" where
  "finish_cancel_a env m =
     (case fe_cancel env (tm_task_a m) of
        (t, Pending) \<Rightarrow> (m\<lparr>tm_task_a := t, tm_wait := CancelA\<rparr>, Pending)
      | (t, Ready _) \<Rightarrow> finish_cancel_b env (m\<lparr>tm_task_a := t\<rparr>))"

definition finish_done2 :: "('q, 'c) finish_env \<Rightarrow> 'c test_main \<Rightarrow> 'q \<Rightarrow> ('c test_main \<times> 'q \<times> unit poll) run" where
  "finish_done2 env m done2 =
     (case fe_recv env done2 of
        (done2, Pending) \<Rightarrow> ret (m\<lparr>tm_wait := AwaitDone2\<rparr>, done2, Pending)
      | (done2, Ready r) \<Rightarrow>
          run_bind (unwrap_opt r) (\<lambda>_.
          case finish_cancel_a env m of (m, p) \<Rightarrow> ret (m, done2, p)))"

definition finish_done1 ::
  "('q, 'c) finish_env \<Rightarrow> 'c test_main \<Rightarrow> 'q \<Rightarrow> 'q \<Rightarrow> ('c test_main \<times> 'q \<times> 'q \<times> unit poll) run" where
  "finish_done1 env m done1 done2 =
     (case fe_recv env done1 of
        (done1, Pending) \<Rightarrow> ret (m\<lparr>tm_wait := AwaitDone1\<rparr>, done1, done2, Pending)
      | (done1, Ready r) \<Rightarrow>
          run_bind (unwrap_opt r) (\<lambda>_.
          run_bind (finish_done2 env m done2) (\<lambda>(m, done2, p). ret (m, done1, done2, p))))"

text \<open>One poll of the end of the test, from where it waits.\<close>

definition test_finish ::
  "('q, 'c) finish_env \<Rightarrow> 'c test_main \<Rightarrow> 'q \<Rightarrow> 'q \<Rightarrow> ('c test_main \<times> 'q \<times> 'q \<times> unit poll) run" where
  "test_finish env m done1 done2 =
     (case tm_wait m of
        AwaitDone1 \<Rightarrow> finish_done1 env m done1 done2
      | AwaitDone2 \<Rightarrow> run_bind (finish_done2 env m done2) (\<lambda>(m, done2, p). ret (m, done1, done2, p))
      | CancelA \<Rightarrow> (case finish_cancel_a env m of (m, p) \<Rightarrow> ret (m, done1, done2, p))
      | CancelB \<Rightarrow> (case finish_cancel_b env m of (m, p) \<Rightarrow> ret (m, done1, done2, p))
      | Passed \<Rightarrow> panic)"

subsection \<open>The whole test\<close>

text \<open>
  The two sides: what the tasks of a side send and how they start, on an end of a link.
\<close>

datatype side = SideA | SideB

fun other_side :: "side \<Rightarrow> side" where
  "other_side SideA = SideB"
| "other_side SideB = SideA"

fun side_message :: "side \<Rightarrow> bytes" where
  "side_message SideA = string_bytes ''A''"
| "side_message SideB = string_bytes ''B''"

fun test_start :: "side \<Rightarrow> ('l, 'x, 'q) test_env \<Rightarrow> 'q \<Rightarrow> ('x, 'q) test_task" where
  "test_start SideA env q = test_task_a env q"
| "test_start SideB env q = test_task_b env q"

text \<open>
  A link has two ends, each free until a swarm gets it as a connection, then taken by a task of that
  side, and gone when that task has panicked. The task of a swarm runs until its stream ends or it
  panics. A channel is shared by its senders, which are the task of the swarm and the tasks it
  spawned, so its state is kept once, and a task is polled with it.
\<close>

datatype ('x, 'q) test_end = Free | Taken side "('x, 'q) test_task" | Gone side

datatype swarm_task = SwarmRuns | SwarmEnded | SwarmPanicked

record ('s, 'l, 'x, 'q, 'c) whole_state =
  ws_swarm :: "side \<Rightarrow> 's"
  ws_task :: "side \<Rightarrow> swarm_task"
  ws_done :: "side \<Rightarrow> 'q"
  ws_conns :: "('l \<times> (bool \<Rightarrow> ('x, 'q) test_end)) list"
  ws_main :: "'c test_main"

text \<open>The state when the tasks of the swarms are spawned, each with the sender of its channel.\<close>

definition whole_start :: "'s \<Rightarrow> 's \<Rightarrow> 'q \<Rightarrow> 'q \<Rightarrow> 'c \<Rightarrow> 'c \<Rightarrow> ('s, 'l, 'x, 'q, 'c) whole_state" where
  "whole_start a b done1 done2 ta tb =
     \<lparr>ws_swarm = case_side a b, ws_task = (\<lambda>_. SwarmRuns), ws_done = case_side done1 done2, ws_conns = [],
      ws_main = \<lparr>tm_task_a = ta, tm_task_b = tb, tm_wait = AwaitDone1\<rparr>\<rparr>"

text \<open>A task that the end of the test has cancelled does not run any more.\<close>

fun cancelled :: "'c test_main \<Rightarrow> side \<Rightarrow> bool" where
  "cancelled m SideA \<longleftrightarrow> tm_wait m \<in> {CancelB, Passed}"
| "cancelled m SideB \<longleftrightarrow> tm_wait m = Passed"

text \<open>
  A step: one turn of a swarm's task, which hands over at most one connection (\<open>swarm_gets\<close> one on a
  new link, \<open>swarm_joins\<close> one at the free end of a link there is; which link and which end is up to the
  network); a poll of the task of a connection that is not over; something the network does to a
  link; or a poll of the end of the test. A task that is over or panics drops its sender. The second
  swarm's task is spawned a little later than the first one's, which is one of the interleavings.
\<close>

inductive whole_step ::
  "('d, 't, 'a, 'p) swarm_env \<Rightarrow> (bool \<Rightarrow> ('l, 'x, 'q) test_env) \<Rightarrow> ('q, 'c) finish_env \<Rightarrow>
     ('l \<Rightarrow> 'l \<Rightarrow> bool) \<Rightarrow> ('l \<Rightarrow> bool) \<Rightarrow>
     (('d, 't, 'p) hyperswarm, 'l, 'x, 'q, 'c) whole_state \<Rightarrow>
     (('d, 't, 'p) hyperswarm, 'l, 'x, 'q, 'c) whole_state \<Rightarrow> bool"
  for senv ends fe net fresh where
  swarm_waits: "ws_task w sd = SwarmRuns \<Longrightarrow> \<not> cancelled (ws_main w) sd \<Longrightarrow>
    node_turn senv (ws_swarm w sd) [] = ret (s, [], Some Pending) \<Longrightarrow>
    whole_step senv ends fe net fresh w (w\<lparr>ws_swarm := (ws_swarm w)(sd := s)\<rparr>)"
| swarm_ends: "ws_task w sd = SwarmRuns \<Longrightarrow> \<not> cancelled (ws_main w) sd \<Longrightarrow>
    node_turn senv (ws_swarm w sd) [] = ret (s, [], Some (Ready ())) \<Longrightarrow>
    whole_step senv ends fe net fresh w (w\<lparr>ws_swarm := (ws_swarm w)(sd := s),
      ws_task := (ws_task w)(sd := SwarmEnded), ws_done := (ws_done w)(sd := fe_drop fe (ws_done w sd))\<rparr>)"
| swarm_panics: "ws_task w sd = SwarmRuns \<Longrightarrow> \<not> cancelled (ws_main w) sd \<Longrightarrow>
    node_turn senv (ws_swarm w sd) [] = panic \<Longrightarrow>
    whole_step senv ends fe net fresh w (w\<lparr>ws_task := (ws_task w)(sd := SwarmPanicked),
      ws_done := (ws_done w)(sd := fe_drop fe (ws_done w sd))\<rparr>)"
| swarm_gets: "ws_task w sd = SwarmRuns \<Longrightarrow> \<not> cancelled (ws_main w) sd \<Longrightarrow>
    node_turn senv (ws_swarm w sd) [] = ret (s, [stream], None) \<Longrightarrow> fresh l \<Longrightarrow>
    q = fe_clone fe (ws_done w sd) \<Longrightarrow>
    whole_step senv ends fe net fresh w (w\<lparr>ws_swarm := (ws_swarm w)(sd := s), ws_done := (ws_done w)(sd := q),
      ws_conns := ws_conns w @ [(l, (\<lambda>_. Free)(e := Taken sd (test_start sd (ends e) q)))]\<rparr>)"
| swarm_joins: "ws_task w sd = SwarmRuns \<Longrightarrow> \<not> cancelled (ws_main w) sd \<Longrightarrow>
    node_turn senv (ws_swarm w sd) [] = ret (s, [stream], None) \<Longrightarrow>
    i < length (ws_conns w) \<Longrightarrow> ws_conns w ! i = (l, f) \<Longrightarrow> f e = Free \<Longrightarrow>
    q = fe_clone fe (ws_done w sd) \<Longrightarrow>
    whole_step senv ends fe net fresh w (w\<lparr>ws_swarm := (ws_swarm w)(sd := s), ws_done := (ws_done w)(sd := q),
      ws_conns := (ws_conns w)[i := (l, f(e := Taken sd (test_start sd (ends e) q)))]\<rparr>)"
| task_polled: "i < length (ws_conns w) \<Longrightarrow> ws_conns w ! i = (l, f) \<Longrightarrow> f e = Taken sd t \<Longrightarrow>
    tk_wait t \<noteq> TestOver \<Longrightarrow> test_poll (ends e) (t\<lparr>tk_done := ws_done w sd\<rparr>) l = ret (t', l', p) \<Longrightarrow>
    q = (if tk_wait t' = TestOver then fe_drop fe (tk_done t') else tk_done t') \<Longrightarrow>
    whole_step senv ends fe net fresh w (w\<lparr>ws_done := (ws_done w)(sd := q),
      ws_conns := (ws_conns w)[i := (l', f(e := Taken sd t'))]\<rparr>)"
| task_panics: "i < length (ws_conns w) \<Longrightarrow> ws_conns w ! i = (l, f) \<Longrightarrow> f e = Taken sd t \<Longrightarrow>
    tk_wait t \<noteq> TestOver \<Longrightarrow> test_poll (ends e) (t\<lparr>tk_done := ws_done w sd\<rparr>) l = panic \<Longrightarrow>
    whole_step senv ends fe net fresh w (w\<lparr>ws_done := (ws_done w)(sd := fe_drop fe (ws_done w sd)),
      ws_conns := (ws_conns w)[i := (tt_close (ends e) l, f(e := Gone sd))]\<rparr>)"
| network: "i < length (ws_conns w) \<Longrightarrow> ws_conns w ! i = (l, f) \<Longrightarrow> net l l' \<Longrightarrow>
    whole_step senv ends fe net fresh w (w\<lparr>ws_conns := (ws_conns w)[i := (l', f)]\<rparr>)"
| finishing: "tm_wait (ws_main w) \<noteq> Passed \<Longrightarrow>
    test_finish fe (ws_main w) (ws_done w SideA) (ws_done w SideB) = ret (m, done1, done2, p) \<Longrightarrow>
    whole_step senv ends fe net fresh w (w\<lparr>ws_main := m, ws_done := case_side done1 done2\<rparr>)"

definition whole_test where
  "whole_test senv ends fe net fresh = rtranclp (whole_step senv ends fe net fresh)"

subsection \<open>What holds of the whole test\<close>

text \<open>
  The channels: \<open>waiting\<close> counts the messages in one, \<open>senders\<close> its senders. A send that is done adds at
  most one message (none when the receiver is gone), and a pending one none; a receive takes one if
  there is one, else it is pending as long as there are senders, and the end of the channel when there
  are none.
\<close>

definition done_laws :: "('l, 'x, 'q) test_env \<Rightarrow> ('q, 'c) finish_env \<Rightarrow> ('q \<Rightarrow> nat) \<Rightarrow> ('q \<Rightarrow> nat) \<Rightarrow> bool" where
  "done_laws env fe waiting senders \<longleftrightarrow>
     (\<forall>q q' p. tt_send_poll env q = (q', p) \<longrightarrow> senders q' = senders q \<and>
        waiting q \<le> waiting q' \<and> waiting q' \<le> waiting q + (if p = Pending then 0 else 1)) \<and>
     (\<forall>q q' p. fe_recv fe q = (q', p) \<longrightarrow> senders q' = senders q \<and>
        waiting q' = waiting q - 1 \<and>
        p = (if 0 < waiting q then Ready (Some ()) else if 0 < senders q then Pending else Ready None)) \<and>
     (\<forall>q. waiting (fe_clone fe q) = waiting q \<and> senders (fe_clone fe q) = Suc (senders q)) \<and>
     (\<forall>q. waiting (fe_drop fe q) = waiting q \<and> senders (fe_drop fe q) = senders q - 1)"

lemma done_lawsD:
  assumes "done_laws env fe waiting senders"
  shows "tt_send_poll env q = (q', p) \<Longrightarrow> senders q' = senders q \<and> (p = Pending \<longrightarrow> waiting q' = waiting q)"
    and "fe_recv fe q = (q', r) \<Longrightarrow> senders q' = senders q \<and> waiting q' = waiting q - 1 \<and>
      r = (if 0 < waiting q then Ready (Some ()) else if 0 < senders q then Pending else Ready None)"
    and "waiting (fe_clone fe q) = waiting q" "senders (fe_clone fe q) = Suc (senders q)"
    and "waiting (fe_drop fe q) = waiting q" "senders (fe_drop fe q) = senders q - 1"
proof -
  have "tt_send_poll env q = (q', p) \<Longrightarrow> senders q' = senders q \<and>
      waiting q \<le> waiting q' \<and> waiting q' \<le> waiting q + (if p = Pending then 0 else 1)"
    using assms unfolding done_laws_def by blast
  then show "tt_send_poll env q = (q', p) \<Longrightarrow> senders q' = senders q \<and> (p = Pending \<longrightarrow> waiting q' = waiting q)"
    by auto
qed (use assms in \<open>unfold done_laws_def, blast+\<close>)

text \<open>A task has sent its message only when it is over, and it neither clones nor drops a sender.\<close>

lemma test_poll_done:
  assumes "done_laws env fe waiting senders" and "test_poll env t l = ret (t', l', p)"
  shows "senders (tk_done t') = senders (tk_done t)"
    and "tk_wait t' \<noteq> TestOver \<Longrightarrow> waiting (tk_done t') = waiting (tk_done t)"
proof -
  let ?kept = "\<lambda>t t'. senders (tk_done t') = senders (tk_done t) \<and>
    (tk_wait t' \<noteq> TestOver \<longrightarrow> waiting (tk_done t') = waiting (tk_done t))"
  have send: "?kept t t'" if "test_send env t l = (t', l', p)" for t l t' l' p
    using that done_lawsD(1) [OF assms(1)] by (fastforce simp: test_send_def split: prod.splits poll.splits)
  have read: "?kept t t'" if "test_read env t l = ret (t', l', p)" for t l
    using that send by (fastforce simp: test_read_def Let_def run_simps split: prod.splits poll.splits)
  have "?kept t t'"
    using assms(2) read send
    by (fastforce simp: test_poll_def run_simps split: test_wait.splits prod.splits poll.splits)
  then show "senders (tk_done t') = senders (tk_done t)"
    and "tk_wait t' \<noteq> TestOver \<Longrightarrow> waiting (tk_done t') = waiting (tk_done t)" by simp_all
qed

text \<open>
  What a task knows by itself, whoever is at the other end: it gets on only with the byte it expects,
  and that the other end has sent.
\<close>

definition own_at :: "'l end_view \<Rightarrow> 'l end_view \<Rightarrow> bytes \<Rightarrow> ('x, 'q) test_task \<Rightarrow> 'l \<Rightarrow> bool" where
  "own_at own peer exp t l \<longleftrightarrow>
     tk_expected t = exp \<and> prefix (ev_got own l) (ev_sent peer l) \<and>
     ev_got own l = (case tk_wait t of TestWriting x \<Rightarrow> [] | TestReading \<Rightarrow> [] | TestSending \<Rightarrow> exp | TestOver \<Rightarrow> exp)"

lemma own_at_done [simp]: "own_at own peer exp (t\<lparr>tk_done := q\<rparr>) l \<longleftrightarrow> own_at own peer exp t l"
  by (simp add: own_at_def)

lemma test_send_own:
  assumes "end_laws env left own peer" and "test_send env t l = (t', l', p)"
    and "tk_expected t = exp" "ev_got own l = exp" "prefix exp (ev_sent peer l)"
  shows "own_at own peer exp t' l' \<and> same_view peer l l' \<and> ev_sent own l' = ev_sent own l"
  using assms(2-5) end_lawsD(4) [OF assms(1), of l]
  by (auto simp: test_send_def own_at_def same_view_def split: prod.splits poll.splits)

lemma test_read_own:
  assumes laws: "end_laws env left own peer" and "test_read env t l = ret (t', l', p)"
    and "tk_expected t = exp" "ev_got own l = []"
  shows "own_at own peer exp t' l' \<and> same_view peer l l' \<and> ev_sent own l' = ev_sent own l"
proof -
  obtain l1 buf r where read: "io_read (tt_io env) (tk_buf t) l = (l1, buf, r)" by (metis prod_cases3)
  note got = end_lawsD(3) [OF laws read]
  then have kept: "same_view peer l l1" "ev_sent own l1 = ev_sent own l" by blast+
  let ?t = "t\<lparr>tk_buf := buf, tk_wait := TestReading\<rparr>"
  show ?thesis
  proof (cases r rule: io_result_poll_cases)
    case pending
    with got assms(2-4) read show ?thesis by (auto simp: test_read_def own_at_def Let_def)
  next
    case (error e)
    with assms(2) read show ?thesis by (simp add: test_read_def Let_def)
  next
    case (item n)
    from item got have "received own peer (tk_buf t) l buf l1 (Ready (Inr n))" by blast
    then have "ev_got own l1 = ev_got own l @ take n buf" "prefix (ev_got own l1) (ev_sent peer l)"
      unfolding received.simps by blast+
    moreover from item assms(2,3) read have "take n buf = exp" and send: "test_send env ?t l1 = (t', l', p)"
      by (auto simp: test_read_def Let_def run_simps assert_run_def slice_to_def split: if_splits)
    ultimately have "ev_got own l1 = exp" "prefix exp (ev_sent peer l1)"
      using assms(4) kept(1) by (simp_all add: same_view_def)
    from test_send_own [OF laws send _ this] assms(3) kept show ?thesis by (simp add: same_view_def)
  qed
qed

lemma test_poll_own:
  assumes laws: "end_laws env left own peer" and own: "own_at own peer exp t l"
    and poll: "test_poll env t l = ret (t', l', p)"
  shows "own_at own peer exp t' l' \<and> same_view peer l l' \<and> prefix (ev_sent own l) (ev_sent own l')"
proof (cases "tk_wait t")
  case (TestWriting x)
  obtain x' l1 r where wr: "tt_write_poll env x l = (x', l1, r)" by (metis prod_cases3)
  note sent = end_lawsD(2) [OF laws wr]
  then have kept: "same_view peer l l1" "prefix (ev_sent own l) (ev_sent own l1)" "ev_got own l1 = ev_got own l"
    by blast+
  show ?thesis
  proof (cases r rule: io_result_poll_cases)
    case pending
    with poll wr TestWriting kept own show ?thesis by (auto simp: test_poll_def own_at_def)
  next
    case (error e)
    with poll wr TestWriting show ?thesis by (simp add: test_poll_def)
  next
    case (item u)
    with poll wr TestWriting have "test_read env t l1 = ret (t', l', p)" by (simp add: test_poll_def)
    from test_read_own [OF laws this, of exp] own TestWriting kept show ?thesis
      by (auto simp: own_at_def same_view_def)
  qed
next
  case TestReading
  with own have "tk_expected t = exp" "ev_got own l = []" by (simp_all add: own_at_def)
  with test_read_own [OF laws _ this] poll TestReading show ?thesis by (simp add: test_poll_def)
next
  case TestSending
  with own have "tk_expected t = exp" "ev_got own l = exp" "prefix exp (ev_sent peer l)" by (auto simp: own_at_def)
  with test_send_own [OF laws _ this] poll TestSending show ?thesis by (simp add: test_poll_def)
qed (use poll in \<open>simp add: test_poll_def\<close>)

text \<open>
  A link: what its free ends and its tasks know. And when its ends are not both taken by one side, the
  exchange of the previous section goes on at it, so that none of its tasks panics.
\<close>

fun end_side :: "('x, 'q) test_end \<Rightarrow> side option" where
  "end_side Free = None"
| "end_side (Taken sd t) = Some sd"
| "end_side (Gone sd) = Some sd"

definition between :: "(bool \<Rightarrow> ('x, 'q) test_end) \<Rightarrow> bool" where
  "between f \<longleftrightarrow> end_side (f False) = None \<or> end_side (f True) = None \<or> end_side (f False) \<noteq> end_side (f True)"

fun end_own :: "'l end_view \<Rightarrow> 'l end_view \<Rightarrow> 'l \<Rightarrow> ('x, 'q) test_end \<Rightarrow> bool" where
  "end_own own peer l Free \<longleftrightarrow> ev_sent own l = [] \<and> ev_got own l = [] \<and> \<not> ev_closed own l"
| "end_own own peer l (Taken sd t) \<longleftrightarrow> own_at own peer (side_message (other_side sd)) t l"
| "end_own own peer l (Gone sd) \<longleftrightarrow> True"

fun end_pair :: "('x \<Rightarrow> bytes) \<Rightarrow> 'l end_view \<Rightarrow> 'l \<Rightarrow> ('x, 'q) test_end \<Rightarrow> bool" where
  "end_pair left own l Free \<longleftrightarrow> True"
| "end_pair left own l (Taken sd t) \<longleftrightarrow> task_at left own (side_message sd) (side_message (other_side sd)) t l"
| "end_pair left own l (Gone sd) \<longleftrightarrow> False"

definition link_ok ::
  "('x \<Rightarrow> bytes) \<Rightarrow> (bool \<Rightarrow> 'l end_view) \<Rightarrow> (bool \<Rightarrow> ('x, 'q) test_end) \<Rightarrow> 'l \<Rightarrow> bool" where
  "link_ok left v f l \<longleftrightarrow>
     (\<forall>e. end_own (v e) (v (\<not> e)) l (f e)) \<and> (between f \<longrightarrow> (\<forall>e. end_pair left (v e) l (f e)))"

lemma task_at_done [simp]: "task_at left own msg exp (t\<lparr>tk_done := q\<rparr>) l \<longleftrightarrow> task_at left own msg exp t l"
  by (simp add: task_at_def)

lemma end_own_peer:
  assumes "end_own own peer l x" and "same_view own l l'" and "prefix (ev_sent peer l) (ev_sent peer l')"
  shows "end_own own peer l' x"
  using assms by (cases x) (auto simp: own_at_def same_view_def intro: prefix_order.trans)

lemma end_pair_same_view: "end_pair left own l x \<Longrightarrow> same_view own l l' \<Longrightarrow> end_pair left own l' x"
  by (cases x) (auto intro: task_at_same_view)

lemma both_ends: "(\<forall>e'. P e') \<longleftrightarrow> P e \<and> P (\<not> e)" for e :: bool
  by (cases e) (auto, (metis (full_types))+)

lemma between_iff: "between f \<longleftrightarrow> end_side (f e) = None \<or> end_side (f (\<not> e)) = None \<or> end_side (f e) \<noteq> end_side (f (\<not> e))"
  by (cases e) (auto simp: between_def)

text \<open>What happens at one end leaves the other end as it was.\<close>

lemma link_ok_step:
  assumes "link_ok left v f l" and "same_view (v (\<not> e)) l l'"
    and "prefix (ev_sent (v e) l) (ev_sent (v e) l')" and "end_own (v e) (v (\<not> e)) l' x"
    and "between (f(e := x)) \<Longrightarrow> between f \<and> end_pair left (v e) l' x"
  shows "link_ok left v (f(e := x)) l'"
proof -
  from assms(1) have own: "end_own (v (\<not> e)) (v e) l (f (\<not> e))"
    and pair: "between f \<Longrightarrow> end_pair left (v (\<not> e)) l (f (\<not> e))"
    by (auto simp: link_ok_def both_ends [of _ e])
  from end_own_peer [OF own assms(2,3)] end_pair_same_view [OF pair assms(2)] assms(4,5) show ?thesis
    by (auto simp: link_ok_def both_ends [of _ e])
qed

lemma link_ok_network:
  assumes "link_ok left v f l" and "\<And>e. same_view (v e) l l'"
  shows "link_ok left v f l'"
proof -
  have "end_own (v e) (v (\<not> e)) l x \<Longrightarrow> end_own (v e) (v (\<not> e)) l' x" for e x
    by (erule end_own_peer [OF _ assms(2)]) (use assms(2) [of "\<not> e"] in \<open>simp add: same_view_def\<close>)
  with assms(1) end_pair_same_view [OF _ assms(2)] show ?thesis unfolding link_ok_def by blast
qed

text \<open>A swarm gets an end as a connection.\<close>

lemma test_start_not_over: "tk_wait (test_start sd env q) \<noteq> TestOver"
  by (cases sd) (simp_all add: test_task_a_def test_task_b_def)

lemma test_start_ok:
  assumes "end_laws env left own peer" and "ev_sent own l = []" "ev_got own l = []" "\<not> ev_closed own l"
  shows "task_at left own (side_message sd) (side_message (other_side sd)) (test_start sd env q) l"
    and "own_at own peer (side_message (other_side sd)) (test_start sd env q) l"
  using assms(2-4) end_lawsD(1) [OF assms(1)]
  by (cases sd; simp add: task_at_def own_at_def test_task_a_def test_task_b_def)+

lemma link_ok_start:
  assumes "\<And>e. end_laws (ends e) left (v e) (v (\<not> e))" and "link_ok left v f l" and "f e = Free"
  shows "link_ok left v (f(e := Taken sd (test_start sd (ends e) q))) l"
proof -
  from assms(2,3) have "ev_sent (v e) l = []" "ev_got (v e) l = []" "\<not> ev_closed (v e) l"
    by (auto simp: link_ok_def both_ends [of _ e])
  note start = test_start_ok [OF assms(1) this]
  show ?thesis
    by (rule link_ok_step [OF assms(2)])
       (use start assms(3) in \<open>auto simp: same_view_def between_iff [of f e]\<close>)
qed

lemma link_ok_fresh:
  assumes "\<And>e. ev_sent (v e) l = [] \<and> ev_got (v e) l = [] \<and> \<not> ev_closed (v e) l"
  shows "link_ok left v (\<lambda>_. Free) l"
  using assms by (simp add: link_ok_def)

text \<open>A task is polled.\<close>

lemma between_task_returns:
  assumes "end_laws (ends e) left (v e) (v (\<not> e))" and ok: "link_ok left v f l" and "between f"
    and "f e = Taken sd t" "tk_wait t \<noteq> TestOver"
  shows "\<exists>t' l' p. test_poll (ends e) (t\<lparr>tk_done := q\<rparr>) l = ret (t', l', p) \<and>
    task_at left (v e) (side_message sd) (side_message (other_side sd)) t' l'"
proof -
  from ok assms(3,4) have own: "own_at (v e) (v (\<not> e)) (side_message (other_side sd)) t l"
    and peer: "end_own (v (\<not> e)) (v e) l (f (\<not> e))" "end_pair left (v (\<not> e)) l (f (\<not> e))"
    and task: "task_at left (v e) (side_message sd) (side_message (other_side sd)) t l"
    by (auto simp: link_ok_def both_ends [of _ e])
  have "peer_at (v e) (v (\<not> e)) (side_message sd) (side_message (other_side sd)) l"
  proof (cases "f (\<not> e)")
    case Free
    with peer own show ?thesis by (auto simp: peer_at_def own_at_def)
  next
    case (Taken sd' t')
    with assms(3,4) have "sd' \<noteq> sd" by (auto simp: between_iff [of f e])
    then have "other_side sd = sd'" "other_side sd' = sd" by (cases sd; cases sd'; simp)+
    with peer own Taken show ?thesis
      by (intro task_at_peer [where left = left and t = t']) (auto simp: own_at_def)
  next
    case (Gone sd')
    with peer show ?thesis by simp
  qed
  moreover have "length (side_message (other_side sd)) = 1" by (cases sd) simp_all
  ultimately show ?thesis
    using test_poll_ok [OF assms(1), of "side_message (other_side sd)" "side_message sd" "t\<lparr>tk_done := q\<rparr>" l]
      task assms(5) by (auto simp: end_step_def)
qed

lemma link_ok_poll:
  assumes laws: "end_laws (ends e) left (v e) (v (\<not> e))" and ok: "link_ok left v f l"
    and f: "f e = Taken sd t" "tk_wait t \<noteq> TestOver"
    and poll: "test_poll (ends e) (t\<lparr>tk_done := q\<rparr>) l = ret (t', l', p)"
  shows "link_ok left v (f(e := Taken sd t')) l'"
proof -
  from ok f(1) have "own_at (v e) (v (\<not> e)) (side_message (other_side sd)) (t\<lparr>tk_done := q\<rparr>) l"
    by (auto simp: link_ok_def both_ends [of _ e])
  note own = test_poll_own [OF laws this poll]
  have same: "between (f(e := Taken sd t')) \<longleftrightarrow> between f" by (simp add: between_iff [of _ e] f(1))
  have "task_at left (v e) (side_message sd) (side_message (other_side sd)) t' l'" if "between f"
    using between_task_returns [where ends = ends and e = e, OF laws ok that f, of q] poll by simp
  with own same show ?thesis by (intro link_ok_step [OF ok]) simp_all
qed

lemma link_ok_panic:
  assumes laws: "end_laws (ends e) left (v e) (v (\<not> e))" and ok: "link_ok left v f l"
    and f: "f e = Taken sd t" "tk_wait t \<noteq> TestOver"
    and poll: "test_poll (ends e) (t\<lparr>tk_done := q\<rparr>) l = panic"
  shows "\<not> between f \<and> link_ok left v (f(e := Gone sd)) (tt_close (ends e) l)"
proof -
  from between_task_returns [where ends = ends and e = e, OF laws ok _ f, of q] poll have "\<not> between f" by auto
  moreover have "between (f(e := Gone sd)) \<longleftrightarrow> between f" by (simp add: between_iff [of _ e] f(1))
  ultimately show ?thesis
    using end_lawsD(4) [OF laws, of l] by (intro conjI link_ok_step [OF ok]) auto
qed

text \<open>
  The end of the test: it takes a message to get past a channel, and it panics only at a channel that
  has ended.
\<close>

fun past :: "side \<Rightarrow> 'c test_main \<Rightarrow> bool" where
  "past SideA m \<longleftrightarrow> tm_wait m \<noteq> AwaitDone1"
| "past SideB m \<longleftrightarrow> tm_wait m \<in> {CancelA, CancelB, Passed}"

lemma finish_cancel_past:
  "finish_cancel_a env m = (m', p) \<Longrightarrow> past sd m'" "finish_cancel_b env m = (m', p) \<Longrightarrow> past sd m'"
  by (cases sd; auto simp: finish_cancel_a_def finish_cancel_b_def split: prod.splits poll.splits)+

lemma finish_done2_result:
  assumes "done_laws env fe waiting senders" and "finish_done2 fe m q = ret (m', q', p)"
  shows "senders q' = senders q \<and> waiting q' \<le> waiting q \<and> past SideA m' \<and> (past SideB m' \<longrightarrow> waiting q \<noteq> 0)"
proof -
  obtain q1 r where recv: "fe_recv fe q = (q1, r)" by fastforce
  obtain m1 p1 where cancel: "finish_cancel_a fe m = (m1, p1)" by fastforce
  from assms(2) done_lawsD(2) [OF assms(1) recv] finish_cancel_past(1) [OF cancel, of SideA] cancel recv show ?thesis
    by (auto simp: finish_done2_def run_simps split: if_splits)
qed

lemma finish_done2_returns:
  assumes "done_laws env fe waiting senders" and "0 < senders q"
  shows "\<exists>r. finish_done2 fe m q = ret r"
proof -
  obtain q1 r where recv: "fe_recv fe q = (q1, r)" by fastforce
  with done_lawsD(2) [OF assms(1) recv] assms(2) show ?thesis
    by (auto simp: finish_done2_def split: prod.splits)
qed

lemma test_finish_result:
  assumes "done_laws env fe waiting senders" and "test_finish fe m done1 done2 = ret (m', q1, q2, p)"
    and "tm_wait m \<noteq> Passed"
  shows "senders q1 = senders done1 \<and> senders q2 = senders done2 \<and> waiting q1 \<le> waiting done1 \<and>
    waiting q2 \<le> waiting done2 \<and> (past SideA m' \<longrightarrow> past SideA m \<or> waiting done1 \<noteq> 0) \<and>
    (past SideB m' \<longrightarrow> past SideB m \<or> waiting done2 \<noteq> 0)"
proof (cases "tm_wait m")
  case AwaitDone1
  obtain q r where recv: "fe_recv fe done1 = (q, r)" by fastforce
  note law = done_lawsD(2) [OF assms(1) recv]
  show ?thesis
  proof (cases "waiting done1")
    case 0
    with law recv assms(2) AwaitDone1 show ?thesis
      by (auto simp: test_finish_def finish_done1_def split: if_splits)
  next
    case (Suc n)
    with law recv assms(2) AwaitDone1 have "finish_done2 fe m done2 = ret (m', q2, p)" and "q1 = q"
      by (auto simp: test_finish_def finish_done1_def run_simps)
    with finish_done2_result [OF assms(1) this(1)] law Suc show ?thesis by auto
  qed
next
  case AwaitDone2
  with assms(2) have "finish_done2 fe m done2 = ret (m', q2, p)" and "q1 = done1"
    by (auto simp: test_finish_def run_simps)
  with finish_done2_result [OF assms(1) this(1)] AwaitDone2 show ?thesis by auto
qed (use assms(2,3) in \<open>auto simp: test_finish_def split: prod.splits\<close>)

lemma test_finish_returns:
  assumes "done_laws env fe waiting senders" and "0 < senders done1" "0 < senders done2" and "tm_wait m \<noteq> Passed"
  shows "\<exists>r. test_finish fe m done1 done2 = ret r"
proof (cases "tm_wait m")
  case AwaitDone1
  obtain q r where recv: "fe_recv fe done1 = (q, r)" by fastforce
  from finish_done2_returns [OF assms(1,3), of m] done_lawsD(2) [OF assms(1) recv] recv AwaitDone1 assms(2) show ?thesis
    by (auto simp: test_finish_def finish_done1_def split: if_splits)
next
  case AwaitDone2
  from finish_done2_returns [OF assms(1,3), of m] AwaitDone2 show ?thesis by (auto simp: test_finish_def)
qed (use assms(4) in \<open>auto simp: test_finish_def split: prod.splits\<close>)

text \<open>It does panic there: a swarm's task that panicked before it got a connection fails the test.\<close>

lemma test_finish_ended:
  assumes "done_laws env fe waiting senders" and "waiting done1 = 0" "senders done1 = 0" and "tm_wait m = AwaitDone1"
  shows "test_finish fe m done1 done2 = panic"
proof -
  obtain q r where recv: "fe_recv fe done1 = (q, r)" by fastforce
  from done_lawsD(2) [OF assms(1) recv] recv assms(2-4) show ?thesis
    by (simp add: test_finish_def finish_done1_def)
qed

text \<open>The tasks of a side that hold a sender, counted; and whether one of them is over.\<close>

fun live_end :: "side \<Rightarrow> ('x, 'q) test_end \<Rightarrow> nat" where
  "live_end sd (Taken sd' t) = (if sd' = sd \<and> tk_wait t \<noteq> TestOver then 1 else 0)"
| "live_end sd Free = 0"
| "live_end sd (Gone sd') = 0"

definition live :: "side \<Rightarrow> ('l \<times> (bool \<Rightarrow> ('x, 'q) test_end)) list \<Rightarrow> nat" where
  "live sd conns = sum_list (map (\<lambda>(l, f). live_end sd (f False) + live_end sd (f True)) conns)"

lemma live_append [simp]: "live sd (conns @ [(l, f)]) = live sd conns + live_end sd (f False) + live_end sd (f True)"
  by (simp add: live_def)

lemma live_update:
  assumes "i < length conns" and "conns ! i = (l, f)"
  shows "live sd (conns[i := (l', f(e := x))]) + live_end sd (f e) = live sd conns + live_end sd x"
  using assms
proof (induction conns arbitrary: i)
  case (Cons c conns)
  then show ?case by (cases i; cases e) (auto simp: live_def)
qed simp

definition someone_over :: "side \<Rightarrow> ('l \<times> (bool \<Rightarrow> ('x, 'q) test_end)) list \<Rightarrow> bool" where
  "someone_over sd conns \<longleftrightarrow> (\<exists>(l, f) \<in> set conns. \<exists>e t. f e = Taken sd t \<and> tk_wait t = TestOver)"

lemma someone_over_append: "someone_over sd conns \<Longrightarrow> someone_over sd (conns @ conns')"
  by (auto simp: someone_over_def)

lemma someone_over_update:
  assumes "someone_over sd conns" and "i < length conns" and "conns ! i = (l, f)"
    and "f' = f \<or> (\<exists>e x. f' = f(e := x) \<and> (\<forall>t. f e = Taken sd t \<longrightarrow> tk_wait t \<noteq> TestOver))"
  shows "someone_over sd (conns[i := (l', f')])"
proof -
  from assms(1) obtain j l0 f0 e0 t0 where j: "j < length conns" "conns ! j = (l0, f0)"
    "f0 e0 = Taken sd t0" "tk_wait t0 = TestOver"
    by (auto simp: someone_over_def in_set_conv_nth)
  show ?thesis
  proof (cases "j = i")
    case True
    with j assms(3,4) have "f' e0 = Taken sd t0" by auto
    with j(4) assms(2) set_update_memI [OF assms(2), of "(l', f')"] show ?thesis
      unfolding someone_over_def by blast
  next
    case False
    with j have "(l0, f0) \<in> set (conns[i := (l', f')])" by (metis length_list_update nth_list_update_neq nth_mem)
    with j(3,4) show ?thesis unfolding someone_over_def by blast
  qed
qed

text \<open>
  The invariant, for a property \<open>sok\<close> of a swarm's state: a swarm's stream does not end; the senders of
  a channel are the swarm's task, as long as it runs, and the tasks it spawned that are not over; a
  channel has had a message only when one of these is over.
\<close>

definition side_ok ::
  "('s \<Rightarrow> bool) \<Rightarrow> ('q \<Rightarrow> nat) \<Rightarrow> ('q \<Rightarrow> nat) \<Rightarrow> ('s, 'l, 'x, 'q, 'c) whole_state \<Rightarrow> side \<Rightarrow> bool" where
  "side_ok sok waiting senders w sd \<longleftrightarrow>
     sok (ws_swarm w sd) \<and> ws_task w sd \<noteq> SwarmEnded \<and>
     senders (ws_done w sd) = (if ws_task w sd = SwarmRuns then 1 else 0) + live sd (ws_conns w) \<and>
     (waiting (ws_done w sd) \<noteq> 0 \<or> past sd (ws_main w) \<longrightarrow> someone_over sd (ws_conns w))"

definition whole_ok where
  "whole_ok sok left v waiting senders w \<longleftrightarrow>
     (\<forall>sd. side_ok sok waiting senders w sd) \<and> (\<forall>(l, f) \<in> set (ws_conns w). link_ok left v f l)"

lemma whole_ok_conns:
  assumes "\<forall>(l, f) \<in> set conns. link_ok left v f l" and "link_ok left v f' l'"
  shows "\<forall>(l, f) \<in> set (conns[i := (l', f')]). link_ok left v f l"
    and "\<forall>(l, f) \<in> set (conns @ [(l', f')]). link_ok left v f l"
  using assms set_update_subset_insert [of conns i "(l', f')"] by auto

text \<open>A change that concerns one side, one end of one link, and not the end of the test.\<close>

lemma side_ok_update:
  assumes "\<And>sd. side_ok sok waiting senders w sd" and "i < length (ws_conns w)" and "ws_conns w ! i = (l, f)"
    and "f e = Free \<or> (\<exists>t. f e = Taken sd0 t \<and> tk_wait t \<noteq> TestOver)"
    and "end_side x = Some sd0" and "sok s"
    and "senders q + live_end sd0 (f e) = senders (ws_done w sd0) + live_end sd0 x"
    and "waiting q = waiting (ws_done w sd0) \<or> (\<exists>t. x = Taken sd0 t \<and> tk_wait t = TestOver)"
  shows "side_ok sok waiting senders (w\<lparr>ws_swarm := (ws_swarm w)(sd0 := s), ws_done := (ws_done w)(sd0 := q),
      ws_conns := (ws_conns w)[i := (l', f(e := x))]\<rparr>) sd"
proof -
  let ?conns = "(ws_conns w)[i := (l', f(e := x))]"
  have over: "someone_over sd ?conns" if "someone_over sd (ws_conns w)"
    by (rule someone_over_update [OF that assms(2,3)]) (use assms(4) in auto)
  have live: "live sd ?conns + live_end sd (f e) = live sd (ws_conns w) + live_end sd x"
    by (rule live_update [OF assms(2,3)])
  have new: "someone_over sd0 ?conns" if "x = Taken sd0 t" "tk_wait t = TestOver" for t
    using that set_update_memI [OF assms(2), of "(l', f(e := x))"] unfolding someone_over_def
    by (intro bexI [of _ "(l', f(e := x))"]) auto
  show ?thesis
  proof (cases "sd = sd0")
    case True
    with assms(1) [of sd0] assms(6-8) over live new show ?thesis by (auto simp: side_ok_def)
  next
    case False
    with assms(4,5) have "live_end sd (f e) = 0" "live_end sd x = 0" by (cases x; auto)+
    with False assms(1) [of sd] over live show ?thesis by (auto simp: side_ok_def)
  qed
qed

lemma whole_step_ok:
  assumes "whole_step senv ends fe net fresh w w'" and "whole_ok sok left v waiting senders w"
    and laws: "\<And>e. end_laws (ends e) left (v e) (v (\<not> e))" "\<And>e. done_laws (ends e) fe waiting senders"
    and quiet: "\<And>e l l'. net l l' \<Longrightarrow> same_view (v e) l l'"
    and clean: "\<And>e l. fresh l \<Longrightarrow> ev_sent (v e) l = [] \<and> ev_got (v e) l = [] \<and> \<not> ev_closed (v e) l"
    and turn: "\<And>s s' streams stop. sok s \<Longrightarrow> node_turn senv s [] = ret (s', streams, stop) \<Longrightarrow>
      sok s' \<and> stop \<noteq> Some (Ready ())"
  shows "whole_ok sok left v waiting senders w'"
proof -
  note chan = done_lawsD [OF laws(2)]
  from assms(2) have side: "\<And>sd. side_ok sok waiting senders w sd"
    and links: "\<forall>(l, f) \<in> set (ws_conns w). link_ok left v f l" by (simp_all add: whole_ok_def)
  then have sok: "\<And>sd. sok (ws_swarm w sd)" by (simp add: side_ok_def)
  have link: "link_ok left v f l" if "i < length (ws_conns w)" "ws_conns w ! i = (l, f)" for i l f
    using links that by (metis (mono_tags, lifting) case_prodD nth_mem)
  from assms(1) show ?thesis
  proof cases
    case (swarm_waits sd s)
    with side links turn [OF sok swarm_waits(4)] show ?thesis by (auto simp: whole_ok_def side_ok_def)
  next
    case (swarm_ends sd s)
    with turn [OF sok swarm_ends(4)] show ?thesis by simp
  next
    case (swarm_panics sd)
    with side links chan(5,6) show ?thesis by (auto simp: whole_ok_def side_ok_def)
  next
    case (swarm_gets sd s stream l q e)
    let ?f = "(\<lambda>_. Free)(e := Taken sd (test_start sd (ends e) q))"
    have "link_ok left v ?f l"
      by (rule link_ok_start [where ends = ends and v = v, OF laws(1) link_ok_fresh]) (use clean [OF swarm_gets(5)] in simp_all)
    with whole_ok_conns(2) [OF links] have "\<forall>(l, f) \<in> set (ws_conns w'). link_ok left v f l"
      by (simp add: swarm_gets(1))
    moreover have live: "live sd' (ws_conns w') = live sd' (ws_conns w) + (if sd' = sd then 1 else 0)" for sd'
      by (cases e) (simp_all add: swarm_gets(1) test_start_not_over)
    have over: "someone_over sd' (ws_conns w')" if "someone_over sd' (ws_conns w)" for sd'
      using someone_over_append [OF that] by (simp add: swarm_gets(1))
    have parts: "ws_swarm w' = (ws_swarm w)(sd := s)" "ws_done w' = (ws_done w)(sd := fe_clone fe (ws_done w sd))"
      "ws_task w' = ws_task w" "ws_main w' = ws_main w"
      by (simp_all add: swarm_gets(1,6))
    have "side_ok sok waiting senders w' sd'" for sd'
      using side [of sd'] turn [OF sok swarm_gets(4)] over [of sd']
      by (cases "sd' = sd") (simp_all add: side_ok_def parts live chan(3,4) swarm_gets(2))
    ultimately show ?thesis by (simp add: whole_ok_def)
  next
    case (swarm_joins sd s stream i l f e q)
    let ?x = "Taken sd (test_start sd (ends e) q)"
    note start = link_ok_start [where ends = ends and v = v, OF laws(1) link [OF swarm_joins(5,6)] swarm_joins(7), of sd q]
    have "side_ok sok waiting senders w' sd'" for sd'
      unfolding swarm_joins(1)
      using turn [OF sok swarm_joins(4)] chan(3,4) [of "ws_done w sd"] swarm_joins(7,8) test_start_not_over [of sd "ends e" q]
      by (intro side_ok_update [OF side swarm_joins(5,6)]) auto
    with whole_ok_conns(1) [OF links start] show ?thesis by (simp add: whole_ok_def swarm_joins(1))
  next
    case (task_polled i l f e sd t t' l' p q)
    note poll = link_ok_poll [where ends = ends and e = e, OF laws(1) link [OF task_polled(2,3)] task_polled(4-6)]
    note kept = test_poll_done [OF laws(2) task_polled(6)]
    have "0 < senders (ws_done w sd)"
    proof -
      have "live sd (ws_conns w) \<noteq> 0"
        using live_update [OF task_polled(2,3), of sd l e Free] task_polled(4,5) by simp
      with side [of sd] show ?thesis by (simp add: side_ok_def)
    qed
    then have "side_ok sok waiting senders (w\<lparr>ws_swarm := (ws_swarm w)(sd := ws_swarm w sd), ws_done := (ws_done w)(sd := q),
        ws_conns := (ws_conns w)[i := (l', f(e := Taken sd t'))]\<rparr>) sd'" for sd'
      using kept chan(5,6) [of "tk_done t'"] task_polled(4,5,7) sok
      by (intro side_ok_update [OF side task_polled(2,3)]) auto
    with whole_ok_conns(1) [OF links poll] show ?thesis by (simp add: whole_ok_def task_polled(1))
  next
    case (task_panics i l f e sd t)
    note panics = link_ok_panic [where ends = ends and e = e, OF laws(1) link [OF task_panics(2,3)] task_panics(4-6), THEN conjunct2]
    have "live sd (ws_conns w) \<noteq> 0"
      using live_update [OF task_panics(2,3), of sd l e Free] task_panics(4,5) by simp
    with side [of sd] have "0 < senders (ws_done w sd)" by (simp add: side_ok_def)
    then have "side_ok sok waiting senders (w\<lparr>ws_swarm := (ws_swarm w)(sd := ws_swarm w sd),
        ws_done := (ws_done w)(sd := fe_drop fe (ws_done w sd)),
        ws_conns := (ws_conns w)[i := (tt_close (ends e) l, f(e := Gone sd))]\<rparr>) sd'" for sd'
      using chan(5,6) [of "ws_done w sd"] task_panics(4,5) sok
      by (intro side_ok_update [OF side task_panics(2,3)]) auto
    with whole_ok_conns(1) [OF links panics] show ?thesis by (simp add: whole_ok_def task_panics(1))
  next
    case (network i l f l')
    have "link_ok left v f l'" by (rule link_ok_network [OF link [OF network(2,3)] quiet [OF network(4)]])
    from whole_ok_conns(1) [OF links this] have "\<forall>(l, f) \<in> set (ws_conns w'). link_ok left v f l"
      by (simp add: network(1))
    moreover have "side_ok sok waiting senders w' sd" for sd
      using side [of sd] live_update [OF network(2,3), of sd l' False "f False"]
        someone_over_update [OF _ network(2,3), of sd f l']
      by (auto simp: side_ok_def network(1))
    ultimately show ?thesis by (simp add: whole_ok_def)
  next
    case (finishing m done1 done2 p)
    note result = test_finish_result [OF laws(2) finishing(3,2)]
    have "side_ok sok waiting senders w' sd" for sd
      using side [of sd] result by (cases sd) (auto simp: side_ok_def finishing(1))
    with links show ?thesis by (simp add: whole_ok_def finishing(1))
  qed
qed

lemma whole_test_ok:
  assumes "whole_test senv ends fe net fresh w w'" and "whole_ok sok left v waiting senders w"
    and "\<And>e. end_laws (ends e) left (v e) (v (\<not> e))" "\<And>e. done_laws (ends e) fe waiting senders"
    and "\<And>e l l'. net l l' \<Longrightarrow> same_view (v e) l l'"
    and "\<And>e l. fresh l \<Longrightarrow> ev_sent (v e) l = [] \<and> ev_got (v e) l = [] \<and> \<not> ev_closed (v e) l"
    and "\<And>s s' streams stop. sok s \<Longrightarrow> node_turn senv s [] = ret (s', streams, stop) \<Longrightarrow>
      sok s' \<and> stop \<noteq> Some (Ready ())"
  shows "whole_ok sok left v waiting senders w'"
  using assms(1,2) unfolding whole_test_def
  by (induction rule: rtranclp_induct) (auto intro: whole_step_ok [where ends = ends and left = left and v = v and net = net and fresh = fresh
      and sok = sok, OF _ _ assms(3-7)])

lemma whole_start_ok:
  assumes "sok a" "sok b" and "waiting qa = 0" "waiting qb = 0" "senders qa = 1" "senders qb = 1"
  shows "whole_ok sok left v waiting senders (whole_start a b qa qb ta tb)"
proof (unfold whole_ok_def, intro conjI allI)
  fix sd
  show "side_ok sok waiting senders (whole_start a b qa qb ta tb) sd"
    using assms by (cases sd) (simp_all add: side_ok_def whole_start_def live_def)
qed (simp add: whole_start_def)

text \<open>
  C20: What passing the test stands for, in every interleaving of the two swarms, the tasks of any number
  of connections, the network and the end of the test. Over reliable links, no task of a connection
  between the two swarms ever panics. The stream of a swarm never ends, and as long as no swarm's
  task has panicked, neither does the end of the test: no channel it waits on can end. And it gets past the
  first channel only after a task of the first swarm is over, which has received the byte \<open>B\<close>, sent by
  the other end, and past the second one only after one of the second swarm is over and has received
  \<open>A\<close>. So the test passes only if messages went both ways.
\<close>

theorem passed_test_exchanged:
  assumes "hyperswarm_inv (hyperswarm_env tenv uenv denv menv ch debug ph) menv mcontents mclosed contents closed a"
    and "hyperswarm_inv (hyperswarm_env tenv uenv denv menv ch debug ph) menv mcontents mclosed contents closed b"
    and "\<And>e. end_laws (ends e) left (v e) (v (\<not> e))" and "\<And>e. done_laws (ends e) fe waiting senders"
    and "\<And>e l l'. net l l' \<Longrightarrow> same_view (v e) l l'"
    and "\<And>e l. fresh l \<Longrightarrow> ev_sent (v e) l = [] \<and> ev_got (v e) l = [] \<and> \<not> ev_closed (v e) l"
    and "waiting qa = 0" "waiting qb = 0" "senders qa = 1" "senders qb = 1"
    and "whole_test (hyperswarm_env tenv uenv denv menv ch debug ph) ends fe net fresh (whole_start a b qa qb ta tb) w"
  shows "(\<forall>(l, f) \<in> set (ws_conns w). \<forall>e sd t q. between f \<and> f e = Taken sd t \<and> tk_wait t \<noteq> TestOver \<longrightarrow>
      (\<exists>r. test_poll (ends e) (t\<lparr>tk_done := q\<rparr>) l = ret r)) \<and>
    (\<forall>sd. ws_task w sd \<noteq> SwarmEnded) \<and>
    ((\<forall>sd. ws_task w sd \<noteq> SwarmPanicked) \<and> tm_wait (ws_main w) \<noteq> Passed \<longrightarrow>
      (\<exists>r. test_finish fe (ws_main w) (ws_done w SideA) (ws_done w SideB) = ret r)) \<and>
    (\<forall>sd. past sd (ws_main w) \<longrightarrow>
      (\<exists>(l, f) \<in> set (ws_conns w). \<exists>e t. f e = Taken sd t \<and> tk_wait t = TestOver \<and>
         ev_got (v e) l = side_message (other_side sd) \<and>
         prefix (side_message (other_side sd)) (ev_sent (v (\<not> e)) l)))"
proof -
  let ?env = "hyperswarm_env tenv uenv denv menv ch debug ph"
  let ?sok = "hyperswarm_inv ?env menv mcontents mclosed contents closed"
  have "?sok s' \<and> stop \<noteq> Some (Ready ())" if "?sok s" "node_turn ?env s [] = ret (s', streams, stop)" for s s' streams stop
    using node_turn_effect [OF that] by blast
  from whole_test_ok [where ends = ends and v = v and left = left and net = net and fresh = fresh and sok = ?sok,
      OF assms(11) whole_start_ok [where sok = ?sok, OF assms(1,2,7-10)] assms(3-6) this]
  have ok: "whole_ok ?sok left v waiting senders w" .
  then have side: "side_ok ?sok waiting senders w sd"
    and links: "\<forall>(l, f) \<in> set (ws_conns w). link_ok left v f l" for sd by (simp_all add: whole_ok_def)
  have "\<exists>r. test_poll (ends e) (t\<lparr>tk_done := q\<rparr>) l = ret r"
    if "(l, f) \<in> set (ws_conns w)" "between f" "f e = Taken sd t" "tk_wait t \<noteq> TestOver" for l f e sd t q
    using between_task_returns [where ends = ends and e = e and v = v and left = left and l = l and q = q,
        OF assms(3) _ that(2-4)] links that(1) by blast
  moreover have "\<exists>r. test_finish fe (ws_main w) (ws_done w SideA) (ws_done w SideB) = ret r"
    if "\<forall>sd. ws_task w sd \<noteq> SwarmPanicked" "tm_wait (ws_main w) \<noteq> Passed"
  proof -
    have "0 < senders (ws_done w sd)" for sd
      using side [of sd] that(1) by (cases "ws_task w sd") (simp_all add: side_ok_def)
    then show ?thesis by (intro test_finish_returns [OF assms(4)] that(2))
  qed
  moreover have "\<exists>(l, f) \<in> set (ws_conns w). \<exists>e t. f e = Taken sd t \<and> tk_wait t = TestOver \<and>
      ev_got (v e) l = side_message (other_side sd) \<and> prefix (side_message (other_side sd)) (ev_sent (v (\<not> e)) l)"
    if "past sd (ws_main w)" for sd
  proof -
    from side [of sd] that have "someone_over sd (ws_conns w)" by (simp add: side_ok_def)
    then obtain l f e t where over: "(l, f) \<in> set (ws_conns w)" "f e = Taken sd t" "tk_wait t = TestOver"
      by (auto simp: someone_over_def)
    from bspec [OF links over(1)] have "end_own (v e) (v (\<not> e)) l (f e)" by (simp add: link_ok_def)
    with over have "ev_got (v e) l = side_message (other_side sd)"
      "prefix (side_message (other_side sd)) (ev_sent (v (\<not> e)) l)" by (auto simp: own_at_def)
    with over show ?thesis by blast
  qed
  ultimately show ?thesis using side by (auto simp: side_ok_def)
qed

text \<open>Channels for examples: the messages in one and its senders.\<close>

definition script_finish :: "(nat \<times> nat, unit) finish_env" where
  "script_finish =
     \<lparr>fe_recv = (\<lambda>(n, k). case n of
          0 \<Rightarrow> ((0, k), if 0 < k then Pending else Ready None)
        | Suc m \<Rightarrow> ((m, k), Ready (Some ()))),
      fe_clone = (\<lambda>(n, k). (n, Suc k)), fe_drop = (\<lambda>(n, k). (n, k - 1)), fe_cancel = (\<lambda>c. (c, Ready ()))\<rparr>"

abbreviation script_send :: "nat \<times> nat \<Rightarrow> nat \<times> nat" where
  "script_send q \<equiv> (Suc (fst q), snd q)"

lemma script_finish_laws: "done_laws (script_end script_send turn) script_finish fst snd"
  by (auto simp: done_laws_def script_end_def script_finish_def split: nat.splits)

abbreviation script_ends :: "bool \<Rightarrow> (script_link, bytes, nat \<times> nat) test_env" where
  "script_ends e \<equiv> script_end script_send (if e then turned else (\<lambda>l. l))"

abbreviation script_views :: "bool \<Rightarrow> script_link end_view" where
  "script_views e \<equiv> script_view (if e then turned else (\<lambda>l. l))"

text \<open>
  The first swarm finds two peers and gets a connection to each; the second one gets the other end of
  the first connection. They exchange their messages over it, while nothing happens on the other one,
  and the test passes.
\<close>

theorem passed_test_exchanged_witness:
  "\<exists>w. whole_test (script_env [] dht_script) script_ends script_finish (\<lambda>_ _. False)
      (\<lambda>l. l = (([], [], False), ([], [], False)))
      (whole_start
        (script_swarm [] [LookupResult (IdBytes (array32_fill 0))
          [SocketV4 (Ipv4Addr 10 0 0 1) 80, SocketV4 (Ipv4Addr 10 0 0 2) 80]] [])
        (script_swarm [] [LookupResult (IdBytes (array32_fill 0)) [SocketV4 (Ipv4Addr 10 0 0 3) 80]] [])
        (0, 1) (0, 1) () ()) w \<and>
    tm_wait (ws_main w) = Passed \<and> length (ws_conns w) = 2 \<and>
    (\<exists>(l, f) \<in> set (ws_conns w). \<exists>e. ev_got (script_views e) l = [66]) \<and>
    (\<exists>(l, f) \<in> set (ws_conns w). \<exists>e. ev_got (script_views e) l = [65])"
proof -
  let ?env = "script_env [] dht_script" and ?link = "(([], [], False), ([], [], False)) :: script_link"
  let ?a = "script_swarm [] [LookupResult (IdBytes (array32_fill 0))
          [SocketV4 (Ipv4Addr 10 0 0 1) 80, SocketV4 (Ipv4Addr 10 0 0 2) 80]] []"
  let ?b = "script_swarm [] [LookupResult (IdBytes (array32_fill 0)) [SocketV4 (Ipv4Addr 10 0 0 3) 80]] []"
  let ?W = "whole_step ?env script_ends script_finish (\<lambda>_ _. False) (\<lambda>l. l = ?link)"
  let ?ea = "script_end script_send (\<lambda>l. l)" and ?eb = "script_end script_send turned"
  obtain a1 c1 a2 c2 where turn_a: "node_turn ?env ?a [] = ret (a1, [c1], None)" "node_turn ?env a1 [] = ret (a2, [c2], None)"
    by (simp add: node_turn_def swarm_eval)
  obtain b1 c3 where turn_b: "node_turn ?env ?b [] = ret (b1, [c3], None)"
    by (simp add: node_turn_def swarm_eval)
  obtain t1 l1 p1 u2 l2 p2 t3 l3 p3 where
    1: "test_poll ?ea (test_task_a ?ea (0, 3)) ?link = ret (t1, l1, p1)" "tk_wait t1 \<noteq> TestOver"
    and 2: "test_poll ?eb (test_task_b ?eb (0, 2)) l1 = ret (u2, l2, p2)"
    and 3: "test_poll ?ea t1 l2 = ret (t3, l3, p3)"
    and over: "tk_wait u2 = TestOver" "tk_wait t3 = TestOver" and at: "tk_done u2 = (1, 2)" "tk_done t3 = (1, 3)"
    by (rule script_polls [of script_send "(0, 3)" script_send "(0, 2)"]) simp
  have "tk_done t1 = (0, 3)"
    using test_poll_done [OF script_finish_laws 1(1)] 1(2) by (simp add: test_task_a_def prod_eq_iff)
  then have done_t1: "t1\<lparr>tk_done := (0, 3)\<rparr> = t1" by (cases t1) simp
  have done_a: "test_task_a ?ea (0, 2)\<lparr>tk_done := (0, 3)\<rparr> = test_task_a ?ea (0, 3)"
    and done_b: "test_task_b ?eb (0, 2)\<lparr>tk_done := (0, 2)\<rparr> = test_task_b ?eb (0, 2)"
    by (simp_all add: test_task_a_def test_task_b_def)
  obtain w0 where w0: "w0 = whole_start ?a ?b (0, 1) (0, 1) () ()" and start: "rtranclp ?W w0 w0" by blast
  let ?m = "\<lparr>tm_task_a = (), tm_task_b = (), tm_wait = AwaitDone1\<rparr>"
  let ?ta = "\<lambda>q. test_start SideA (script_ends False) q" and ?tb = "test_start SideB (script_ends True) (0, 2)"
  let ?f = "\<lambda>q. (\<lambda>_. Free)(False := Taken SideA (?ta q))"
  note runs = whole_start_def turn_a turn_b script_finish_def
  obtain w1 where w1: "w1 = w0\<lparr>ws_swarm := (ws_swarm w0)(SideA := a1), ws_done := (ws_done w0)(SideA := (0, 2)),
      ws_conns := ws_conns w0 @ [(?link, ?f (0, 2))]\<rparr>" by blast
  have s1: "?W w0 w1"
    unfolding w1 by (rule whole_step.swarm_gets [where stream = c1]) (simp_all add: w0 runs)
  have at1: "ws_swarm w1 = case_side a1 ?b" "ws_done w1 = case_side (0, 2) (0, 1)" "ws_conns w1 = [(?link, ?f (0, 2))]"
    "ws_task w1 = (\<lambda>_. SwarmRuns)" "ws_main w1 = ?m"
    by (simp_all add: w0 w1 whole_start_def fun_eq_iff split: side.split)
  obtain w2 where w2: "w2 = w1\<lparr>ws_swarm := (ws_swarm w1)(SideA := a2), ws_done := (ws_done w1)(SideA := (0, 3)),
      ws_conns := ws_conns w1 @ [(?link, ?f (0, 3))]\<rparr>" by blast
  have s2: "?W w1 w2"
    unfolding w2 by (rule whole_step.swarm_gets [where stream = c2]) (simp_all add: at1 runs)
  have at2: "ws_swarm w2 = case_side a2 ?b" "ws_done w2 = case_side (0, 3) (0, 1)"
    "ws_conns w2 = [(?link, ?f (0, 2)), (?link, ?f (0, 3))]" "ws_task w2 = (\<lambda>_. SwarmRuns)" "ws_main w2 = ?m"
    by (simp_all add: w2 at1 fun_eq_iff split: side.split)
  let ?g = "(?f (0, 2))(True := Taken SideB ?tb)"
  obtain w3 where w3: "w3 = w2\<lparr>ws_swarm := (ws_swarm w2)(SideB := b1), ws_done := (ws_done w2)(SideB := (0, 2)),
      ws_conns := (ws_conns w2)[0 := (?link, ?g)]\<rparr>" by blast
  have s3: "?W w2 w3"
    unfolding w3 by (rule whole_step.swarm_joins [where stream = c3 and l = ?link and f = "?f (0, 2)"]) (simp_all add: at2 runs)
  have at3: "ws_done w3 = case_side (0, 3) (0, 2)" "ws_conns w3 = [(?link, ?g), (?link, ?f (0, 3))]" "ws_main w3 = ?m"
    by (simp_all add: w3 at2 fun_eq_iff split: side.split)
  let ?h = "?g(False := Taken SideA t1)"
  obtain w4 where w4: "w4 = w3\<lparr>ws_done := (ws_done w3)(SideA := (0, 3)), ws_conns := (ws_conns w3)[0 := (l1, ?h)]\<rparr>" by blast
  have s4: "?W w3 w4"
    unfolding w4
    by (rule whole_step.task_polled [where l = ?link and f = ?g and t = "?ta (0, 2)" and p = p1])
       (simp_all add: at3 1 done_a \<open>tk_done t1 = (0, 3)\<close>, simp add: test_task_a_def)
  have at4: "ws_done w4 = case_side (0, 3) (0, 2)" "ws_conns w4 = [(l1, ?h), (?link, ?f (0, 3))]" "ws_main w4 = ?m"
    by (simp_all add: w4 at3 fun_eq_iff split: side.split)
  let ?k = "?h(True := Taken SideB u2)"
  obtain w5 where w5: "w5 = w4\<lparr>ws_done := (ws_done w4)(SideB := (1, 1)), ws_conns := (ws_conns w4)[0 := (l2, ?k)]\<rparr>" by blast
  have s5: "?W w4 w5"
    unfolding w5
    by (rule whole_step.task_polled [where l = l1 and f = ?h and t = ?tb and p = p2])
       (simp_all add: at4 2 done_b over at script_finish_def, simp add: test_task_b_def)
  have at5: "ws_done w5 = case_side (0, 3) (1, 1)" "ws_conns w5 = [(l2, ?k), (?link, ?f (0, 3))]" "ws_main w5 = ?m"
    by (simp_all add: w5 at4 fun_eq_iff split: side.split)
  obtain w6 where w6: "w6 = w5\<lparr>ws_done := (ws_done w5)(SideA := (1, 2)),
      ws_conns := (ws_conns w5)[0 := (l3, ?k(False := Taken SideA t3))]\<rparr>" by blast
  have s6: "?W w5 w6"
    unfolding w6
    by (rule whole_step.task_polled [where l = l2 and f = ?k and t = t1 and p = p3])
       (simp_all add: at5 1(2) 3 done_t1 over at script_finish_def)
  have at6: "ws_done w6 = case_side (1, 2) (1, 1)" "length (ws_conns w6) = 2" "ws_main w6 = ?m"
    by (simp_all add: w6 at5 fun_eq_iff split: side.split)
  obtain w7 where w7: "w7 = w6\<lparr>ws_main := ?m\<lparr>tm_wait := Passed\<rparr>, ws_done := case_side (0, 2) (0, 1)\<rparr>" by blast
  have s7: "?W w6 w7"
    unfolding w7
    by (rule whole_step.finishing [where p = "Ready ()"])
       (simp_all add: at6 test_finish_def finish_done1_def finish_done2_def finish_cancel_a_def finish_cancel_b_def script_finish_def)
  note steps = rtranclp.rtrancl_into_rtrancl [OF rtranclp.rtrancl_into_rtrancl [OF rtranclp.rtrancl_into_rtrancl
    [OF rtranclp.rtrancl_into_rtrancl [OF start s1] s2] s3] s4]
  from rtranclp.rtrancl_into_rtrancl [OF rtranclp.rtrancl_into_rtrancl [OF rtranclp.rtrancl_into_rtrancl [OF steps s5] s6] s7]
  have run: "whole_test ?env script_ends script_finish (\<lambda>_ _. False) (\<lambda>l. l = ?link)
      (whole_start ?a ?b (0, 1) (0, 1) () ()) w7"
    by (simp only: whole_test_def w0)
  have passed: "tm_wait (ws_main w7) = Passed" "length (ws_conns w7) = 2"
    by (simp_all add: w7 at6(2))
  have laws: "end_laws (script_ends e) (\<lambda>x. x) (script_views e) (script_views (\<not> e))" for e
    using script_ends_laws by (cases e) simp_all
  have clean: "ev_sent (script_views e) l = [] \<and> ev_got (script_views e) l = [] \<and> \<not> ev_closed (script_views e) l"
    if "l = ?link" for e l
    using script_link_fresh that by (cases e) simp_all
  have "\<exists>(l, f) \<in> set (ws_conns w7). \<exists>e t. f e = Taken sd t \<and> tk_wait t = TestOver \<and>
      ev_got (script_views e) l = side_message (other_side sd) \<and>
      prefix (side_message (other_side sd)) (ev_sent (script_views (\<not> e)) l)" for sd
    by (rule passed_test_exchanged [where ends = script_ends and v = script_views and left = "\<lambda>x. x",
          OF script_swarm_inv script_swarm_inv laws script_finish_laws _ clean _ _ _ _ run,
          THEN conjunct2, THEN conjunct2, THEN conjunct2, THEN spec, THEN mp])
       (simp_all, cases sd, simp_all add: passed)
  note got = this
  have message: "side_message (other_side SideA) = [66]" "side_message (other_side SideB) = [65]" by simp_all
  from got [of SideA] got [of SideB] have "\<exists>(l, f) \<in> set (ws_conns w7). \<exists>e. ev_got (script_views e) l = [66]"
    and "\<exists>(l, f) \<in> set (ws_conns w7). \<exists>e. ev_got (script_views e) l = [65]"
    unfolding message by blast+
  with run passed show ?thesis by (intro exI [of _ w7] conjI)
qed

end
