(* ===== verification/Spec2Isabelle.thy ===== *)
theory Spec2Isabelle
  imports Chat_Printing Simple Swarm_Test
begin

text \<open>
  \<^bold>\<open>A verified model of hyperswarm-rs\<close>

  \<^bold>\<open>The program.\<close> The crate finds peers that are interested in a topic (32 bytes) and connects to
  them. \<open>Hyperswarm\<close> (\<open>src/swarm.rs\<close>) owns a discovery and a transport. The discovery
  (\<open>src/discovery/combined.rs\<close>) runs a DHT node (\<open>dht.rs\<close>) and multicast DNS (\<open>mdns.rs\<close>) side by
  side; the transport (\<open>src/transport/combined.rs\<close>) runs TCP (\<open>tcp.rs\<close>) and uTP (\<open>utp.rs\<close>). The
  owner configures topics, directly or through a \<open>SwarmHandle\<close> that sends commands over a channel;
  polling the swarm runs the commands, polls the discovery once, asks the transport to connect to
  the peer found, and polls the transport once. A bootstrap node (\<open>src/bootstrap.rs\<close> and the binary
  \<open>hyperswarm-bootstrap\<close>) is a DHT node that only answers. Two examples use the crate: a chat
  (\<open>examples/hyperchat.rs\<close>), which frames messages on every connection of a swarm and broadcasts the
  lines that are typed, and \<open>examples/simple.rs\<close>, which prints what the peers of a few nodes send.

  \<^bold>\<open>The theories.\<close>
  \<^item> \<open>Prelude\<close>: the values of the standard library that the crate passes around, and its effects as
    values: \<open>'a run\<close> for calls that may panic or not return, \<open>('w, 'a) action\<close> for calls that act
    on the world, \<open>try_bind\<close> for the operator \<open>?\<close>.
  \<^item> \<open>Net\<close>: socket addresses with their text and the parser of IPv4 literals; name resolution is an
    argument (\<open>'a resolver\<close>). Also the \<open>Debug\<close> form that the components print with.
  \<^item> \<open>Util\<close>: \<open>src/util.rs\<close>.
  \<^item> \<open>Transport\<close>, \<open>Tcp_Transport\<close>, \<open>Utp_Transport\<close>, \<open>Combined_Transport\<close>: \<open>src/transport/\<close>. The
    traits \<open>AsyncRead + AsyncWrite\<close> and \<open>Transport\<close> are the records \<open>async_io\<close> and \<open>transport_ops\<close>;
    the locales \<open>io_wrapper\<close> and \<open>transport\<close> are their contracts, interpreted for \<open>Connection\<close>,
    \<open>UtpStream\<close> and \<open>CombinedStream\<close>, and for the TCP, the uTP and the combined transport (the last
    through \<open>transport_pair\<close>, which keeps the contract over any two transports).
  \<^item> \<open>Discovery\<close>, \<open>Channel\<close>, \<open>Dht_Discovery\<close>, \<open>Mdns_Discovery\<close>, \<open>Combined_Discovery\<close>:
    \<open>src/discovery/\<close>. The trait \<open>Discovery\<close> is the record \<open>discovery_ops\<close>, its contract the locale
    \<open>discovery\<close>, interpreted for the DHT, mDNS and, through \<open>discovery_pair\<close>, the combination.
  \<^item> \<open>Config\<close>: \<open>src/config.rs\<close>.
  \<^item> \<open>Swarm\<close>: \<open>src/swarm.rs\<close> over any discovery, transport and channel (the locale \<open>swarm_parts\<close>),
    with the step relation \<open>swarm_step\<close>, executions \<open>swarm_exec\<close> and the reference behaviour
    (\<open>trace_configs\<close>, \<open>apply_configs\<close>, \<open>rising_calls\<close>, \<open>swarm_effect\<close>).
  \<^item> \<open>Hyperswarm\<close>: the swarm over its own discovery and transport, and the properties of the whole.
  \<^item> \<open>Bootstrap\<close>: \<open>src/bootstrap.rs\<close> and \<open>hyperswarm-bootstrap/src/main.rs\<close>.
  \<^item> \<open>Chat_Connection\<close>: \<open>connection_loop\<close> of \<open>examples/hyperchat.rs\<close>, one poll as a loop of \<open>chat_turn\<close>;
    \<open>undelivered\<close> is the input still to deliver and \<open>to_send\<close> the output, as they are on the wire;
    \<open>whole_frames\<close> and \<open>lengths_whole\<close> are the streams over which messages go both ways unharmed, and
    \<open>chat_safe\<close> the states from which no byte is lost.
  \<^item> \<open>Hyperchat\<close>: the rest of the chat. Its tasks interleave by \<open>chat_step\<close> and executions are
    \<open>chat_exec\<close>; \<open>lines_after\<close> is the reference of what a peer is sent. \<open>Chat_Execution\<close>: the invariant
    \<open>chat_wf\<close> and the properties. \<open>Chat_Printing\<close>: the task that prints beside the others (\<open>chat_run\<close>);
    \<open>in_transit\<close> relates the two queues between a connection and the terminal to one.
  \<^item> \<open>Utf8\<close>: strings and \<open>String::from_utf8\<close>; \<open>Simple\<close>: \<open>examples/simple.rs\<close>. The task of a node is spawned
    before its topic is configured, so \<open>run_node\<close> takes the number of turns it has gone through by then.
  \<^item> \<open>Swarm_Test\<close>: \<open>mod test\<close> of \<open>src/swarm.rs\<close>. \<open>test_setup\<close> is its setup; \<open>test_run\<close> are the
    interleavings of the two tasks of a connection over one shared link with the laws \<open>end_laws\<close>.
    \<open>whole_test\<close> are the executions of the whole: the steps \<open>whole_step\<close> of the two swarms, the tasks of
    any number of connections, the network and the end of the test (\<open>test_finish\<close>), which waits for a
    message of each side on a channel shared by the tasks of that side, and ended when none is left.
  \<^item> This theory: what an error of the swarm does to the two examples.

  \<^bold>\<open>State and operations.\<close> A struct is a record with the fields of the source (\<open>hyperswarm\<close>,
  \<open>combined_transport\<close>, \<open>dht_discovery\<close>, ...); the two ends of a channel are one field, its state. A
  method is a function of the same name, prefixed by its component, from the state to the changed
  state and the result. \<open>poll_next\<close> returns a \<open>poll\<close> of an option of an \<open>io_result\<close>; the waker of the
  \<open>Context\<close> argument is not modelled, so what is said about waking is about which streams a pending
  poll has polled. Futures of \<open>async fn bind\<close> are run to their end.

  \<^bold>\<open>Code that is not here.\<close> The third-party crates are parameters: \<open>tcp_env\<close> (async_std sockets and
  FuturesUnordered), \<open>utp_env\<close> (libutp_rs, async_compat), \<open>dht_env\<close> and \<open>dht_config_ops\<close>
  (hyperswarm_dht), \<open>mdns_env\<close> (colmeia_hyperswarm_mdns, multicast_socket, hex), \<open>channel_ops\<close>
  (async_std channels, with the laws \<open>channel_laws\<close>), \<open>blake2b\<close> (blake2_rfc, \<open>blake2b_laws\<close>),
  \<open>chat_env\<close> and \<open>simple_env\<close> (the futures \<open>read_exact\<close> and \<open>write_all\<close>, with \<open>chat_laws\<close> and
  \<open>chat_write_laws\<close>), \<open>test_env\<close> and \<open>finish_env\<close> (a stream and the bounded channels of the test, with \<open>end_laws\<close> and
  \<open>done_laws\<close>), and pretty_hash. The properties hold for every such environment, up to the hypotheses they name; each
  has a witness on scripted environments (\<open>tcp_script\<close>, \<open>utp_script\<close>, \<open>dht_script\<close>, \<open>mdns_script\<close>,
  \<open>list_channel\<close>, \<open>chat_script\<close>, \<open>duplex_script\<close>, \<open>hyperchat_script\<close>, \<open>whole_script\<close>, \<open>simple_script\<close>,
  \<open>script_end\<close>).

  \<^bold>\<open>What is shown.\<close> The swarm refines its reference behaviour over every execution; every topic
  turned on reaches the DHT node exactly once per rising edge, after more polls than there are found
  peers to hand out and once the node is bootstrapped, with the port the transport listens
  on; peers found are connected to in order; no address gets two outgoing connections; connections
  name the protocol and the peer of their stream and pass reads and writes through unchanged; the
  queues of the DHT discovery lose, repeat and reorder nothing; errors and panics happen exactly
  where stated; the loops of a poll end, or, for the task of a bootstrap node, do not. The chat sends
  each saved peer its initial message and every line typed since, once and in order, under every
  interleaving of its tasks, its framing is transparent as long as a connection only receives, and a
  message that has arrived whole is delivered by the next poll, and no other; when only whole frames
  arrive, or at least no part of a length, this holds while both sides send, up to the lines that are
  printed; and
  between a connection and the terminal no message is lost, repeated or overtaken by a later one;
  what breaks it (a message sent while a length is half read, lengths over 32 bits, a failure that
  overtakes the saving of the peer, one that ends another connection of the same name, one name for
  all peers, text cut inside a character, an mDNS response with a bad topic) is stated as what the
  code does. Peers that the DHT discovery holds are connected to by successive polls, none skipped.
  A node of the simple example has joined its topic by the first poll after it was told to, and hands
  over every connection, before and after. The test of the swarm cannot fail on a connection over a
  reliable link between its two swarms, however its tasks interleave, its end can fail only if the
  task of a swarm panics, and it passes only when messages went both ways.

  \<^bold>\<open>Loops.\<close> The loop over queued DHT commands is a \<open>function\<close> with a measure, and so is the start of the
  nodes of the simple example, each with any number of turns of its task before its topic is configured. The loops of \<open>dht_poll_next\<close>, \<open>drain_commands\<close>, \<open>bootstrap_task\<close>,
  \<open>connection_loop\<close>, \<open>node_poll\<close> and \<open>connection_task\<close> are \<open>partial_function (option)\<close>: not returning is
  \<open>None\<close>. The one over commands ends for every channel that obeys its laws; the one over DHT events
  ends when some measure of the node drops with every event, and not in general; every poll of a
  connection of the chat ends, since each turn takes bytes off its input or a message off its queue
  (\<open>connection_loop_returns\<close>); that of a connection of the simple example ends when its reads do (\<open>reads\<close>).

  \<^bold>\<open>Not modelled.\<close> Log output other than the calls its arguments make, the derived \<open>Debug\<close>
  implementations other than those of \<open>Connection\<close> and \<open>DiscoveryMethod\<close>, wakers, the parsing of
  command lines (clap; the options it produces are records), the wait of 50 ms in the test of the
  swarm (there is no time in the model, and the second swarm may be late in any execution), the drop of
  the senders by the cancels at the end of the test (no channel is read after them), peers outside
  the test, the tests that are commented out, module declarations and
  re-exports, which is all of \<open>src/lib.rs\<close>, and the JavaScript example. What is left of the files beyond
  that are imports, comments, attributes and the braces of \<open>impl\<close> blocks. The number of connections that a chat or a node has open at a time is not
  bounded in the model, as it is not in the code.
\<close>

section \<open>The swarm inside the examples\<close>

text \<open>
  C21: One bad mDNS response ends the examples. When the DHT has nothing to report and the locator
  receives a response whose topic is not 32 bytes long, the poll of the swarm returns an error; the
  chat that takes it as its next item is over for good with that error, whatever its tasks still
  do, and a node of the simple example that polls the swarm panics.
\<close>

theorem bad_topic_ends_examples:
  assumes "hyperswarm_inv (hyperswarm_env tenv uenv denv menv ch debug ph) menv mcontents mclosed
      contents closed s"
    and "contents (sw_commands s) = []"
    and "dht_poll_next denv (cd_dht (sw_discovery s)) = ret (d, Pending)"
    and "me_locator_poll menv (mdns_locator (cd_mdns (sw_discovery s))) = (l, Ready (Some (bs, addr)))"
    and "length bs \<noteq> 32"
  shows "\<exists>s' e. swarm_poll_next (hyperswarm_env tenv uenv denv menv ch debug ph) s =
      ret (s', Ready (Some (Inl e))) \<and>
    (\<forall>events b'. chat_exec chat (accept_stream chat (Some (Inl e)) b) events b' \<longrightarrow>
       hb_run b' = Finished (Inl (ChatIo e))) \<and>
    node_poll (hyperswarm_env tenv uenv denv menv ch debug ph) s handed = panic"
proof -
  obtain s' e where poll: "swarm_poll_next (hyperswarm_env tenv uenv denv menv ch debug ph) s =
      ret (s', Ready (Some (Inl e)))"
    using poll_bad_topic [OF assms] by blast
  then have "node_poll (hyperswarm_env tenv uenv denv menv ch debug ph) s handed = panic"
    by (simp add: node_poll_unfold)
  moreover have "hb_run (accept_stream chat (Some (Inl e)) b) = Finished (Inl (ChatIo e))"
    by (simp add: accept_stream_def)
  ultimately show ?thesis using poll chat_exec_finished by blast
qed

theorem bad_topic_ends_examples_witness:
  "\<exists>e. (\<forall>events b'. chat_exec hyperchat_script
        (accept_stream hyperchat_script (Some (Inl e)) (broadcast_new hyperchat_script [])) events b' \<longrightarrow>
      hb_run b' = Finished (Inl (ChatIo e))) \<and>
    node_poll (script_env [] dht_script) (script_swarm [] [] [([7], SocketV4 (Ipv4Addr 10 0 0 1) 80)]) [] = panic"
proof -
  let ?s = "script_swarm [] ([] :: hyper_dht_event list) [([7], SocketV4 (Ipv4Addr 10 0 0 1) 80)]"
  have inv: "hyperswarm_inv (script_env [] dht_script) mdns_script fst snd fst snd ?s"
    by (rule script_swarm_inv)
  have empty: "fst (sw_commands ?s) = []" by (simp add: script_swarm_def)
  obtain d where dht: "dht_poll_next dht_script (cd_dht (sw_discovery ?s)) = ret (d, Pending)"
    by (simp add: swarm_eval)
  have mdns: "me_locator_poll mdns_script (mdns_locator (cd_mdns (sw_discovery ?s))) =
      ([], Ready (Some ([7], SocketV4 (Ipv4Addr 10 0 0 1) 80)))"
    by (simp add: script_swarm_def mdns_start_def)
  have "length [7 :: u8] \<noteq> 32" by simp
  from bad_topic_ends_examples [OF inv empty dht mdns this] show ?thesis by blast
qed

end
